(* ===== verification/Prelude.thy ===== *)
theory Prelude
  imports Main "HOL-Library.Word"
begin

text \<open>
  The ground floor of the development: the machine integers of the firmware, its memory as
  byte lists, the byte order of the processor and of the network, and the lemmas on lists and
  words that the components share.

  The target is a 32-bit little-endian ARM core (Zynq PS). A \<open>u32\<close> object in memory is
  its four bytes, least significant first (\<open>put32\<close>/\<open>get32\<close>); the network order of a message is
  most significant first, and \<open>htonl\<close>, \<open>htons\<close>, \<open>ntohl\<close>, \<open>ntohs\<close> reverse the bytes of a value.
  Bytes are \<open>8 word\<close>s; a C buffer is the list of its bytes, from the pointer to the end of the
  object it points into, so that an access past the end of that list is an access outside the
  object. Such an access is undefined behaviour in C: an operation that can perform one returns
  an \<open>option\<close>, and \<open>None\<close> stands for it.
\<close>

unbundle bit_operations_syntax

type_synonym u8 = "8 word"
type_synonym u16 = "16 word"
type_synonym u32 = "32 word"
type_synonym s32 = "32 word"
type_synonym bytes = "u8 list"

named_theorems byte_simps \<open>byte-order and buffer equations used to evaluate messages\<close>

section \<open>Bits of words built from bytes\<close>

lemma bit_u8_beyond [simp]:
  "\<not> bit (a :: u8) (8 + n)" "\<not> bit (a :: u8) (16 + n)" "\<not> bit (a :: u8) (24 + n)"
  by (auto dest: bit_imp_le_length)

lemma bit_u16_beyond [simp]: "\<not> bit (a :: u16) (16 + n)"
  by (auto dest: bit_imp_le_length)

text \<open>A bit position of a 32-bit word lies in one of its four bytes.\<close>

lemma u32_bit_cases:
  assumes "n < (32::nat)"
  obtains (byte0) "n < 8"
    | (byte1) k where "n = 8 + k" "k < 8"
    | (byte2) k where "n = 16 + k" "k < 8"
    | (byte3) k where "n = 24 + k" "k < 8"
proof -
  have part: thesis if le: "8 * j \<le> n" and lt: "n < 8 * j + 8"
    and goal: "\<And>k. n = 8 * j + k \<Longrightarrow> k < 8 \<Longrightarrow> thesis" for j
  proof -
    obtain k where "n = 8 * j + k" using le by (auto simp: le_iff_add)
    then show thesis using goal lt by auto
  qed
  consider "n < 8" | "8 \<le> n" "n < 16" | "16 \<le> n" "n < 24" | "24 \<le> n" "n < 32"
    using assms by linarith
  then show thesis
    using byte0 part [of 1] part [of 2] part [of 3] byte1 byte2 byte3 by cases auto
qed

lemma unat_u32_bound: "unat (x :: u32) < 2 ^ 32"
  using unsigned_less [where 'a = nat, of x] by simp

lemma ucast_u16_u32: "unat x < 2 ^ 16 \<Longrightarrow> ucast (ucast x :: u16) = x" for x :: u32
  by (simp add: word_unat_eq_iff unsigned_ucast_eq unsigned_take_bit_eq take_bit_nat_eq_self)

lemma ucast_of_nat_u16: "m < 2 ^ 16 \<Longrightarrow> (ucast (of_nat m :: u16) :: u32) = of_nat m"
  by (simp add: word_unat_eq_iff unsigned_ucast_eq unsigned_take_bit_eq take_bit_nat_eq_self unat_of_nat)

text \<open>A counter below a bound does not wrap when it is incremented.\<close>

lemma unat_plus_1_below: "i < n \<Longrightarrow> unat (i + 1) = Suc (unat i)" for i n :: "'a::len word"
proof -
  assume "i < n"
  then have "unat i < unat n" by (simp add: word_less_nat_alt)
  moreover have "unat n < 2 ^ LENGTH('a)" by (rule unsigned_less)
  ultimately have "Suc (unat i) < 2 ^ LENGTH('a)" by linarith
  then show "unat (i + 1) = Suc (unat i)"
    by (simp add: unat_word_ariths(1))
qed

lemma unat_diff_plus_1_less: "i < n \<Longrightarrow> unat (n - (i + 1)) < unat (n - i)" for i n :: "'a::len word"
  using unat_plus_1_below [of i n]
  by (simp add: unat_sub word_le_nat_alt word_less_nat_alt)

section \<open>Objects in memory\<close>

fun put16 :: "u16 \<Rightarrow> bytes" where
  "put16 x = [ucast x, ucast (drop_bit 8 x)]"

fun get16 :: "bytes \<Rightarrow> u16" where
  "get16 (a # b # _) = ucast a OR push_bit 8 (ucast b)"
| "get16 _ = 0"

fun put32 :: "u32 \<Rightarrow> bytes" where
  "put32 x = [ucast x, ucast (drop_bit 8 x), ucast (drop_bit 16 x), ucast (drop_bit 24 x)]"

fun get32 :: "bytes \<Rightarrow> u32" where
  "get32 (a # b # c # d # _) =
     ucast a OR push_bit 8 (ucast b) OR push_bit 16 (ucast c) OR push_bit 24 (ucast d)"
| "get32 _ = 0"

lemma get16_put16 [simp]: "get16 (put16 x @ r) = x"
  by (rule bit_word_eqI) (auto simp: bit_simps)

lemma put16_get16: "put16 (get16 [a, b]) = [a, b]"
  by (auto intro!: bit_word_eqI simp: bit_simps)

lemma get32_put32 [simp]: "get32 (put32 x @ r) = x"
proof (rule bit_word_eqI)
  fix n assume "n < LENGTH(32)"
  then have "n < 32" by simp
  then show "bit (get32 (put32 x @ r)) n \<longleftrightarrow> bit x n"
    by (cases n rule: u32_bit_cases) (auto simp: bit_simps)
qed

lemma put32_get32: "put32 (get32 [a, b, c, d]) = [a, b, c, d]"
  by (auto intro!: bit_word_eqI simp: bit_simps)

lemmas get16_put16' [simp] = get16_put16 [where r = "[]", unfolded append_Nil2]
lemmas get32_put32' [simp] = get32_put32 [where r = "[]", unfolded append_Nil2]

lemma length_put16 [simp]: "length (put16 x) = 2"
  by simp

lemma length_put32 [simp]: "length (put32 x) = 4"
  by simp

declare put16.simps [simp del] put32.simps [simp del] get16.simps [simp del] get32.simps [simp del]

lemma put32_get32_list: "length bs = 4 \<Longrightarrow> put32 (get32 bs) = bs"
  by (cases bs rule: get32.cases) (auto simp: put32_get32)

lemma put16_get16_list: "length bs = 2 \<Longrightarrow> put16 (get16 bs) = bs"
  by (cases bs rule: get16.cases) (auto simp: put16_get16)

section \<open>Network byte order\<close>

definition htons :: "u16 \<Rightarrow> u16" where
  "htons x = get16 (rev (put16 x))"

definition htonl :: "u32 \<Rightarrow> u32" where
  "htonl x = get32 (rev (put32 x))"

abbreviation ntohs :: "u16 \<Rightarrow> u16" where "ntohs \<equiv> htons"
abbreviation ntohl :: "u32 \<Rightarrow> u32" where "ntohl \<equiv> htonl"

lemma put16_htons [byte_simps]: "put16 (htons x) = rev (put16 x)"
  unfolding htons_def by (rule put16_get16_list) simp

lemma put32_htonl [byte_simps]: "put32 (htonl x) = rev (put32 x)"
  unfolding htonl_def by (rule put32_get32_list) simp

lemma htons_htons [simp]: "htons (htons x) = x"
  by (simp add: htons_def [of "htons x"] put16_htons)

lemma htonl_htonl [simp]: "htonl (htonl x) = x"
  by (simp add: htonl_def [of "htonl x"] put32_htonl)

text \<open>The bytes of a value as they stand on the wire.\<close>

definition be16 :: "u16 \<Rightarrow> bytes" where
  "be16 x = put16 (htons x)"

definition be32 :: "u32 \<Rightarrow> bytes" where
  "be32 x = put32 (htonl x)"

definition rd16 :: "bytes \<Rightarrow> u16" where
  "rd16 bs = ntohs (get16 bs)"

definition rd32 :: "bytes \<Rightarrow> u32" where
  "rd32 bs = ntohl (get32 bs)"

lemma be16_bytes: "be16 x = [ucast (drop_bit 8 x), ucast x]"
  unfolding be16_def put16_htons by (simp add: put16.simps)

lemma be32_bytes:
  "be32 x = [ucast (drop_bit 24 x), ucast (drop_bit 16 x), ucast (drop_bit 8 x), ucast x]"
  unfolding be32_def put32_htonl by (simp add: put32.simps)

lemma length_be16 [simp]: "length (be16 x) = 2"
  by (simp add: be16_bytes)

lemma length_be32 [simp]: "length (be32 x) = 4"
  by (simp add: be32_bytes)

lemma rd16_be16 [simp]: "rd16 (be16 x @ r) = x"
  by (simp add: rd16_def be16_def)

lemma rd32_be32 [simp]: "rd32 (be32 x @ r) = x"
  by (simp add: rd32_def be32_def)

lemmas rd16_be16' [simp] = rd16_be16 [where r = "[]", unfolded append_Nil2]
lemmas rd32_be32' [simp] = rd32_be32 [where r = "[]", unfolded append_Nil2]

lemma put32_htonl_be32 [byte_simps]: "put32 (htonl x) = be32 x"
  by (simp add: be32_def)

section \<open>Fixed-width codecs\<close>

text \<open>
  The contract every fixed-width field of a message obeys, and what it gives for an array of
  such fields: the arrays of the waveform, EEPROM, table and statistics messages are all
  \<open>concat (map enc xs)\<close>.
\<close>

locale codec =
  fixes enc :: "'a \<Rightarrow> bytes"
    and dec :: "bytes \<Rightarrow> 'a"
    and width :: nat
  assumes dec_enc: "dec (enc x @ r) = x"
    and width_enc: "length (enc x) = width"
begin

lemma length_enc_list: "length (concat (map enc xs)) = width * length xs"
  by (induction xs) (auto simp: width_enc)

lemma drop_enc_list:
  "i \<le> length xs \<Longrightarrow> drop (width * i) (concat (map enc xs)) = concat (map enc (drop i xs))"
proof (induction xs arbitrary: i)
  case (Cons x xs)
  then show ?case by (cases i) (auto simp: width_enc)
qed simp

lemma dec_nth_enc_list:
  assumes "i < length xs"
  shows "dec (drop (width * i) (concat (map enc xs) @ r)) = xs ! i"
proof -
  have "drop (width * i) (concat (map enc xs)) = enc (xs ! i) @ concat (map enc (drop (Suc i) xs))"
    using assms by (simp add: drop_enc_list Cons_nth_drop_Suc [symmetric])
  moreover have "width * i - width * length xs = 0"
    using assms by simp
  ultimately show ?thesis
    by (simp add: length_enc_list dec_enc)
qed

lemma enc_list_inj: "concat (map enc xs) = concat (map enc ys) \<Longrightarrow> length xs = length ys \<Longrightarrow> xs = ys"
  using dec_nth_enc_list [of _ xs "[]"] dec_nth_enc_list [of _ ys "[]"]
  by (metis nth_equalityI)

end

interpretation wire16: codec be16 rd16 2
  by unfold_locales simp_all

interpretation wire32: codec be32 rd32 4
  by unfold_locales simp_all

interpretation mem16: codec put16 get16 2
  by unfold_locales simp_all

interpretation mem32: codec put32 get32 4
  by unfold_locales simp_all

section \<open>Buffers\<close>

text \<open>\<open>buf_write buf off d\<close>: \<open>d\<close> copied over the bytes of \<open>buf\<close> from offset \<open>off\<close> on.\<close>

definition buf_write :: "'a list \<Rightarrow> nat \<Rightarrow> 'a list \<Rightarrow> 'a list" where
  "buf_write buf off d = take off buf @ d @ drop (off + length d) buf"

lemma length_buf_write [simp]:
  "off + length d \<le> length buf \<Longrightarrow> length (buf_write buf off d) = length buf"
  by (simp add: buf_write_def)

lemma buf_write_Nil [simp]: "buf_write buf off [] = buf"
  by (simp add: buf_write_def)

lemma buf_write_append:
  "off + length d + length e \<le> length buf \<Longrightarrow>
   buf_write (buf_write buf off d) (off + length d) e = buf_write buf off (d @ e)"
  by (simp add: buf_write_def ac_simps)

lemma take_buf_write [simp]: "take (length d) (buf_write buf 0 d) = d"
  by (simp add: buf_write_def)

lemma drop_buf_write:
  "off + length d \<le> k \<Longrightarrow> off \<le> length buf \<Longrightarrow> drop k (buf_write buf off d) = drop k buf"
  by (simp add: buf_write_def)

text \<open>A 32-bit load at a byte offset; outside the object it is undefined.\<close>

definition load32 :: "bytes \<Rightarrow> nat \<Rightarrow> u32 option" where
  "load32 mem off = (if off + 4 \<le> length mem then Some (get32 (drop off mem)) else None)"

lemma load32_Some: "off + 4 \<le> length mem \<Longrightarrow> load32 mem off = Some (get32 (drop off mem))"
  by (simp add: load32_def)

lemma load32_None_iff [simp]: "load32 mem off = None \<longleftrightarrow> length mem < off + 4"
  by (auto simp: load32_def)

end
