(* ===== verification/Pscmsg.thy ===== *)
theory Pscmsg
  imports Prelude
begin

text \<open>
  The PSC message layer, \<open>src/sw/src/pscmsg.c\<close>: the 8-byte header, sending and receiving
  exactly \<open>n\<close> bytes over a stream socket, skipping, and whole messages.

  The sockets belong to lwIP, which is not part of the repository: \<open>send\<close> and \<open>recv\<close> are
  parameters of the definitions, acting on a world \<open>'w\<close>. What the code relies on is stated as
  \<open>send_contract\<close> and \<open>recv_contract\<close>: a call transfers a prefix of what is offered or
  pending, never more than was asked for, and fails with a non-zero \<open>errno\<close> without
  transferring anything. The ghost functions \<open>sent\<close> and \<open>pend\<close> give the bytes accepted for,
  and still to be read from, each socket.

  Results: \<open>None\<close> is an access outside the buffer the code passes (undefined behaviour in C).
\<close>

section \<open>Sockets\<close>

type_synonym errno = int

text \<open>newlib's values; the code only depends on them being non-zero.\<close>

definition ENOTCONN :: errno where "ENOTCONN = 128"
definition EIO :: errno where "EIO = 5"

lemma errno_nonzero [simp]: "ENOTCONN \<noteq> 0" "EIO \<noteq> 0" "0 \<noteq> ENOTCONN" "0 \<noteq> EIO"
  by (simp_all add: ENOTCONN_def EIO_def)

datatype send_ret = SFail errno | SRet nat
datatype recv_ret = RFail errno | RData bytes

type_synonym 'w send_fn = "'w \<Rightarrow> int \<Rightarrow> bytes \<Rightarrow> int \<Rightarrow> send_ret \<times> 'w"
type_synonym 'w recv_fn = "'w \<Rightarrow> int \<Rightarrow> nat \<Rightarrow> int \<Rightarrow> recv_ret \<times> 'w"

definition send_contract :: "'w send_fn \<Rightarrow> ('w \<Rightarrow> int \<Rightarrow> bytes) \<Rightarrow> bool" where
  "send_contract send sent \<longleftrightarrow>
     (\<forall>w sock buf flags. case send w sock buf flags of
        (SFail e, w') \<Rightarrow> e \<noteq> 0 \<and> sent w' = sent w
      | (SRet n, w') \<Rightarrow> n \<le> length buf \<and> sent w' = (sent w)(sock := sent w sock @ take n buf))"

definition recv_contract :: "'w recv_fn \<Rightarrow> ('w \<Rightarrow> int \<Rightarrow> bytes) \<Rightarrow> bool" where
  "recv_contract recv pend \<longleftrightarrow>
     (\<forall>w sock n flags. case recv w sock n flags of
        (RFail e, w') \<Rightarrow> e \<noteq> 0 \<and> pend w' = pend w
      | (RData d, w') \<Rightarrow> length d \<le> n \<and> (\<exists>r. pend w sock = d @ r \<and> pend w' = (pend w)(sock := r)))"

text \<open>A connection that delivers: while bytes are pending, a read returns some of them.\<close>

definition recv_delivers :: "'w recv_fn \<Rightarrow> ('w \<Rightarrow> int \<Rightarrow> bytes) \<Rightarrow> int \<Rightarrow> bool" where
  "recv_delivers recv pend sock \<longleftrightarrow>
     (\<forall>w n flags. 0 < n \<longrightarrow> pend w sock \<noteq> [] \<longrightarrow>
        (case recv w sock n flags of (RFail e, w') \<Rightarrow> False | (RData d, w') \<Rightarrow> d \<noteq> []))"

definition send_accepts :: "'w send_fn \<Rightarrow> int \<Rightarrow> bool" where
  "send_accepts send sock \<longleftrightarrow>
     (\<forall>w buf flags. buf \<noteq> [] \<longrightarrow>
        (case send w sock buf flags of (SFail e, w') \<Rightarrow> False | (SRet n, w') \<Rightarrow> n \<noteq> 0))"

section \<open>Header\<close>

record psc_header =
  hdr_P :: u8
  hdr_S :: u8
  hdr_mid :: u16
  hdr_mlen :: u32

text \<open>The union \<open>psc_header_buf\<close>: the struct and its eight bytes.\<close>

definition psc_header_bytes :: "psc_header \<Rightarrow> bytes" where
  "psc_header_bytes h = [hdr_P h, hdr_S h] @ put16 (hdr_mid h) @ put32 (hdr_mlen h)"

definition psc_header_of :: "bytes \<Rightarrow> psc_header" where
  "psc_header_of B = \<lparr>hdr_P = B ! 0, hdr_S = B ! 1,
     hdr_mid = get16 (drop 2 B), hdr_mlen = get32 (drop 4 B)\<rparr>"

abbreviation CH_P :: u8 where "CH_P \<equiv> 0x50"
abbreviation CH_S :: u8 where "CH_S \<equiv> 0x53"

lemma length_psc_header_bytes [simp]: "length (psc_header_bytes h) = 8"
  by (simp add: psc_header_bytes_def)

lemma psc_header_of_bytes [simp]: "psc_header_of (psc_header_bytes h @ r) = h"
  by (cases h) (simp add: psc_header_of_def psc_header_bytes_def put16.simps [of "hdr_mid h"] eval_nat_numeral)

section \<open>Operations\<close>

function psc_sendall :: "'w send_fn \<Rightarrow> 'w \<Rightarrow> int \<Rightarrow> bytes \<Rightarrow> int \<Rightarrow> (errno \<times> 'w) option" where
  "psc_sendall send w sock buf flags =
     (if buf = [] then Some (0, w)
      else case send w sock buf flags of
        (SFail e, w') \<Rightarrow> Some (e, w')
      | (SRet n, w') \<Rightarrow>
          if n = 0 then Some (ENOTCONN, w')
          else if length buf < n then None
          else psc_sendall send w' sock (drop n buf) flags)"
  by pat_completeness auto
termination
  by (relation "measure (\<lambda>(send, w, sock, buf, flags). length buf)") auto

declare psc_sendall.simps [simp del]

function psc_recvall ::
  "'w recv_fn \<Rightarrow> 'w \<Rightarrow> int \<Rightarrow> bytes \<Rightarrow> nat \<Rightarrow> nat \<Rightarrow> int \<Rightarrow> (errno \<times> bytes \<times> 'w) option" where
  "psc_recvall recv w sock buf off buflen flags =
     (if buflen = 0 then Some (0, buf, w)
      else case recv w sock buflen flags of
        (RFail e, w') \<Rightarrow> Some (e, buf, w')
      | (RData d, w') \<Rightarrow>
          if d = [] then Some (ENOTCONN, buf, w')
          else if buflen < length d \<or> length buf < off + length d then None
          else psc_recvall recv w' sock (buf_write buf off d) (off + length d)
                 (buflen - length d) flags)"
  by pat_completeness auto
termination
  by (relation "measure (\<lambda>(recv, w, sock, buf, off, buflen, flags). buflen)") auto

declare psc_recvall.simps [simp del]

text \<open>
  \<open>psc_recvskip\<close> reads into a local \<open>char buf[128]\<close>. Its loop stops at the first failure of a
  128-byte read and then still asks for all of the \<open>len\<close> bytes that are left.
\<close>

function psc_recvskip_loop ::
  "'w recv_fn \<Rightarrow> 'w \<Rightarrow> int \<Rightarrow> bytes \<Rightarrow> nat \<Rightarrow> int \<Rightarrow> (errno \<times> bytes \<times> 'w) option" where
  "psc_recvskip_loop recv w sock buf len flags =
     (if 128 < len
      then (case psc_recvall recv w sock buf 0 128 flags of
              None \<Rightarrow> None
            | Some (ret, buf', w') \<Rightarrow>
                if ret = 0 then psc_recvskip_loop recv w' sock buf' (len - 128) flags
                else psc_recvall recv w' sock buf' 0 len flags)
      else psc_recvall recv w sock buf 0 len flags)"
  by pat_completeness auto
termination
  by (relation "measure (\<lambda>(recv, w, sock, buf, len, flags). len)") auto

declare psc_recvskip_loop.simps [simp del]

definition psc_recvskip :: "'w recv_fn \<Rightarrow> 'w \<Rightarrow> int \<Rightarrow> nat \<Rightarrow> int \<Rightarrow> (errno \<times> 'w) option" where
  "psc_recvskip recv w sock len flags =
     map_option (\<lambda>(ret, _, w'). (ret, w')) (psc_recvskip_loop recv w sock (replicate 128 0) len flags)"

definition psc_sendhead ::
  "'w send_fn \<Rightarrow> 'w \<Rightarrow> int \<Rightarrow> u16 \<Rightarrow> u32 \<Rightarrow> int \<Rightarrow> (errno \<times> 'w) option" where
  "psc_sendhead send w sock msgid msglen flags =
     (let buf = psc_header_bytes \<lparr>hdr_P = CH_P, hdr_S = CH_S,
                  hdr_mid = htons msgid, hdr_mlen = htonl msglen\<rparr>
      in psc_sendall send w sock buf flags)"

text \<open>The body is the first \<open>msglen\<close> bytes at \<open>buf\<close>.\<close>

definition psc_sendbody ::
  "'w send_fn \<Rightarrow> 'w \<Rightarrow> int \<Rightarrow> bytes \<Rightarrow> u32 \<Rightarrow> int \<Rightarrow> (errno \<times> 'w) option" where
  "psc_sendbody send w sock buf msglen flags =
     (if length buf < unat msglen then None
      else psc_sendall send w sock (take (unat msglen) buf) flags)"

definition psc_sendmsg ::
  "'w send_fn \<Rightarrow> 'w \<Rightarrow> int \<Rightarrow> u16 \<Rightarrow> bytes \<Rightarrow> u32 \<Rightarrow> int \<Rightarrow> (errno \<times> 'w) option" where
  "psc_sendmsg send w sock msgid buf msglen flags =
     (case psc_sendhead send w sock msgid msglen flags of
        None \<Rightarrow> None
      | Some (ret, w') \<Rightarrow>
          if ret \<noteq> 0 then Some (ret, w')
          else psc_sendbody send w' sock buf msglen flags)"

definition psc_sendmsgsingle ::
  "'w send_fn \<Rightarrow> 'w \<Rightarrow> int \<Rightarrow> u16 \<Rightarrow> u32 \<Rightarrow> bytes \<Rightarrow> u32 \<Rightarrow> int \<Rightarrow> (errno \<times> 'w) option" where
  "psc_sendmsgsingle send w sock msgid regid buf msglen flags =
     (case psc_sendhead send w sock msgid (msglen + 4) 0 of
        None \<Rightarrow> None
      | Some (ret, w1) \<Rightarrow>
          if ret \<noteq> 0 then Some (ret, w1)
          else (case psc_sendall send w1 sock (put32 (htonl regid)) 0 of
                  None \<Rightarrow> None
                | Some (ret2, w2) \<Rightarrow>
                    if ret2 \<noteq> 0 then Some (ret2, w2)
                    else psc_sendbody send w2 sock buf msglen 0))"

text \<open>\<open>psc_recvhead\<close>: the result holds the values stored through \<open>msgid\<close> and \<open>msglen\<close>, if any.\<close>

definition psc_recvhead ::
  "'w recv_fn \<Rightarrow> 'w \<Rightarrow> int \<Rightarrow> int \<Rightarrow> (errno \<times> (u16 \<times> u32) option \<times> 'w) option" where
  "psc_recvhead recv w sock flags =
     (case psc_recvall recv w sock (replicate 8 0) 0 8 flags of
        None \<Rightarrow> None
      | Some (ret, B, w') \<Rightarrow>
          if ret \<noteq> 0 then Some (ret, None, w')
          else (let M = psc_header_of B
                in if hdr_P M \<noteq> CH_P \<or> hdr_S M \<noteq> CH_S then Some (EIO, None, w')
                   else Some (0, Some (ntohs (hdr_mid M), ntohl (hdr_mlen M)), w')))"

text \<open>
  \<open>psc_recvmsg\<close>: \<open>buf\<close> and \<open>maxlen\<close> (the value of \<open>*msglen\<close> on entry) come in; the outputs
  stored through \<open>msgid\<close> and \<open>msglen\<close>, if any, and the buffer go out.
\<close>

definition psc_recvmsg ::
  "'w recv_fn \<Rightarrow> 'w \<Rightarrow> int \<Rightarrow> bytes \<Rightarrow> u32 \<Rightarrow> int \<Rightarrow>
     (errno \<times> (u16 \<times> u32) option \<times> bytes \<times> 'w) option" where
  "psc_recvmsg recv w sock buf maxlen flags =
     (case psc_recvhead recv w sock flags of
        None \<Rightarrow> None
      | Some (ret, head, w1) \<Rightarrow>
          (case head of
             None \<Rightarrow> Some (ret, None, buf, w1)
           | Some (mid, mlen) \<Rightarrow>
               (let rlen = (if maxlen < mlen then maxlen else mlen)
                in case psc_recvall recv w1 sock buf 0 (unat rlen) flags of
                     None \<Rightarrow> None
                   | Some (ret2, buf', w2) \<Rightarrow>
                       if ret2 \<noteq> 0 then Some (ret2, None, buf', w2)
                       else if rlen < mlen
                       then (case psc_recvskip recv w2 sock (unat (mlen - rlen)) flags of
                               None \<Rightarrow> None
                             | Some (ret3, w3) \<Rightarrow> Some (ret3, Some (mid, rlen), buf', w3))
                       else Some (0, Some (mid, rlen), buf', w2))))"

section \<open>Sending\<close>

text \<open>The frame a message stands for on the wire.\<close>

definition psc_frame :: "u16 \<Rightarrow> bytes \<Rightarrow> bytes" where
  "psc_frame mid body = [CH_P, CH_S] @ be16 mid @ be32 (of_nat (length body)) @ body"

lemma length_psc_frame [simp]: "length (psc_frame mid body) = 8 + length body"
  by (simp add: psc_frame_def)

text \<open>
  The outcome every sending operation shares: some prefix of the bytes it stands for has been
  accepted, all of them exactly when it returns 0, and no other socket is touched.
\<close>

definition sends ::
  "('w \<Rightarrow> int \<Rightarrow> bytes) \<Rightarrow> 'w \<Rightarrow> int \<Rightarrow> bytes \<Rightarrow> (errno \<times> 'w) option \<Rightarrow> bool" where
  "sends sent w sock bs res \<longleftrightarrow>
     (\<exists>ret w' k. res = Some (ret, w') \<and> k \<le> length bs \<and> (ret = 0 \<longleftrightarrow> k = length bs)
        \<and> sent w' = (sent w)(sock := sent w sock @ take k bs))"

lemma sendsI:
  "res = Some (ret, w') \<Longrightarrow> k \<le> length bs \<Longrightarrow> (ret = 0 \<longleftrightarrow> k = length bs) \<Longrightarrow>
   sent w' = (sent w)(sock := sent w sock @ take k bs) \<Longrightarrow> sends sent w sock bs res"
  unfolding sends_def by blast

lemma sendsE:
  assumes "sends sent w sock bs res"
  obtains ret w' k where "res = Some (ret, w')" "k \<le> length bs" "ret = 0 \<longleftrightarrow> k = length bs"
    "sent w' = (sent w)(sock := sent w sock @ take k bs)"
  using assms unfolding sends_def by blast

lemma sends_psc_sendall:
  assumes "send_contract send sent"
  shows "sends sent w sock buf (psc_sendall send w sock buf flags)"
proof (induction buf arbitrary: w rule: measure_induct_rule [of length])
  case (less buf)
  show ?case
  proof (cases "buf = []")
    case True
    then show ?thesis
      by (auto intro!: sendsI [of _ 0 w 0] simp: psc_sendall.simps)
  next
    case False
    obtain r w1 where call: "send w sock buf flags = (r, w1)" by fastforce
    note contract = assms [unfolded send_contract_def, THEN spec [of _ w], THEN spec [of _ sock],
        THEN spec [of _ buf], THEN spec [of _ flags], unfolded call]
    show ?thesis
    proof (cases r)
      case (SFail e)
      with contract call False show ?thesis
        by (auto intro!: sendsI [of _ e w1 0] simp: psc_sendall.simps)
    next
      case (SRet n)
      with contract have n: "n \<le> length buf"
        and w1: "sent w1 = (sent w)(sock := sent w sock @ take n buf)" by auto
      show ?thesis
      proof (cases "n = 0")
        case True
        with SRet call False w1 show ?thesis
          by (auto intro!: sendsI [of _ ENOTCONN w1 0] simp: psc_sendall.simps)
      next
        case n0: False
        with False have "length (drop n buf) < length buf" by simp
        from less [OF this, of w1] obtain ret w' k where
          step: "psc_sendall send w1 sock (drop n buf) flags = Some (ret, w')"
          "k \<le> length (drop n buf)" "ret = 0 \<longleftrightarrow> k = length (drop n buf)"
          "sent w' = (sent w1)(sock := sent w1 sock @ take k (drop n buf))"
          by (rule sendsE)
        show ?thesis
        proof (rule sendsI)
          show "psc_sendall send w sock buf flags = Some (ret, w')"
            using False call SRet n n0 step(1) by (simp add: psc_sendall.simps [of send w])
          show "n + k \<le> length buf" "ret = 0 \<longleftrightarrow> n + k = length buf"
            using n step(2,3) by auto
          show "sent w' = (sent w)(sock := sent w sock @ take (n + k) buf)"
            using step(4) w1 by (simp add: take_add)
        qed
      qed
    qed
  qed
qed

text \<open>Two operations in sequence, the second run only after the first returned 0.\<close>

lemma sends_seq:
  assumes first: "sends sent w sock a r1"
    and second: "\<And>w'. sends sent w' sock b (f w')"
  shows "sends sent w sock (a @ b)
    (case r1 of None \<Rightarrow> None | Some (ret, w') \<Rightarrow> if ret \<noteq> 0 then Some (ret, w') else f w')"
proof -
  obtain ret w' k where 1: "r1 = Some (ret, w')" "k \<le> length a" "ret = 0 \<longleftrightarrow> k = length a"
    "sent w' = (sent w)(sock := sent w sock @ take k a)"
    using first by (rule sendsE)
  show ?thesis
  proof (cases "ret = 0")
    case False
    with 1 show ?thesis by (auto intro!: sendsI [of _ ret w' k])
  next
    case True
    obtain ret2 w2 k2 where 2: "f w' = Some (ret2, w2)" "k2 \<le> length b"
      "ret2 = 0 \<longleftrightarrow> k2 = length b" "sent w2 = (sent w')(sock := sent w' sock @ take k2 b)"
      using second [of w'] by (rule sendsE)
    from True 1 2 show ?thesis
      by (auto intro!: sendsI [of _ ret2 w2 "length a + k2"])
  qed
qed

lemma sends_psc_sendhead:
  "send_contract send sent \<Longrightarrow>
   sends sent w sock ([CH_P, CH_S] @ be16 msgid @ be32 msglen) (psc_sendhead send w sock msgid msglen flags)"
  using sends_psc_sendall [of send sent w sock]
  by (simp add: psc_sendhead_def psc_header_bytes_def be16_def be32_def)

lemma sends_psc_sendbody:
  "send_contract send sent \<Longrightarrow> unat msglen \<le> length buf \<Longrightarrow>
   sends sent w sock (take (unat msglen) buf) (psc_sendbody send w sock buf msglen flags)"
  by (simp add: psc_sendbody_def sends_psc_sendall)

lemma sends_psc_sendmsg:
  assumes "send_contract send sent" and "unat msglen \<le> length buf"
  shows "sends sent w sock (psc_frame msgid (take (unat msglen) buf))
           (psc_sendmsg send w sock msgid buf msglen flags)"
proof -
  have "psc_frame msgid (take (unat msglen) buf) =
      ([CH_P, CH_S] @ be16 msgid @ be32 msglen) @ take (unat msglen) buf"
    using assms(2) by (simp add: psc_frame_def)
  then show ?thesis
    unfolding psc_sendmsg_def
    using sends_seq [OF sends_psc_sendhead [OF assms(1)] sends_psc_sendbody [OF assms]] by simp
qed

text \<open>A socket that accepts something of every write is sent everything.\<close>

lemma psc_sendall_accepts:
  assumes "send_contract send sent" "send_accepts send sock"
  shows "\<exists>w'. psc_sendall send w sock buf flags = Some (0, w')"
proof (induction buf arbitrary: w rule: measure_induct_rule [of length])
  case (less buf)
  show ?case
  proof (cases "buf = []")
    case False
    obtain r w1 where call: "send w sock buf flags = (r, w1)" by fastforce
    obtain n where n: "r = SRet n" "n \<noteq> 0" "n \<le> length buf"
      using assms call False unfolding send_contract_def send_accepts_def
      by (cases r) (fastforce split: prod.splits)+
    then obtain w' where "psc_sendall send w1 sock (drop n buf) flags = Some (0, w')"
      using less [of "drop n buf" w1] False by auto
    with False call n show ?thesis by (auto simp: psc_sendall.simps [of send w])
  qed (simp add: psc_sendall.simps)
qed

lemma psc_sendmsg_accepts:
  assumes "send_contract send sent" "send_accepts send sock" "unat msglen \<le> length buf"
  shows "\<exists>w'. psc_sendmsg send w sock msgid buf msglen flags = Some (0, w')"
proof -
  obtain w1 where "psc_sendhead send w sock msgid msglen flags = Some (0, w1)"
    using psc_sendall_accepts [OF assms(1,2)] unfolding psc_sendhead_def Let_def by blast
  moreover obtain w2 where "psc_sendbody send w1 sock buf msglen flags = Some (0, w2)"
    using psc_sendall_accepts [OF assms(1,2), of w1 "take (unat msglen) buf" flags] assms(3)
    by (auto simp: psc_sendbody_def)
  ultimately show ?thesis by (simp add: psc_sendmsg_def)
qed

text \<open>
  Sending a message: under the contract of \<open>send\<close>, \<open>psc_sendmsg\<close> never reads outside its
  buffer, returns 0 exactly when the whole frame (the header in network order and the first
  \<open>msglen\<close> bytes) has been accepted, on an error leaves a proper prefix of the frame, and
  touches no other socket.
\<close>

theorem psc_sendmsg_sends_frame:
  assumes "send_contract send sent" and "unat msglen \<le> length buf"
  shows "sends sent w sock (psc_frame msgid (take (unat msglen) buf))
           (psc_sendmsg send w sock msgid buf msglen flags)"
  using assms by (rule sends_psc_sendmsg)

text \<open>A socket for evaluation: at most three bytes are accepted per call.\<close>

definition demo_send :: "(int \<Rightarrow> bytes) send_fn" where
  "demo_send w sock buf flags =
     (SRet (min 3 (length buf)), w(sock := w sock @ take 3 buf))"

lemma demo_send_contract: "send_contract demo_send (\<lambda>w. w)"
  by (auto simp: send_contract_def demo_send_def min_def)

theorem psc_sendmsg_sends_frame_witness:
  "sends (\<lambda>w. w) (\<lambda>_. []) 7 (psc_frame 0x102 [1, 2, 3, 4, 5])
     (psc_sendmsg demo_send (\<lambda>_. []) 7 0x102 [1, 2, 3, 4, 5, 6] 5 0)
   \<and> psc_frame 0x102 [1, 2, 3, 4, 5] = [0x50, 0x53, 1, 2, 0, 0, 0, 5, 1, 2, 3, 4, 5]"
  using psc_sendmsg_sends_frame [OF demo_send_contract, where msglen = 5
    and buf = "[1, 2, 3, 4, 5, 6]" and w = "\<lambda>_. []" and sock = 7 and msgid = "0x102" and flags = 0]
  by (simp add: psc_frame_def be16_bytes be32_bytes)

text \<open>
  The single-register message: the bytes accepted are a prefix of the frame whose body is the
  register number in network order followed by the given bytes. The length field is the 32-bit sum
  \<open>msglen + 4\<close>, which wraps.
\<close>

theorem psc_sendmsgsingle_sends:
  assumes "send_contract send sent" and "unat msglen \<le> length buf"
  shows "sends sent w sock
           ([CH_P, CH_S] @ be16 msgid @ be32 (msglen + 4) @ be32 regid @ take (unat msglen) buf)
           (psc_sendmsgsingle send w sock msgid regid buf msglen flags)"
proof -
  have reg: "sends sent w sock (be32 regid) (psc_sendall send w sock (put32 (htonl regid)) 0)" for w
    using sends_psc_sendall [OF assms(1)] by (simp add: be32_def)
  show ?thesis
    unfolding psc_sendmsgsingle_def
    using sends_seq [OF sends_psc_sendhead [OF assms(1)]
        sends_seq [OF reg sends_psc_sendbody [OF assms]]]
    by simp
qed

theorem psc_sendmsgsingle_sends_witness:
  "sends (\<lambda>w. w) (\<lambda>_. []) 7
     ([CH_P, CH_S] @ be16 2 @ be32 6 @ be32 9 @ [0xAA, 0xBB])
     (psc_sendmsgsingle demo_send (\<lambda>_. []) 7 2 9 [0xAA, 0xBB] 2 0)"
  using psc_sendmsgsingle_sends [OF demo_send_contract, where msglen = 2
    and buf = "[0xAA, 0xBB]" and w = "\<lambda>_. []" and sock = 7 and msgid = 2 and regid = 9 and flags = 0]
  by simp

section \<open>Receiving\<close>

text \<open>
  The outcome of a read of \<open>n\<close> bytes to offset \<open>off\<close>: the bytes taken from the stream stand in
  the buffer, \<open>n\<close> of them exactly when 0 is returned; on a connection that delivers, a failure
  means that the stream ran dry.
\<close>

definition receives ::
  "'w recv_fn \<Rightarrow> ('w \<Rightarrow> int \<Rightarrow> bytes) \<Rightarrow> 'w \<Rightarrow> int \<Rightarrow> bytes \<Rightarrow> nat \<Rightarrow> nat \<Rightarrow>
     (errno \<times> bytes \<times> 'w) option \<Rightarrow> bool" where
  "receives recv pend w sock buf off n res \<longleftrightarrow>
     (\<exists>ret d w' r. res = Some (ret, buf_write buf off d, w') \<and> length d \<le> n
        \<and> (ret = 0 \<longleftrightarrow> length d = n) \<and> pend w sock = d @ r \<and> pend w' = (pend w)(sock := r)
        \<and> (recv_delivers recv pend sock \<longrightarrow> ret \<noteq> 0 \<longrightarrow> r = []))"

lemma receivesI:
  "res = Some (ret, buf_write buf off d, w') \<Longrightarrow> length d \<le> n \<Longrightarrow> (ret = 0 \<longleftrightarrow> length d = n) \<Longrightarrow>
   pend w sock = d @ r \<Longrightarrow> pend w' = (pend w)(sock := r) \<Longrightarrow>
   (recv_delivers recv pend sock \<Longrightarrow> ret \<noteq> 0 \<Longrightarrow> r = []) \<Longrightarrow>
   receives recv pend w sock buf off n res"
  unfolding receives_def by blast

lemma receivesE:
  assumes "receives recv pend w sock buf off n res"
  obtains ret d w' r where "res = Some (ret, buf_write buf off d, w')" "length d \<le> n"
    "ret = 0 \<longleftrightarrow> length d = n" "pend w sock = d @ r" "pend w' = (pend w)(sock := r)"
    "recv_delivers recv pend sock \<Longrightarrow> ret \<noteq> 0 \<Longrightarrow> r = []"
  using assms unfolding receives_def by blast

lemma recv_contractD:
  assumes "recv_contract recv pend" "recv w sock n flags = (RData d, w')"
  shows "length d \<le> n" "\<exists>r. pend w sock = d @ r \<and> pend w' = (pend w)(sock := r)"
  using assms(1) [unfolded recv_contract_def, THEN spec [of _ w], THEN spec [of _ sock],
      THEN spec [of _ n], THEN spec [of _ flags]] assms(2) by auto

lemma recv_contract_failD:
  assumes "recv_contract recv pend" "recv w sock n flags = (RFail e, w')"
  shows "e \<noteq> 0" "pend w' = pend w"
  using assms(1) [unfolded recv_contract_def, THEN spec [of _ w], THEN spec [of _ sock],
      THEN spec [of _ n], THEN spec [of _ flags]] assms(2) by auto

lemma recv_deliversD:
  assumes "recv_delivers recv pend sock" "0 < n" "pend w sock \<noteq> []"
  shows "\<exists>d w'. recv w sock n flags = (RData d, w') \<and> d \<noteq> []"
  using assms(1) [unfolded recv_delivers_def, THEN spec [of _ w], THEN spec [of _ n],
      THEN spec [of _ flags]] assms(2,3)
  by (auto split: prod.splits recv_ret.splits)

lemma receives_psc_recvall:
  assumes contract: "recv_contract recv pend" and "off + n \<le> length buf"
  shows "receives recv pend w sock buf off n (psc_recvall recv w sock buf off n flags)"
  using assms(2)
proof (induction n arbitrary: w buf off rule: less_induct)
  case (less n)
  show ?case
  proof (cases "n = 0")
    case True
    then show ?thesis
      by (auto intro!: receivesI [of _ 0 _ _ "[]" w] simp: psc_recvall.simps)
  next
    case False
    obtain res w1 where call: "recv w sock n flags = (res, w1)" by fastforce
    show ?thesis
    proof (cases res)
      case (RFail e)
      with recv_contract_failD [OF contract call [unfolded RFail]] call False show ?thesis
        by (auto intro!: receivesI [of _ e _ _ "[]" w1] simp: psc_recvall.simps
            dest: recv_deliversD [where n = n and w = w and flags = flags])
    next
      case (RData d)
      note d = recv_contractD [OF contract call [unfolded RData]]
      then obtain r where r: "pend w sock = d @ r" "pend w1 = (pend w)(sock := r)" by blast
      show ?thesis
      proof (cases "d = []")
        case True
        with call RData r False show ?thesis
          by (auto intro!: receivesI [of _ ENOTCONN _ _ "[]" w1] simp: psc_recvall.simps
              dest: recv_deliversD [where n = n and w = w and flags = flags])
      next
        case d0: False
        let ?buf = "buf_write buf off d"
        have "n - length d < n" "off + length d + (n - length d) \<le> length ?buf"
          using d(1) d0 False less.prems by auto
        from less.IH [OF this, of w1] obtain ret e w' r' where
          step: "psc_recvall recv w1 sock ?buf (off + length d) (n - length d) flags =
              Some (ret, buf_write ?buf (off + length d) e, w')"
          "length e \<le> n - length d" "ret = 0 \<longleftrightarrow> length e = n - length d"
          "pend w1 sock = e @ r'" "pend w' = (pend w1)(sock := r')"
          "recv_delivers recv pend sock \<Longrightarrow> ret \<noteq> 0 \<Longrightarrow> r' = []"
          by (rule receivesE) blast
        show ?thesis
        proof (rule receivesI [of _ ret _ _ "d @ e" w' _ _ _ _ r'])
          show "psc_recvall recv w sock buf off n flags = Some (ret, buf_write buf off (d @ e), w')"
            using False call RData d0 d(1) less.prems step(1,2)
            by (simp add: psc_recvall.simps [of recv w] buf_write_append)
        qed (use d(1) r step in auto)
      qed
    qed
  qed
qed

lemma psc_recvall_delivers:
  assumes "recv_contract recv pend" "recv_delivers recv pend sock"
    and "off + n \<le> length buf" "n \<le> length (pend w sock)"
  shows "\<exists>w'. psc_recvall recv w sock buf off n flags =
             Some (0, buf_write buf off (take n (pend w sock)), w')
           \<and> pend w' = (pend w)(sock := drop n (pend w sock))"
proof -
  obtain ret d w' r where res: "psc_recvall recv w sock buf off n flags = Some (ret, buf_write buf off d, w')"
    "length d \<le> n" "ret = 0 \<longleftrightarrow> length d = n" "pend w sock = d @ r" "pend w' = (pend w)(sock := r)"
    "ret \<noteq> 0 \<Longrightarrow> r = []"
    using receives_psc_recvall [OF assms(1,3), of w sock flags] assms(2) by (auto elim!: receivesE)
  have "ret = 0"
    using res assms(4) by (cases "ret = 0") auto
  with res show ?thesis by auto
qed

subsection \<open>Skipping\<close>

text \<open>On a connection that delivers, skipping consumes exactly \<open>len\<close> bytes.\<close>

lemma psc_recvskip_loop_delivers:
  assumes "recv_contract recv pend" "recv_delivers recv pend sock"
    and "length buf = 128" "len \<le> length (pend w sock)"
  shows "\<exists>buf' w'. psc_recvskip_loop recv w sock buf len flags = Some (0, buf', w')
           \<and> pend w' = (pend w)(sock := drop len (pend w sock))"
  using assms(3,4)
proof (induction len arbitrary: w buf rule: less_induct)
  case (less len)
  show ?case
  proof (cases "128 < len")
    case False
    with psc_recvall_delivers [OF assms(1,2), of 0 len buf w flags] less.prems show ?thesis
      by (auto simp: psc_recvskip_loop.simps [of recv w] fun_upd_def)
  next
    case True
    obtain w1 where w1: "psc_recvall recv w sock buf 0 128 flags =
        Some (0, buf_write buf 0 (take 128 (pend w sock)), w1)"
      "pend w1 = (pend w)(sock := drop 128 (pend w sock))"
      using psc_recvall_delivers [OF assms(1,2), of 0 128 buf w flags] less.prems True by auto
    have "len - 128 < len" "length (buf_write buf 0 (take 128 (pend w sock))) = 128"
      "len - 128 \<le> length (pend w1 sock)"
      using less.prems w1(2) True by auto
    from less.IH [OF this] obtain buf' w' where
      "psc_recvskip_loop recv w1 sock (buf_write buf 0 (take 128 (pend w sock)))
        (len - 128) flags = Some (0, buf', w')"
      "pend w' = (pend w1)(sock := drop (len - 128) (pend w1 sock))"
      by blast
    with True w1 show ?thesis
      by (auto simp: psc_recvskip_loop.simps [of recv w])
  qed
qed

lemma psc_recvskip_delivers:
  assumes "recv_contract recv pend" "recv_delivers recv pend sock" "len \<le> length (pend w sock)"
  shows "\<exists>w'. psc_recvskip recv w sock len flags = Some (0, w')
           \<and> pend w' = (pend w)(sock := drop len (pend w sock))"
  using psc_recvskip_loop_delivers [OF assms(1,2) _ assms(3), of "replicate 128 0" flags]
  by (auto simp: psc_recvskip_def)

text \<open>Whatever \<open>recv\<close> does within its contract, a skip of at most 128 bytes stays inside the buffer.\<close>

lemma psc_recvskip_small:
  assumes "recv_contract recv pend" "len \<le> 128"
  shows "psc_recvskip recv w sock len flags \<noteq> None"
proof -
  have "receives recv pend w sock (replicate 128 0) 0 len (psc_recvall recv w sock (replicate 128 0) 0 len flags)"
    using assms by (intro receives_psc_recvall) auto
  with assms(2) show ?thesis
    by (auto simp: psc_recvskip_def psc_recvskip_loop.simps elim!: receivesE)
qed

text \<open>A read that asks for more than the buffer holds never returns 0.\<close>

lemma psc_recvall_beyond_buffer:
  assumes "recv_contract recv pend" "length buf < off + n" "off \<le> length buf"
    and "psc_recvall recv w sock buf off n flags = Some (ret, buf', w')"
  shows "ret \<noteq> 0"
  using assms(2,3,4)
proof (induction n arbitrary: w buf off rule: less_induct)
  case (less n)
  show ?case
  proof (cases "n = 0")
    case True
    with less.prems show ?thesis by (auto simp: psc_recvall.simps)
  next
    case False
    obtain res w1 where call: "recv w sock n flags = (res, w1)" by fastforce
    show ?thesis
    proof (cases res)
      case (RFail e)
      with recv_contract_failD [OF assms(1) call [unfolded RFail]] call False less.prems
      show ?thesis by (auto simp: psc_recvall.simps [of recv w])
    next
      case (RData d)
      with less.prems call False
        less.IH [of "n - length d" "buf_write buf off d" "off + length d" w1]
      show ?thesis by (auto simp: psc_recvall.simps [of recv w] split: if_splits)
    qed
  qed
qed

lemma psc_recvskip_loop_exact:
  assumes "recv_contract recv pend" "length buf = 128"
    and "psc_recvskip_loop recv w sock buf len flags = Some (0, buf', w')"
  shows "\<exists>d r. pend w sock = d @ r \<and> length d = len \<and> pend w' = (pend w)(sock := r)"
  using assms(2,3)
proof (induction len arbitrary: w buf rule: less_induct)
  case (less len)
  show ?case
  proof (cases "128 < len")
    case False
    with less.prems have "psc_recvall recv w sock buf 0 len flags = Some (0, buf', w')"
      by (simp add: psc_recvskip_loop.simps [of recv w])
    moreover obtain ret d w1 r where "psc_recvall recv w sock buf 0 len flags = Some (ret, buf_write buf 0 d, w1)"
      "ret = 0 \<longleftrightarrow> length d = len" "pend w sock = d @ r" "pend w1 = (pend w)(sock := r)"
      by (rule receivesE [OF receives_psc_recvall [OF assms(1), of 0 len buf w sock flags]])
        (use False less.prems in auto)
    ultimately show ?thesis by auto
  next
    case True
    obtain ret d w1 r where r1: "psc_recvall recv w sock buf 0 128 flags = Some (ret, buf_write buf 0 d, w1)"
      "length d \<le> 128" "ret = 0 \<longleftrightarrow> length d = 128" "pend w sock = d @ r" "pend w1 = (pend w)(sock := r)"
      using receives_psc_recvall [OF assms(1), of 0 128 buf w sock flags] less.prems
      by (auto elim!: receivesE)
    have "ret = 0"
    proof (rule ccontr)
      assume "ret \<noteq> 0"
      with True r1 less.prems have "psc_recvall recv w1 sock (buf_write buf 0 d) 0 len flags = Some (0, buf', w')"
        by (simp add: psc_recvskip_loop.simps [of recv w])
      moreover have "length (buf_write buf 0 d) < 0 + len"
        using True r1(2) less.prems by simp
      ultimately show False
        using psc_recvall_beyond_buffer [OF assms(1)] by blast
    qed
    with True r1 less.prems have "psc_recvskip_loop recv w1 sock (buf_write buf 0 d) (len - 128) flags = Some (0, buf', w')"
      by (simp add: psc_recvskip_loop.simps [of recv w])
    moreover have "len - 128 < len" "length (buf_write buf 0 d) = 128"
      using True r1(2) less.prems by auto
    ultimately obtain d2 r2 where "pend w1 sock = d2 @ r2" "length d2 = len - 128"
      "pend w' = (pend w1)(sock := r2)"
      using less.IH by blast
    with r1 \<open>ret = 0\<close> True show ?thesis
      by (intro exI [of _ "d @ d2"] exI [of _ r2]) auto
  qed
qed

lemma psc_recvskip_exact:
  assumes "recv_contract recv pend" "psc_recvskip recv w sock len flags = Some (0, w')"
  shows "\<exists>d r. pend w sock = d @ r \<and> length d = len \<and> pend w' = (pend w)(sock := r)"
  using assms psc_recvskip_loop_exact [OF assms(1), of "replicate 128 0"]
  by (auto simp: psc_recvskip_def)

subsection \<open>Whole messages\<close>

lemma psc_header_of_parts:
  assumes "length B = 8" "hdr_P (psc_header_of B) = CH_P" "hdr_S (psc_header_of B) = CH_S"
  shows "B = [CH_P, CH_S] @ be16 (ntohs (hdr_mid (psc_header_of B))) @ be32 (ntohl (hdr_mlen (psc_header_of B)))"
proof -
  obtain a b c d e f g h where B: "B = [a, b, c, d, e, f, g, h]"
    using assms(1) by (auto simp: eval_nat_numeral length_Suc_conv)
  show ?thesis
    using assms(2,3)
    by (simp add: B psc_header_of_def be16_def be32_def put32_get32 get16.simps
        put16_get16 [unfolded get16.simps])
qed

lemma psc_recvhead_cases:
  assumes "recv_contract recv pend"
  obtains (fail) ret w' r d where "psc_recvhead recv w sock flags = Some (ret, None, w')" "ret \<noteq> 0"
      "pend w sock = d @ r" "length d \<le> 8" "pend w' = (pend w)(sock := r)"
    | (ok) mid mlen w' r where "psc_recvhead recv w sock flags = Some (0, Some (mid, mlen), w')"
      "pend w sock = [CH_P, CH_S] @ be16 mid @ be32 mlen @ r" "pend w' = (pend w)(sock := r)"
proof -
  obtain ret d w1 r where rc: "psc_recvall recv w sock (replicate 8 0) 0 8 flags =
      Some (ret, buf_write (replicate 8 0) 0 d, w1)"
    "length d \<le> 8" "ret = 0 \<longleftrightarrow> length d = 8" "pend w sock = d @ r" "pend w1 = (pend w)(sock := r)"
    using receives_psc_recvall [OF assms, of 0 8 "replicate 8 0" w sock flags]
    by (auto elim!: receivesE)
  show thesis
  proof (cases "ret = 0 \<and> hdr_P (psc_header_of d) = CH_P \<and> hdr_S (psc_header_of d) = CH_S")
    case True
    with rc have d: "buf_write (replicate 8 0) 0 d = d" "length d = 8" by (auto simp: buf_write_def)
    with psc_header_of_parts [of d] True have "d = [CH_P, CH_S] @ be16 (ntohs (hdr_mid (psc_header_of d)))
        @ be32 (ntohl (hdr_mlen (psc_header_of d)))" by simp
    with rc True d show thesis
      by (intro ok [of "ntohs (hdr_mid (psc_header_of d))" "ntohl (hdr_mlen (psc_header_of d))" w1 r])
        (auto simp: psc_recvhead_def Let_def)
  next
    case False
    show thesis
    proof (rule fail)
      show "psc_recvhead recv w sock flags = Some (if ret = 0 then EIO else ret, None, w1)"
        using rc False by (auto simp: psc_recvhead_def buf_write_def)
    qed (use rc in auto)
  qed
qed

lemma psc_header_of_wire:
  "psc_header_of ([CH_P, CH_S] @ be16 mid @ be32 mlen) =
     \<lparr>hdr_P = CH_P, hdr_S = CH_S, hdr_mid = htons mid, hdr_mlen = htonl mlen\<rparr>"
  using psc_header_of_bytes [of "\<lparr>hdr_P = CH_P, hdr_S = CH_S, hdr_mid = htons mid, hdr_mlen = htonl mlen\<rparr>" "[]"]
  by (simp add: psc_header_bytes_def be16_def be32_def)

lemma psc_recvhead_delivers:
  assumes "recv_contract recv pend" "recv_delivers recv pend sock"
    and "pend w sock = [CH_P, CH_S] @ be16 mid @ be32 mlen @ r"
  shows "\<exists>w'. psc_recvhead recv w sock flags = Some (0, Some (mid, mlen), w')
           \<and> pend w' = (pend w)(sock := r)"
proof -
  have hd: "take 8 (pend w sock) = [CH_P, CH_S] @ be16 mid @ be32 mlen" "drop 8 (pend w sock) = r"
    "8 \<le> length (pend w sock)"
    using assms(3) by simp_all
  obtain w' where w': "psc_recvall recv w sock (replicate 8 0) 0 8 flags =
      Some (0, buf_write (replicate 8 0) 0 (take 8 (pend w sock)), w')"
    "pend w' = (pend w)(sock := drop 8 (pend w sock))"
    using psc_recvall_delivers [OF assms(1,2), of 0 8 "replicate 8 0" w flags] hd(3) by auto
  have "buf_write (replicate 8 0) 0 (take 8 (pend w sock)) = [CH_P, CH_S] @ be16 mid @ be32 mlen"
    using hd by (simp add: buf_write_def)
  with w' hd show ?thesis
    by (simp add: psc_recvhead_def Let_def psc_header_of_wire del: append.simps)
qed

lemma psc_recvmsg_delivers:
  assumes "recv_contract recv pend" "recv_delivers recv pend sock"
    and "pend w sock = psc_frame mid body @ rest" "length body < 2 ^ 32"
    and "unat maxlen \<le> length buf"
  shows "\<exists>w'. psc_recvmsg recv w sock buf maxlen flags =
             Some (0, Some (mid, of_nat (min (length body) (unat maxlen))),
                   buf_write buf 0 (take (unat maxlen) body), w')
           \<and> pend w' = (pend w)(sock := rest)"
proof -
  define mlen :: u32 where "mlen = of_nat (length body)"
  have mlen: "unat mlen = length body"
    using assms(4) by (simp add: mlen_def unat_of_nat take_bit_nat_eq_self)
  define rlen where "rlen = (if maxlen < mlen then maxlen else mlen)"
  have rlen: "unat rlen = min (length body) (unat maxlen)" "rlen < mlen \<longleftrightarrow> unat maxlen < length body"
    "rlen = of_nat (min (length body) (unat maxlen))"
    using mlen by (auto simp: rlen_def word_less_nat_alt mlen_def min_def)
  obtain w1 where w1: "psc_recvhead recv w sock flags = Some (0, Some (mid, mlen), w1)"
    "pend w1 = (pend w)(sock := body @ rest)"
    using psc_recvhead_delivers [OF assms(1,2), of w mid mlen "body @ rest" flags] assms(3)
    by (auto simp: psc_frame_def mlen_def)
  obtain w2 where w2: "psc_recvall recv w1 sock buf 0 (unat rlen) flags =
      Some (0, buf_write buf 0 (take (unat maxlen) body), w2)"
    "pend w2 = (pend w)(sock := drop (unat rlen) body @ rest)"
    using psc_recvall_delivers [OF assms(1,2), of 0 "unat rlen" buf w1 flags] assms(5) w1(2) rlen(1)
    by (auto simp: min_def split: if_splits)
  show ?thesis
  proof (cases "rlen < mlen")
    case False
    with w1 w2 rlen show ?thesis
      by (simp add: psc_recvmsg_def Let_def flip: rlen_def)
  next
    case True
    then have "unat (mlen - rlen) = length body - unat rlen"
      using mlen by (simp add: unat_sub word_le_nat_alt word_less_nat_alt)
    then obtain w3 where "psc_recvskip recv w2 sock (unat (mlen - rlen)) flags = Some (0, w3)"
      "pend w3 = (pend w)(sock := rest)"
      using psc_recvskip_delivers [OF assms(1,2), of "unat (mlen - rlen)" w2 flags] w2(2) by auto
    with True w1 w2 rlen show ?thesis
      by (simp add: psc_recvmsg_def Let_def flip: rlen_def)
  qed
qed

text \<open>
  Receiving a message: on a connection that delivers, with a complete frame pending,
  \<open>psc_recvmsg\<close> returns 0 and the message number; the buffer starts with the body, cut to the
  buffer's size, and is unchanged behind it; \<open>*msglen\<close> is the number of bytes stored; exactly the
  frame is consumed, so the next frame can be read, also when the body was cut.
\<close>

theorem psc_recvmsg_receives_frame:
  assumes "recv_contract recv pend" "recv_delivers recv pend sock"
    and "pend w sock = psc_frame mid body @ rest" "length body < 2 ^ 32"
    and "unat maxlen \<le> length buf"
  shows "\<exists>w'. psc_recvmsg recv w sock buf maxlen flags =
             Some (0, Some (mid, of_nat (min (length body) (unat maxlen))),
                   buf_write buf 0 (take (unat maxlen) body), w')
           \<and> pend w' = (pend w)(sock := rest)"
  using assms by (rule psc_recvmsg_delivers)

text \<open>A connection for evaluation: what is pending arrives in pieces of at most three bytes.\<close>

definition demo_recv :: "(int \<Rightarrow> bytes) recv_fn" where
  "demo_recv w sock n flags =
     (RData (take (min n 3) (w sock)), w(sock := drop (min n 3) (w sock)))"

lemma demo_recv_contract: "recv_contract demo_recv (\<lambda>w. w)"
  by (auto simp: recv_contract_def demo_recv_def intro!: exI [of _ "drop _ _"])

lemma demo_recv_delivers: "recv_delivers demo_recv (\<lambda>w. w) sock"
  by (auto simp: recv_delivers_def demo_recv_def)

theorem psc_recvmsg_receives_frame_witness:
  "\<exists>w'. psc_recvmsg demo_recv (\<lambda>_. psc_frame 7 [1, 2, 3, 4, 5] @ [9, 9]) 0 [8, 8, 8, 8] 4 0 =
         Some (0, Some (7, 4), [1, 2, 3, 4], w')
       \<and> w' = (\<lambda>_. psc_frame 7 [1, 2, 3, 4, 5] @ [9, 9])(0 := [9, 9])"
  using psc_recvmsg_receives_frame [OF demo_recv_contract demo_recv_delivers,
      where w = "\<lambda>_. psc_frame 7 [1, 2, 3, 4, 5] @ [9, 9]" and mid = 7 and body = "[1, 2, 3, 4, 5]"
        and rest = "[9, 9]" and maxlen = 4 and buf = "[8, 8, 8, 8]" and flags = 0 and sock = 0]
  by (simp add: buf_write_def)

text \<open>
  C20. Memory safety of \<open>psc_recvmsg\<close> under nothing but the contract of \<open>recv\<close>: it can only
  leave its buffers when the peer announces a body more than 128 bytes longer than the
  caller's buffer.
\<close>

theorem psc_recvmsg_safe:
  assumes "recv_contract recv pend" "unat maxlen \<le> length buf"
    and "psc_recvmsg recv w sock buf maxlen flags = None"
  shows "\<exists>mid mlen r. pend w sock = [CH_P, CH_S] @ be16 mid @ be32 mlen @ r
           \<and> unat maxlen + 128 < unat mlen"
proof (cases rule: psc_recvhead_cases [OF assms(1), of w sock flags, case_names fail ok])
  case fail
  with assms(3) show ?thesis by (simp add: psc_recvmsg_def)
next
  case (ok mid mlen w1 r)
  define rlen where "rlen = (if maxlen < mlen then maxlen else mlen)"
  have rlen: "unat rlen \<le> unat maxlen" "rlen < mlen \<Longrightarrow> rlen = maxlen"
    by (auto simp: rlen_def word_le_nat_alt word_less_nat_alt)
  obtain ret d w2 where rc: "psc_recvall recv w1 sock buf 0 (unat rlen) flags = Some (ret, buf_write buf 0 d, w2)"
    by (rule receivesE [OF receives_psc_recvall [OF assms(1), of 0 "unat rlen" buf w1 sock flags]])
      (use assms(2) rlen(1) in auto)
  have skip: "rlen < mlen" "psc_recvskip recv w2 sock (unat (mlen - rlen)) flags = None"
    using assms(3) ok(1) rc
    by (auto simp: psc_recvmsg_def Let_def simp flip: rlen_def split: if_splits option.splits)
  then have "128 < unat (mlen - rlen)"
    using psc_recvskip_small [OF assms(1), of "unat (mlen - rlen)" w2 sock flags] by force
  then have "unat maxlen + 128 < unat mlen"
    using skip(1) rlen(2) [OF skip(1)] by (simp add: unat_sub word_le_nat_alt word_less_nat_alt)
  with ok(2) show ?thesis by blast
qed

text \<open>
  A connection whose reads can time out (\<open>listener.c\<close> sets \<open>SO_RCVTIMEO\<close>): per socket, a
  script of chunks that arrive and of reads that fail with \<open>EAGAIN\<close> (11) in between.
\<close>

datatype script = Chunk bytes | Timeout

fun script_data :: "script \<Rightarrow> bytes" where
  "script_data (Chunk d) = d"
| "script_data Timeout = []"

definition script_pend :: "(int \<Rightarrow> script list) \<Rightarrow> int \<Rightarrow> bytes" where
  "script_pend w sock = concat (map script_data (w sock))"

fun script_recv :: "(int \<Rightarrow> script list) recv_fn" where
  "script_recv w sock n flags =
     (case w sock of
        [] \<Rightarrow> (RData [], w)
      | Timeout # r \<Rightarrow> (RFail 11, w(sock := r))
      | Chunk d # r \<Rightarrow> (RData (take n d), w(sock := (if length d \<le> n then r else Chunk (drop n d) # r))))"

lemma script_recv_contract: "recv_contract script_recv script_pend"
  unfolding recv_contract_def
proof (intro allI)
  fix w :: "int \<Rightarrow> script list" and sock n flags
  show "case script_recv w sock n flags of
      (RFail e, w') \<Rightarrow> e \<noteq> 0 \<and> script_pend w' = script_pend w
    | (RData d, w') \<Rightarrow> length d \<le> n \<and>
        (\<exists>r. script_pend w sock = d @ r \<and> script_pend w' = (script_pend w)(sock := r))"
  proof (cases "w sock")
    case Nil
    then show ?thesis by (auto simp: script_pend_def fun_eq_iff)
  next
    case (Cons a r)
    then show ?thesis
      by (cases a) (auto simp: script_pend_def fun_eq_iff intro!: exI [of _ "drop n _ @ _"])
  qed
qed

text \<open>
  C38. A flaw of \<open>psc_recvskip\<close>: when a read times out while more than 128 bytes are still to be
  skipped, the function asks for all of them at once into its 128-byte stack buffer, and a peer
  that then goes on sending overruns it. The connection here obeys the contract of \<open>recv\<close>.
\<close>

theorem psc_recvskip_overruns_after_timeout:
  assumes "128 < len" and "128 < length d" and "w sock = [Timeout, Chunk d]"
  shows "recv_contract script_recv script_pend \<and> psc_recvskip script_recv w sock len flags = None"
proof -
  have "psc_recvall script_recv w sock (replicate 128 0) 0 128 flags =
      Some (11, replicate 128 0, w(sock := [Chunk d]))"
    using assms(3) by (simp add: psc_recvall.simps)
  moreover have "psc_recvall script_recv (w(sock := [Chunk d])) sock (replicate 128 0) 0 len flags = None"
    using assms(1,2) by (auto simp: psc_recvall.simps)
  ultimately have "psc_recvskip_loop script_recv w sock (replicate 128 0) len flags = None"
    using assms(1) by (simp add: psc_recvskip_loop.simps)
  with script_recv_contract show ?thesis by (simp add: psc_recvskip_def)
qed

theorem psc_recvskip_overruns_after_timeout_witness:
  "psc_recvskip script_recv (\<lambda>_. [Timeout, Chunk (replicate 200 0x41)]) 3 200 0 = None"
  using psc_recvskip_overruns_after_timeout [of 200 "replicate 200 0x41"
      "\<lambda>_. [Timeout, Chunk (replicate 200 0x41)]" 3 0] by simp

text \<open>The same at the level of a message: its boundary in \<open>psc_recvmsg_safe\<close> is reached.\<close>

theorem psc_recvmsg_safe_witness:
  "\<exists>mid mlen r. [0x50, 0x53, 0, 1, 0, 0, 1, 0x2C] @ replicate 200 0x41 =
       [CH_P, CH_S] @ be16 mid @ be32 mlen @ r \<and> unat (0::u32) + 128 < unat mlen"
proof -
  let ?w = "\<lambda>_::int. [Chunk [0x50, 0x53, 0, 1, 0, 0, 1, 0x2C], Timeout, Chunk (replicate 200 0x41)]"
  have "Option.is_none (psc_recvmsg script_recv ?w 3 [] 0 0)"
    by code_simp
  then have "psc_recvmsg script_recv ?w 3 [] 0 0 = None"
    by (simp add: Option.is_none_def)
  from psc_recvmsg_safe [OF script_recv_contract _ this] show ?thesis
    by (simp add: script_pend_def)
qed

text \<open>
  C4. Round trip: what a \<open>psc_sendmsg\<close> that returned 0 has put on the wire, \<open>psc_recvmsg\<close> at the
  other end returns, number, length and body, and leaves the bytes that follow.
\<close>

theorem psc_sendmsg_recvmsg_roundtrip:
  assumes "send_contract send sent" "unat msglen \<le> length buf"
    and "psc_sendmsg send w sock mid buf msglen flags = Some (0, w')"
    and "recv_contract recv pend" "recv_delivers recv pend sock2"
    and "pend v sock2 = drop (length (sent w sock)) (sent w' sock) @ rest"
    and "msglen \<le> maxlen" "unat maxlen \<le> length rbuf"
  shows "\<exists>v'. psc_recvmsg recv v sock2 rbuf maxlen flags2 =
             Some (0, Some (mid, msglen), buf_write rbuf 0 (take (unat msglen) buf), v')
           \<and> pend v' = (pend v)(sock2 := rest)"
proof -
  obtain k where "k = length (psc_frame mid (take (unat msglen) buf))"
    "sent w' = (sent w)(sock := sent w sock @ take k (psc_frame mid (take (unat msglen) buf)))"
    using sends_psc_sendmsg [OF assms(1,2), of w sock mid flags] assms(3)
    by (auto elim!: sendsE)
  then have "pend v sock2 = psc_frame mid (take (unat msglen) buf) @ rest"
    using assms(6) by simp
  moreover have "length (take (unat msglen) buf) < 2 ^ 32"
    using unat_u32_bound [of msglen] by simp
  ultimately have "\<exists>v'. psc_recvmsg recv v sock2 rbuf maxlen flags2 =
        Some (0, Some (mid, of_nat (min (length (take (unat msglen) buf)) (unat maxlen))),
              buf_write rbuf 0 (take (unat maxlen) (take (unat msglen) buf)), v')
      \<and> pend v' = (pend v)(sock2 := rest)"
    using psc_recvmsg_delivers [OF assms(4,5)] assms(8) by blast
  moreover have "min (length (take (unat msglen) buf)) (unat maxlen) = unat msglen"
    "take (unat maxlen) (take (unat msglen) buf) = take (unat msglen) buf"
    using assms(2,7) by (auto simp: word_le_nat_alt min_def)
  ultimately show ?thesis by simp
qed

theorem psc_sendmsg_recvmsg_roundtrip_witness:
  "\<exists>v'. psc_recvmsg demo_recv (\<lambda>_. psc_frame 9 [4, 5, 6]) 1 [0, 0, 0, 0, 0] 5 0 =
         Some (0, Some (9, 3), [4, 5, 6, 0, 0], v') \<and> v' = (\<lambda>_. psc_frame 9 [4, 5, 6])(1 := [])"
proof -
  have frame: "psc_frame 9 [4, 5, 6] = [0x50, 0x53, 0, 9, 0, 0, 0, 3, 4, 5, 6]"
    by (simp add: psc_frame_def be16_bytes be32_bytes)
  have hdr: "psc_header_bytes \<lparr>hdr_P = CH_P, hdr_S = CH_S, hdr_mid = htons 9, hdr_mlen = htonl 3\<rparr> =
      [0x50, 0x53, 0, 9, 0, 0, 0, 3]"
    by (simp add: psc_header_bytes_def be16_bytes be32_bytes flip: be16_def be32_def)
  have sent: "psc_sendmsg demo_send (\<lambda>_. []) 2 9 [4, 5, 6] 3 0 =
      Some (0, (\<lambda>_. [])(2 := psc_frame 9 [4, 5, 6]))"
    by (simp add: psc_sendmsg_def psc_sendhead_def Let_def hdr psc_sendbody_def psc_sendall.simps
        demo_send_def frame)
  from psc_sendmsg_recvmsg_roundtrip [OF demo_send_contract _ sent demo_recv_contract demo_recv_delivers,
      where v = "\<lambda>_. psc_frame 9 [4, 5, 6]" and ?sock2.0 = 1 and rest = "[]" and maxlen = 5
        and rbuf = "[0, 0, 0, 0, 0]" and ?flags2.0 = 0]
  show ?thesis
    by (simp add: buf_write_def frame)
qed

end
