(* ===== verification/Listener.thy ===== *)
theory Listener
  imports Pscmsg
begin

text \<open>
  The PSC server, \<open>src/sw/src/listener.c\<close> with \<open>pscserver.h\<close> and \<open>pscopts.h\<close>: the table of
  client slots, accepting clients, the receive thread of a client, and broadcasting.

  \<open>psc_key\<close> and \<open>psc_client\<close> are the structs; a client is addressed by its position in
  \<open>clients\<close>, and \<open>clients_used\<close> is the bit mask of used positions. The configuration's callbacks
  are arguments. \<open>alloc\<close>, \<open>free\<close>, \<open>psc_send\<close> and \<open>psc_send_one\<close> run under the \<open>sendguard\<close> mutex,
  so each is one step; what happens between two of them (an allocated slot whose socket is not
  yet stored, a freed slot whose socket is not yet closed) is a state between two functions here.
  The lwIP calls \<open>send\<close>, \<open>recv\<close>, \<open>close\<close> are parameters; console output is not modelled.
\<close>

section \<open>State\<close>

abbreviation PSC_MAX_CLIENTS :: nat where "PSC_MAX_CLIENTS \<equiv> 4"
abbreviation (input) PSC_MAX_RX_MSG_LEN :: nat where "PSC_MAX_RX_MSG_LEN \<equiv> 200000"

text \<open>The size of \<open>rxbuf\<close>, \<open>8 + PSC_MAX_RX_MSG_LEN\<close>.\<close>

definition RXBUF_SIZE :: nat where "RXBUF_SIZE = 8 + PSC_MAX_RX_MSG_LEN"

type_synonym sockaddr = "u32 \<times> u16"

record psc_client =
  index :: u32
  sock :: int
  peeraddr :: sockaddr
  has_PSC :: bool
  rxbuf :: bytes

record psc_key =
  listen_sock :: int
  clients_used :: u32
  clients :: "psc_client list"

datatype psc_event = PSC_CONN | PSC_DIS

definition zero_client :: psc_client where
  "zero_client = \<lparr>index = 0, sock = 0, peeraddr = (0, 0), has_PSC = False,
                  rxbuf = replicate RXBUF_SIZE 0\<rparr>"

section \<open>Client slots\<close>

text \<open>The loop of \<open>psc_client_alloc\<close> from position \<open>i\<close> on.\<close>

function psc_client_alloc_from :: "nat \<Rightarrow> psc_key \<Rightarrow> nat option \<times> psc_key" where
  "psc_client_alloc_from i key =
     (if i < PSC_MAX_CLIENTS
      then if clients_used key AND push_bit i 1 \<noteq> 0
           then psc_client_alloc_from (Suc i) key
           else (Some i,
                 key\<lparr>clients_used := clients_used key OR push_bit i 1,
                     clients := (clients key)[i := zero_client\<lparr>index := of_nat i, has_PSC := True\<rparr>]\<rparr>)
      else (None, key))"
  by pat_completeness auto
termination
  by (relation "measure (\<lambda>(i, key). PSC_MAX_CLIENTS - i)") auto

declare psc_client_alloc_from.simps [simp del]

definition psc_client_alloc :: "psc_key \<Rightarrow> nat option \<times> psc_key" where
  "psc_client_alloc key = psc_client_alloc_from 0 key"

text \<open>
  \<open>psc_client_free\<close> runs at the end of a receive thread, on a slot that \<open>psc_client_alloc\<close> has handed out and nobody else
  frees; its \<open>cli->PSC\<close> is set then (\<open>key_wf\<close> holds in every reachable state), and NULL is not modelled.
\<close>

definition psc_client_free :: "nat \<Rightarrow> psc_key \<Rightarrow> psc_key" where
  "psc_client_free c key =
     key\<lparr>clients_used := clients_used key AND NOT (push_bit (unat (index (clients key ! c))) 1),
         clients := (clients key)[c := zero_client]\<rparr>"

section \<open>Accepting\<close>

text \<open>
  The part of \<open>psc_run\<close> before its loop, for the results of the calls it makes: whether \<open>*key\<close> is
  already set, whether \<open>mem_calloc\<close> and \<open>sys_mutex_new\<close> succeed, the socket, \<open>bind\<close> and
  \<open>listen\<close>. The calloc'd server has no clients.
\<close>

datatype psc_run_ret =
    KeyAlreadySet | NoMemory | NoMutex | NoSocket | BindFailed | ListenFailed | Serving psc_key

definition psc_run_setup :: "bool \<Rightarrow> bool \<Rightarrow> bool \<Rightarrow> int \<Rightarrow> int \<Rightarrow> int \<Rightarrow> psc_run_ret" where
  "psc_run_setup key_set calloc_ok mutex_ok lsock bind_ret listen_ret =
     (if key_set then KeyAlreadySet
      else if \<not> calloc_ok then NoMemory
      else if \<not> mutex_ok then NoMutex
      else if lsock = -1 then NoSocket
      else if bind_ret = -1 then BindFailed
      else if listen_ret = -1 then ListenFailed
      else Serving \<lparr>listen_sock = lsock, clients_used = 0,
                    clients = replicate PSC_MAX_CLIENTS zero_client\<rparr>)"

text \<open>
  One round of the accept loop for the socket and address \<open>accept\<close> returned: an error, a client
  that is dropped and closed, or a client in slot \<open>c\<close> whose thread is started. \<open>C->sock\<close> and
  \<open>C->peeraddr\<close> are stored after \<open>psc_client_alloc\<close> has released the mutex.
\<close>

datatype sock_opt = TCP_NODELAY nat | SO_SNDTIMEO nat | SO_RCVTIMEO nat

text \<open>
  The options set on the result of \<open>accept\<close> in every round, times in milliseconds: \<open>timeo\<close> says whether
  lwIP was built with the two time-outs, \<open>nonstandard\<close> whether it takes them as a number of
  milliseconds. That an option cannot be set is only reported.
\<close>

definition accept_opts :: "bool \<Rightarrow> bool \<Rightarrow> sock_opt list" where
  "accept_opts timeo nonstandard =
     TCP_NODELAY 1 #
     (if timeo then [SO_SNDTIMEO (if nonstandard then 1000 else 5000), SO_RCVTIMEO 5000] else [])"

datatype accept_ret = AcceptError | Dropped int | Started nat

definition psc_client_assign :: "nat \<Rightarrow> int \<Rightarrow> sockaddr \<Rightarrow> psc_key \<Rightarrow> psc_key" where
  "psc_client_assign c client caddr key =
     key\<lparr>clients := (clients key)[c := (clients key ! c)\<lparr>sock := client, peeraddr := caddr\<rparr>]\<rparr>"

definition psc_accept_round :: "int \<Rightarrow> sockaddr \<Rightarrow> psc_key \<Rightarrow> accept_ret \<times> psc_key" where
  "psc_accept_round client caddr key =
     (if client = -1 then (AcceptError, key)
      else case psc_client_alloc key of
             (None, key') \<Rightarrow> (Dropped client, key')
           | (Some c, key') \<Rightarrow> (Started c, psc_client_assign c client caddr key'))"

section \<open>Sending\<close>

text \<open>
  One client of the loop of \<open>psc_send\<close>, and \<open>psc_send_one\<close>, which locks the mutex through \<open>C->PSC\<close> and is
  undefined when that is NULL.
\<close>

definition psc_send_client ::
  "'w send_fn \<Rightarrow> ('w \<Rightarrow> int \<Rightarrow> 'w) \<Rightarrow> u16 \<Rightarrow> u32 \<Rightarrow> bytes \<Rightarrow> nat \<Rightarrow> psc_key \<times> 'w \<Rightarrow> (psc_key \<times> 'w) option" where
  "psc_send_client send close msgid msglen msg c kw =
     (let (key, w) = kw; C = clients key ! c in
      if sock C = -1 then Some (key, w)
      else case psc_sendmsg send w (sock C) msgid msg msglen 0 of
             None \<Rightarrow> None
           | Some (ret, w') \<Rightarrow>
               if ret \<noteq> 0
               then Some (key\<lparr>clients := (clients key)[c := C\<lparr>sock := -1\<rparr>]\<rparr>, close w' (sock C))
               else Some (key, w'))"

definition psc_send_one ::
  "'w send_fn \<Rightarrow> ('w \<Rightarrow> int \<Rightarrow> 'w) \<Rightarrow> nat \<Rightarrow> u16 \<Rightarrow> u32 \<Rightarrow> bytes \<Rightarrow> psc_key \<times> 'w \<Rightarrow> (psc_key \<times> 'w) option" where
  "psc_send_one send close c msgid msglen msg kw =
     (if \<not> has_PSC (clients (fst kw) ! c) then None else psc_send_client send close msgid msglen msg c kw)"

lemma psc_send_oneD:
  "psc_send_one send close c msgid msglen msg kw = Some kw' \<Longrightarrow> psc_send_client send close msgid msglen msg c kw = Some kw'"
  by (simp add: psc_send_one_def split: if_splits)

fun psc_send_loop ::
  "'w send_fn \<Rightarrow> ('w \<Rightarrow> int \<Rightarrow> 'w) \<Rightarrow> u16 \<Rightarrow> u32 \<Rightarrow> bytes \<Rightarrow> nat list \<Rightarrow> psc_key \<times> 'w \<Rightarrow> (psc_key \<times> 'w) option" where
  "psc_send_loop send close msgid msglen msg [] kw = Some kw"
| "psc_send_loop send close msgid msglen msg (idx # idxs) kw =
     (if clients_used (fst kw) AND push_bit idx 1 = 0
      then psc_send_loop send close msgid msglen msg idxs kw
      else case psc_send_client send close msgid msglen msg idx kw of
             None \<Rightarrow> None
           | Some kw' \<Rightarrow> psc_send_loop send close msgid msglen msg idxs kw')"

text \<open>\<open>psc_send\<close>: the argument is the server pointer, which may still be NULL.\<close>

definition psc_send ::
  "'w send_fn \<Rightarrow> ('w \<Rightarrow> int \<Rightarrow> 'w) \<Rightarrow> psc_key option \<times> 'w \<Rightarrow> u16 \<Rightarrow> u32 \<Rightarrow> bytes \<Rightarrow> (psc_key option \<times> 'w) option" where
  "psc_send send close PSCw msgid msglen msg =
     (case fst PSCw of
        None \<Rightarrow> Some PSCw
      | Some key \<Rightarrow>
          map_option (map_prod Some id)
            (psc_send_loop send close msgid msglen msg [0..<PSC_MAX_CLIENTS] (key, snd PSCw)))"

text \<open>
  \<open>psc_verror\<close> (\<open>pscmsg.c\<close>): the formatted text, cut to the 32 bytes of \<open>msg\<close> and terminated; the
  bytes behind the terminator keep what was on the stack, and all 32 are sent.
\<close>

definition psc_verror_msg :: "bytes \<Rightarrow> bytes \<Rightarrow> bytes" where
  "psc_verror_msg stack text =
     (let msg = buf_write stack 0 (take 31 text @ [0]) in msg[31 := 0])"

definition psc_verror ::
  "'w send_fn \<Rightarrow> ('w \<Rightarrow> int \<Rightarrow> 'w) \<Rightarrow> psc_key option \<times> 'w \<Rightarrow> u16 \<Rightarrow> bytes \<Rightarrow> bytes \<Rightarrow> (psc_key option \<times> 'w) option" where
  "psc_verror send close PSCw code stack text =
     psc_send send close PSCw code 32 (psc_verror_msg stack text)"

section \<open>The receive thread\<close>

text \<open>
  The loop of \<open>handle_client\<close>: receive a message into \<open>rxbuf\<close> and hand it to the \<open>recv\<close> callback,
  until a read error. The callback acts on an application state and may be undefined on a
  message (\<open>None\<close>). \<open>fuel\<close> bounds the rounds of the loop, which runs for as long as the client
  stays connected.
\<close>

datatype 'a outcome = Done 'a | Undefined | OutOfFuel

fun handle_client_loop ::
  "nat \<Rightarrow> 'w recv_fn \<Rightarrow> (u16 \<Rightarrow> u32 \<Rightarrow> bytes \<Rightarrow> 'a \<Rightarrow> 'a option) \<Rightarrow> int \<Rightarrow> bytes \<Rightarrow> 'a \<Rightarrow> 'w \<Rightarrow>
     (bytes \<times> 'a \<times> 'w) outcome" where
  "handle_client_loop 0 recv cb s buf app w = OutOfFuel"
| "handle_client_loop (Suc fuel) recv cb s buf app w =
     (case psc_recvmsg recv w s buf (of_nat RXBUF_SIZE) 0 of
        None \<Rightarrow> Undefined
      | Some (ret, out, buf', w') \<Rightarrow>
          if ret \<noteq> 0 then Done (buf', app, w')
          else (case out of
                  None \<Rightarrow> Undefined
                | Some (msgid, msglen) \<Rightarrow>
                    (case cb msgid msglen buf' app of
                       None \<Rightarrow> Undefined
                     | Some app' \<Rightarrow> handle_client_loop fuel recv cb s buf' app' w')))"

text \<open>
  The end of \<open>handle_client\<close>: the slot is freed first, then the socket the thread has read from is
  closed. \<open>s\<close> is the thread's copy of \<open>C->sock\<close>, taken when it started.
\<close>

definition handle_client_exit :: "('w \<Rightarrow> int \<Rightarrow> 'w) \<Rightarrow> nat \<Rightarrow> int \<Rightarrow> psc_key \<times> 'w \<Rightarrow> psc_key \<times> 'w" where
  "handle_client_exit close c s kw = (psc_client_free c (fst kw), close (snd kw) s)"

text \<open>
  The whole thread of the client in slot \<open>c\<close>, when no other thread changes the server meanwhile
  (the interleavings are those of \<open>server_step\<close> below): the connection callback, the receive loop
  into the slot's \<open>rxbuf\<close>, the callback again, and the end. The callbacks act on the application state; what the
  connection callback of this program sends to the client is \<open>client_event\<close> in \<open>App\<close>.
\<close>

definition handle_client ::
  "nat \<Rightarrow> 'w recv_fn \<Rightarrow> ('w \<Rightarrow> int \<Rightarrow> 'w) \<Rightarrow> (psc_event \<Rightarrow> 'a \<Rightarrow> 'a) \<Rightarrow> (u16 \<Rightarrow> u32 \<Rightarrow> bytes \<Rightarrow> 'a \<Rightarrow> 'a option) \<Rightarrow>
     nat \<Rightarrow> psc_key \<times> 'a \<times> 'w \<Rightarrow> (psc_key \<times> 'a \<times> 'w) outcome" where
  "handle_client fuel recv close conn cb c st =
     (let (key, app, w) = st; C = clients key ! c in
      case handle_client_loop fuel recv cb (sock C) (rxbuf C) (conn PSC_CONN app) w of
        OutOfFuel \<Rightarrow> OutOfFuel
      | Undefined \<Rightarrow> Undefined
      | Done (buf, app', w') \<Rightarrow>
          let key' = key\<lparr>clients := (clients key)[c := C\<lparr>rxbuf := buf\<rparr>]\<rparr>;
              (key'', w'') = handle_client_exit close c (sock C) (key', w')
          in Done (key'', conn PSC_DIS app', w''))"

section \<open>The slot table\<close>

text \<open>
  The contract of a table of at most \<open>cap\<close> slots: allocation gives the lowest unused slot and
  fails only on a full table, release gives the slot back.
\<close>

locale slot_table =
  fixes alloc :: "'s \<Rightarrow> nat option \<times> 's"
    and release :: "nat \<Rightarrow> 's \<Rightarrow> 's"
    and slots :: "'s \<Rightarrow> nat set"
    and inv :: "'s \<Rightarrow> bool"
    and cap :: nat
  assumes slots_bound: "inv s \<Longrightarrow> slots s \<subseteq> {..<cap}"
    and alloc_Some: "inv s \<Longrightarrow> alloc s = (Some i, s') \<Longrightarrow>
          i \<notin> slots s \<and> {..<i} \<subseteq> slots s \<and> slots s' = insert i (slots s) \<and> inv s'"
    and alloc_None: "inv s \<Longrightarrow> alloc s = (None, s') \<Longrightarrow> s' = s \<and> {..<cap} \<subseteq> slots s"
    and release: "inv s \<Longrightarrow> i \<in> slots s \<Longrightarrow> slots (release i s) = slots s - {i} \<and> inv (release i s)"
begin

lemma finite_slots: "inv s \<Longrightarrow> finite (slots s)"
  using slots_bound finite_subset by blast

lemma card_slots: "inv s \<Longrightarrow> card (slots s) \<le> cap"
  using slots_bound card_mono [of "{..<cap}" "slots s"] by simp

lemma alloc_None_iff: "inv s \<Longrightarrow> fst (alloc s) = None \<longleftrightarrow> card (slots s) = cap"
proof
  assume inv: "inv s" and none: "fst (alloc s) = None"
  have "{..<cap} \<subseteq> slots s"
    using alloc_None [OF inv, of "snd (alloc s)"] none by (metis prod.collapse)
  with slots_bound [OF inv] have "slots s = {..<cap}" by blast
  then show "card (slots s) = cap" by simp
next
  assume inv: "inv s" and full: "card (slots s) = cap"
  then have "slots s = {..<cap}"
    using slots_bound [OF inv] by (simp add: card_subset_eq)
  moreover have False if "alloc s = (Some i, s')" for i s'
    using alloc_Some [OF inv that] slots_bound [of s'] \<open>slots s = {..<cap}\<close> by auto
  ultimately show "fst (alloc s) = None" by (metis not_Some_eq prod.collapse)
qed

lemma alloc_after_release:
  assumes "inv s" "i \<in> slots s"
  shows "\<exists>j s'. alloc (release i s) = (Some j, s') \<and> j \<le> i"
proof -
  note rel = release [OF assms]
  have "card (slots s - {i}) < cap"
    using card_Diff1_less [OF finite_slots assms(2)] card_slots assms(1) by (meson less_le_trans)
  then have "fst (alloc (release i s)) \<noteq> None"
    using rel alloc_None_iff [of "release i s"] by simp
  then obtain j s' where a: "alloc (release i s) = (Some j, s')"
    by (metis not_None_eq prod.collapse)
  have "{..<j} \<subseteq> slots s - {i}"
    using alloc_Some [OF conjunct2 [OF rel] a] rel by simp
  then have "i \<notin> {..<j}" by blast
  with a show ?thesis by auto
qed

end

text \<open>The slots in use, and the well-formed states of a server.\<close>

definition used_slots :: "psc_key \<Rightarrow> nat set" where
  "used_slots key = {i. i < PSC_MAX_CLIENTS \<and> bit (clients_used key) i}"

definition key_wf :: "psc_key \<Rightarrow> bool" where
  "key_wf key \<longleftrightarrow>
     length (clients key) = PSC_MAX_CLIENTS
     \<and> (\<forall>i < 32. bit (clients_used key) i \<longrightarrow>
          i < PSC_MAX_CLIENTS \<and> index (clients key ! i) = of_nat i \<and> has_PSC (clients key ! i))
     \<and> list_all (\<lambda>C. length (rxbuf C) = RXBUF_SIZE) (clients key)"

lemma slot_bit [simp]: "x AND 2 ^ i = 0 \<longleftrightarrow> \<not> bit x i" for x :: u32
  by (simp add: and_exp_eq_0_iff_not_bit)

lemma bit_set_slot: "bit (x OR 2 ^ j) i \<longleftrightarrow> bit x i \<or> i = j \<and> i < 32" for x :: u32
  by (auto simp: bit_simps)

lemma bit_clear_slot: "bit (x AND NOT (2 ^ j)) i \<longleftrightarrow> bit x i \<and> i \<noteq> j" for x :: u32
  using bit_imp_le_length [of x i] by (auto simp: bit_simps)

lemma key_wfD:
  assumes "key_wf key"
  shows "length (clients key) = 4" "bit (clients_used key) i \<Longrightarrow> i < 4"
    "bit (clients_used key) i \<Longrightarrow> index (clients key ! i) = of_nat i"
    "bit (clients_used key) i \<Longrightarrow> has_PSC (clients key ! i)"
    "list_all (\<lambda>C. length (rxbuf C) = RXBUF_SIZE) (clients key)"
  using assms bit_imp_le_length [of "clients_used key" i] by (auto simp: key_wf_def)

lemma used_slots_iff: "key_wf key \<Longrightarrow> i \<in> used_slots key \<longleftrightarrow> bit (clients_used key) i"
  using key_wfD(2) by (auto simp: used_slots_def)

lemma list_all_update:
  "list_all P xs \<Longrightarrow> P x \<Longrightarrow> list_all P (xs[i := x])"
  by (auto simp: list_all_iff dest!: set_update_subset_insert [THEN subsetD])

lemma length_rxbuf_zero [simp]: "length (rxbuf zero_client) = RXBUF_SIZE"
  by (simp add: zero_client_def)

text \<open>The slot a successful allocation hands out.\<close>

definition fresh_client :: "nat \<Rightarrow> psc_client" where
  "fresh_client i = zero_client\<lparr>index := of_nat i, has_PSC := True\<rparr>"

lemma fresh_client_simps [simp]:
  "index (fresh_client i) = of_nat i" "sock (fresh_client i) = 0" "has_PSC (fresh_client i)"
  "length (rxbuf (fresh_client i)) = RXBUF_SIZE"
  by (simp_all add: fresh_client_def) (simp add: zero_client_def)

lemma psc_client_alloc_from_cases:
  obtains (found) j where "i \<le> j" "j < 4" "\<not> bit (clients_used key) j"
      "\<forall>k. i \<le> k \<longrightarrow> k < j \<longrightarrow> bit (clients_used key) k"
      "psc_client_alloc_from i key =
         (Some j, key\<lparr>clients_used := clients_used key OR 2 ^ j,
                     clients := (clients key)[j := fresh_client j]\<rparr>)"
    | (full) "\<forall>k. i \<le> k \<longrightarrow> k < 4 \<longrightarrow> bit (clients_used key) k" "psc_client_alloc_from i key = (None, key)"
proof (induction i key arbitrary: thesis rule: psc_client_alloc_from.induct)
  case (1 i key)
  consider (out) "4 \<le> i" | (free) "i < 4" "\<not> bit (clients_used key) i" | (used) "i < 4" "bit (clients_used key) i"
    by linarith
  then show ?case
  proof cases
    case out
    then show ?thesis by (intro "1.prems"(2)) (auto simp: psc_client_alloc_from.simps [of i])
  next
    case free
    then show ?thesis
      by (intro "1.prems"(1) [of i]) (auto simp: psc_client_alloc_from.simps [of i] fresh_client_def)
  next
    case used
    then have step: "psc_client_alloc_from i key = psc_client_alloc_from (Suc i) key"
      by (simp add: psc_client_alloc_from.simps [of i])
    have more: "\<forall>k. i \<le> k \<longrightarrow> k < n \<longrightarrow> bit (clients_used key) k"
      if "\<forall>k. Suc i \<le> k \<longrightarrow> k < n \<longrightarrow> bit (clients_used key) k" for n
      using that used(2) by (metis Suc_leI le_neq_implies_less)
    show ?thesis
    proof (rule "1.IH")
      show "i < 4" "clients_used key AND push_bit i 1 \<noteq> 0" using used by simp_all
    qed (use "1.prems" step more in auto)
  qed
qed

lemma key_wf_alloc:
  assumes "key_wf key" "psc_client_alloc key = (Some i, key')"
  shows "i < 4" "\<not> bit (clients_used key) i" "\<forall>k < i. bit (clients_used key) k"
    "key' = key\<lparr>clients_used := clients_used key OR 2 ^ i,
               clients := (clients key)[i := fresh_client i]\<rparr>"
    "key_wf key'"
proof -
  show i: "i < 4" "\<not> bit (clients_used key) i" "\<forall>k < i. bit (clients_used key) k"
    "key' = key\<lparr>clients_used := clients_used key OR 2 ^ i,
               clients := (clients key)[i := fresh_client i]\<rparr>"
    using assms(2) unfolding psc_client_alloc_def
    by (cases key rule: psc_client_alloc_from_cases [of 0]; simp)+
  show "key_wf key'"
    using assms(1) i(1) unfolding i(4) key_wf_def
    by (auto simp: bit_set_slot nth_list_update intro: list_all_update)
qed

lemma alloc_full:
  assumes "key_wf key" "psc_client_alloc key = (None, key')"
  shows "key' = key" "\<forall>k < 4. bit (clients_used key) k"
  using assms(2) unfolding psc_client_alloc_def
  by (cases key rule: psc_client_alloc_from_cases [of 0]; simp)+

lemma key_wf_free:
  assumes "key_wf key" "bit (clients_used key) c"
  shows "key_wf (psc_client_free c key)" "clients_used (psc_client_free c key) = clients_used key AND NOT (2 ^ c)"
proof -
  have c: "c < 4" "unat (index (clients key ! c)) = c"
    using key_wfD(2,3) [OF assms(1) assms(2)] by (auto simp: unat_of_nat take_bit_nat_eq_self)
  show "clients_used (psc_client_free c key) = clients_used key AND NOT (2 ^ c)"
    by (simp add: psc_client_free_def c)
  show "key_wf (psc_client_free c key)"
    using assms(1) c unfolding key_wf_def psc_client_free_def
    by (auto simp: bit_clear_slot intro: list_all_update)
qed

lemma key_wf_update:
  assumes "key_wf key" "index C' = index (clients key ! c)" "has_PSC C' = has_PSC (clients key ! c)"
    and "length (rxbuf C') = RXBUF_SIZE"
  shows "key_wf (key\<lparr>clients := (clients key)[c := C']\<rparr>)"
proof -
  have "index ((clients key)[c := C'] ! i) = of_nat i \<and> has_PSC ((clients key)[c := C'] ! i)"
    if "bit (clients_used key) i" for i
    using key_wfD(1-4) [OF assms(1)] that assms(2,3) by (cases "i = c") auto
  with assms(4) key_wfD [OF assms(1)] show ?thesis
    by (auto simp: key_wf_def intro: list_all_update)
qed

lemma length_rxbuf: "key_wf key \<Longrightarrow> c < 4 \<Longrightarrow> length (rxbuf (clients key ! c)) = RXBUF_SIZE"
  by (auto simp: key_wf_def list_all_length)

lemma key_wf_assign:
  assumes "key_wf key"
  shows "key_wf (psc_client_assign c client caddr key)"
proof (cases "c < 4")
  case True
  with assms show ?thesis
    unfolding psc_client_assign_def by (intro key_wf_update) (auto simp: length_rxbuf)
next
  case False
  with key_wfD(1) [OF assms] have "psc_client_assign c client caddr key = key"
    by (simp add: psc_client_assign_def list_update_beyond)
  with assms show ?thesis by simp
qed

interpretation psc_slots: slot_table psc_client_alloc psc_client_free used_slots key_wf PSC_MAX_CLIENTS
proof
  fix key i key'
  assume wf: "key_wf key"
  show "used_slots key \<subseteq> {..<PSC_MAX_CLIENTS}"
    by (auto simp: used_slots_def)
  show "i \<notin> used_slots key \<and> {..<i} \<subseteq> used_slots key \<and> used_slots key' = insert i (used_slots key) \<and> key_wf key'"
    if "psc_client_alloc key = (Some i, key')"
    using key_wf_alloc [OF wf that] by (auto simp: used_slots_def bit_set_slot)
  show "key' = key \<and> {..<PSC_MAX_CLIENTS} \<subseteq> used_slots key" if "psc_client_alloc key = (None, key')"
    using alloc_full [OF wf that] by (auto simp: used_slots_def)
  show "used_slots (psc_client_free i key) = used_slots key - {i} \<and> key_wf (psc_client_free i key)"
    if "i \<in> used_slots key"
    using key_wf_free [OF wf, of i] that by (auto simp: used_slots_def bit_clear_slot)
qed

text \<open>
  C12. The client table never hands out a slot twice and never loses one: in a well-formed server an
  accepted connection gets the lowest unused slot and only that slot changes; with four clients
  connected the connection is dropped and the server is unchanged; and after any client has left,
  the next connection is accepted again.
\<close>

theorem psc_accept_round_slots:
  assumes "key_wf key" "client \<noteq> -1"
  shows "(if card (used_slots key) = PSC_MAX_CLIENTS
          then psc_accept_round client caddr key = (Dropped client, key)
          else \<exists>c key'. psc_accept_round client caddr key = (Started c, key') \<and> key_wf key'
                 \<and> c \<notin> used_slots key \<and> {..<c} \<subseteq> used_slots key
                 \<and> used_slots key' = insert c (used_slots key)
                 \<and> sock (clients key' ! c) = client \<and> peeraddr (clients key' ! c) = caddr
                 \<and> (\<forall>i. i \<noteq> c \<longrightarrow> clients key' ! i = clients key ! i))
         \<and> (\<forall>c \<in> used_slots key. \<exists>d key'.
               psc_accept_round client caddr (psc_client_free c key) = (Started d, key') \<and> d \<le> c)"
proof (intro conjI ballI)
  have round: "psc_accept_round client caddr k = (Started d, psc_client_assign d client caddr k')"
    if "psc_client_alloc k = (Some d, k')" for k k' d
    using that assms(2) by (simp add: psc_accept_round_def)
  show "if card (used_slots key) = PSC_MAX_CLIENTS
        then psc_accept_round client caddr key = (Dropped client, key)
        else \<exists>c key'. psc_accept_round client caddr key = (Started c, key') \<and> key_wf key'
                \<and> c \<notin> used_slots key \<and> {..<c} \<subseteq> used_slots key
                \<and> used_slots key' = insert c (used_slots key)
                \<and> sock (clients key' ! c) = client \<and> peeraddr (clients key' ! c) = caddr
                \<and> (\<forall>i. i \<noteq> c \<longrightarrow> clients key' ! i = clients key ! i)"
  proof (cases "psc_client_alloc key")
    case (Pair r key')
    show ?thesis
    proof (cases r)
      case None
      with Pair have "psc_client_alloc key = (None, key')" by simp
      then show ?thesis
        using psc_slots.alloc_None_iff [OF assms(1)] alloc_full [OF assms(1)] assms(2)
        by (simp add: psc_accept_round_def)
    next
      case (Some c)
      with Pair have a: "psc_client_alloc key = (Some c, key')" by simp
      note k = key_wf_alloc [OF assms(1) a] psc_slots.alloc_Some [OF assms(1) a] key_wfD(1) [OF assms(1)]
      have len: "length (clients key') = 4" using k by simp
      then have "key_wf (psc_client_assign c client caddr key')"
        using key_wf_assign k(5) by blast
      moreover have "card (used_slots key) \<noteq> 4"
        using psc_slots.alloc_None_iff [OF assms(1)] a by auto
      ultimately show ?thesis
        using round [OF a] k len
        by (auto simp: psc_client_assign_def used_slots_def nth_list_update)
    qed
  qed
  show "\<exists>d key'. psc_accept_round client caddr (psc_client_free c key) = (Started d, key') \<and> d \<le> c"
    if "c \<in> used_slots key" for c
    using psc_slots.alloc_after_release [OF assms(1) that] round by blast
qed

text \<open>The server as \<open>psc_run\<close> starts it, on socket 0.\<close>

definition demo_key :: psc_key where
  "demo_key = \<lparr>listen_sock = 0, clients_used = 0, clients = replicate PSC_MAX_CLIENTS zero_client\<rparr>"

lemma key_wf_demo [simp]: "key_wf demo_key" "used_slots demo_key = {}"
  by (simp_all add: demo_key_def key_wf_def used_slots_def list_all_length)

theorem psc_accept_round_slots_witness:
  "\<exists>c key'. psc_accept_round 5 (0x0A000001, 4000) demo_key = (Started c, key') \<and> key_wf key'
     \<and> used_slots key' = {c} \<and> sock (clients key' ! c) = 5"
  using psc_accept_round_slots [OF key_wf_demo(1), of 5 "(0x0A000001, 4000)"] by auto

section \<open>Broadcasting\<close>

text \<open>The clients a broadcast reaches: the used slots whose socket has not failed before.\<close>

definition live :: "psc_key \<Rightarrow> nat \<Rightarrow> bool" where
  "live key i \<longleftrightarrow> bit (clients_used key) i \<and> sock (clients key ! i) \<noteq> -1"

text \<open>\<open>close\<close> puts no bytes on any connection.\<close>

definition close_contract :: "('w \<Rightarrow> int \<Rightarrow> 'w) \<Rightarrow> ('w \<Rightarrow> int \<Rightarrow> bytes) \<Rightarrow> bool" where
  "close_contract close sent \<longleftrightarrow> (\<forall>w s. sent (close w s) = sent w)"

lemma psc_send_client_live:
  assumes "send_contract send sent" "close_contract close sent" "unat msglen \<le> length msg"
    and "sock (clients key ! c) \<noteq> -1"
  obtains k w' where "k \<le> length (psc_frame msgid (take (unat msglen) msg))"
    "sent w' = (sent w)(sock (clients key ! c) :=
       sent w (sock (clients key ! c)) @ take k (psc_frame msgid (take (unat msglen) msg)))"
    "psc_send_client send close msgid msglen msg c (key, w) =
       Some (if k = length (psc_frame msgid (take (unat msglen) msg)) then key
             else key\<lparr>clients := (clients key)[c := (clients key ! c)\<lparr>sock := -1\<rparr>]\<rparr>, w')"
    "send_accepts send (sock (clients key ! c)) \<Longrightarrow> k = length (psc_frame msgid (take (unat msglen) msg))"
proof -
  obtain ret w1 k where s: "psc_sendmsg send w (sock (clients key ! c)) msgid msg msglen 0 = Some (ret, w1)"
    "k \<le> length (psc_frame msgid (take (unat msglen) msg))"
    "ret = 0 \<longleftrightarrow> k = length (psc_frame msgid (take (unat msglen) msg))"
    "sent w1 = (sent w)(sock (clients key ! c) :=
       sent w (sock (clients key ! c)) @ take k (psc_frame msgid (take (unat msglen) msg)))"
    using sends_psc_sendmsg [OF assms(1,3)] by (rule sendsE)
  show thesis
  proof (rule that [OF s(2)])
    show "sent (if ret = 0 then w1 else close w1 (sock (clients key ! c))) = (sent w)(sock (clients key ! c) :=
       sent w (sock (clients key ! c)) @ take k (psc_frame msgid (take (unat msglen) msg)))"
      using s(4) assms(2) by (simp add: close_contract_def)
    show "k = length (psc_frame msgid (take (unat msglen) msg))" if "send_accepts send (sock (clients key ! c))"
      using psc_sendmsg_accepts [OF assms(1) that assms(3), of w msgid 0] s(1,3) by simp
  qed (use s(1,3) assms(4) in \<open>auto simp: psc_send_client_def Let_def\<close>)
qed

text \<open>
  What the loop has done after the slots in \<open>idxs\<close>: slot \<open>i\<close> accepted \<open>k i\<close> bytes, all of them when its
  socket is one of those (\<open>acc\<close>) that keep accepting.
\<close>

definition broadcast_done ::
  "('w \<Rightarrow> int \<Rightarrow> bytes) \<Rightarrow> (int \<Rightarrow> bool) \<Rightarrow> bytes \<Rightarrow> nat set \<Rightarrow> psc_key \<Rightarrow> 'w \<Rightarrow> psc_key \<Rightarrow> 'w \<Rightarrow> bool" where
  "broadcast_done sent acc frame idxs key w key' w' \<longleftrightarrow>
     (\<exists>k. (\<forall>i. k i \<le> length frame)
        \<and> (\<forall>i \<in> idxs. live key i \<longrightarrow> acc (sock (clients key ! i)) \<longrightarrow> k i = length frame)
        \<and> listen_sock key' = listen_sock key \<and> clients_used key' = clients_used key
        \<and> length (clients key') = length (clients key)
        \<and> (\<forall>i. clients key' ! i =
              (if i \<in> idxs \<and> live key i \<and> k i < length frame
               then (clients key ! i)\<lparr>sock := -1\<rparr> else clients key ! i))
        \<and> (\<forall>i \<in> idxs. live key i \<longrightarrow>
              sent w' (sock (clients key ! i)) = sent w (sock (clients key ! i)) @ take (k i) frame)
        \<and> (\<forall>s. s \<notin> (\<lambda>i. sock (clients key ! i)) ` {i \<in> idxs. live key i} \<longrightarrow> sent w' s = sent w s))"

lemma broadcast_done_skip:
  "\<not> live key i \<Longrightarrow> broadcast_done sent acc frame idxs key w key' w' \<Longrightarrow>
   broadcast_done sent acc frame (insert i idxs) key w key' w'"
proof -
  assume n: "\<not> live key i" and d: "broadcast_done sent acc frame idxs key w key' w'"
  have "{j \<in> insert i idxs. live key j} = {j \<in> idxs. live key j}" using n by blast
  moreover have "j \<in> insert i idxs \<and> live key j \<longleftrightarrow> j \<in> idxs \<and> live key j" for j using n by blast
  ultimately show ?thesis
    using d n unfolding broadcast_done_def by (auto cong: conj_cong)
qed

lemma broadcast_done_step:
  assumes c: "live key c" "c \<notin> idxs" "c < length (clients key)"
    and inj: "inj_on (\<lambda>i. sock (clients key ! i)) {i \<in> insert c idxs. live key i}"
    and k: "k \<le> length frame" "acc (sock (clients key ! c)) \<Longrightarrow> k = length frame"
      "sent w1 = (sent w)(sock (clients key ! c) := sent w (sock (clients key ! c)) @ take k frame)"
      "key1 = (if k = length frame then key
               else key\<lparr>clients := (clients key)[c := (clients key ! c)\<lparr>sock := -1\<rparr>]\<rparr>)"
    and d: "broadcast_done sent acc frame idxs key1 w1 key' w'"
  shows "broadcast_done sent acc frame (insert c idxs) key w key' w'"
proof -
  obtain f where f: "\<forall>i. f i \<le> length frame" "listen_sock key' = listen_sock key1"
    "clients_used key' = clients_used key1" "length (clients key') = length (clients key1)"
    "\<forall>i. clients key' ! i = (if i \<in> idxs \<and> live key1 i \<and> f i < length frame
       then (clients key1 ! i)\<lparr>sock := -1\<rparr> else clients key1 ! i)"
    "\<forall>i \<in> idxs. live key1 i \<longrightarrow>
       sent w' (sock (clients key1 ! i)) = sent w1 (sock (clients key1 ! i)) @ take (f i) frame"
    "\<forall>s. s \<notin> (\<lambda>i. sock (clients key1 ! i)) ` {i \<in> idxs. live key1 i} \<longrightarrow> sent w' s = sent w1 s"
    "\<forall>i \<in> idxs. live key1 i \<longrightarrow> acc (sock (clients key1 ! i)) \<longrightarrow> f i = length frame"
    using d unfolding broadcast_done_def by blast
  have other: "clients key1 ! i = clients key ! i" if "i \<noteq> c" for i
    using that k(4) by simp
  have self: "clients key1 ! c = (if k = length frame then clients key ! c else (clients key ! c)\<lparr>sock := -1\<rparr>)"
    using c(3) k(4) by simp
  have live1: "live key1 i \<longleftrightarrow> live key i" if "i \<in> idxs" for i
  proof -
    have "i \<noteq> c" "clients_used key1 = clients_used key" using that c(2) k(4) by auto
    then show ?thesis using other by (simp add: live_def)
  qed
  have socks: "(\<lambda>i. sock (clients key1 ! i)) ` {i \<in> idxs. live key1 i} =
      (\<lambda>i. sock (clients key ! i)) ` {i \<in> idxs. live key i}"
    using c(2) other live1 by (auto simp: image_def) metis+
  have apart: "sock (clients key ! c) \<notin> (\<lambda>i. sock (clients key ! i)) ` {i \<in> idxs. live key i}"
    "\<And>i. i \<in> idxs \<Longrightarrow> live key i \<Longrightarrow> sock (clients key ! i) \<noteq> sock (clients key ! c)"
    using inj c by (auto simp: inj_on_def)
  show ?thesis
    unfolding broadcast_done_def
  proof (intro exI [of _ "f(c := k)"] conjI allI ballI impI)
    fix i
    show "(f(c := k)) i \<le> length frame" using f(1) k(1) by simp
    show "(f(c := k)) i = length frame"
      if "i \<in> insert c idxs" "live key i" "acc (sock (clients key ! i))"
      using that f(8) k(2) c(2) other [of i] live1 [of i] by (cases "i = c") auto
    show "clients key' ! i = (if i \<in> insert c idxs \<and> live key i \<and> (f(c := k)) i < length frame
        then (clients key ! i)\<lparr>sock := -1\<rparr> else clients key ! i)"
      using f(5) c(1,2) k(1) other [of i] self live1 [of i] by (cases "i = c") auto
    show "sent w' (sock (clients key ! i)) = sent w (sock (clients key ! i)) @ take ((f(c := k)) i) frame"
      if "i \<in> insert c idxs" "live key i"
      using that f(6,7) apart k(3) c(2) other [of i] live1 [of i] socks by (cases "i = c") auto
  next
    fix s
    assume "s \<notin> (\<lambda>i. sock (clients key ! i)) ` {i \<in> insert c idxs. live key i}"
    then have "s \<notin> (\<lambda>i. sock (clients key ! i)) ` {i \<in> idxs. live key i}" "s \<noteq> sock (clients key ! c)"
      using c(1) by auto
    then show "sent w' s = sent w s"
      using f(7) socks k(3) by simp
  qed (use f(2,3,4) k(4) in auto)
qed

lemma psc_send_loop_broadcasts:
  assumes "send_contract send sent" "close_contract close sent" "unat msglen \<le> length msg"
    and "distinct idxs" "set idxs \<subseteq> {..<length (clients key)}"
    and "inj_on (\<lambda>i. sock (clients key ! i)) {i \<in> set idxs. live key i}"
  shows "\<exists>key' w'. psc_send_loop send close msgid msglen msg idxs (key, w) = Some (key', w')
           \<and> broadcast_done sent (send_accepts send) (psc_frame msgid (take (unat msglen) msg)) (set idxs) key w key' w'"
  using assms(4-6)
proof (induction idxs arbitrary: key w)
  case Nil
  then show ?case by (auto simp: broadcast_done_def)
next
  case (Cons c idxs)
  let ?frame = "psc_frame msgid (take (unat msglen) msg)"
  have sub: "inj_on (\<lambda>i. sock (clients key ! i)) {i \<in> set idxs. live key i}"
    using Cons.prems(3) by (rule inj_on_subset) auto
  show ?case
  proof (cases "live key c")
    case False
    then have "psc_send_loop send close msgid msglen msg (c # idxs) (key, w) =
        psc_send_loop send close msgid msglen msg idxs (key, w)"
      by (auto simp: live_def psc_send_client_def Let_def)
    with Cons.IH [of key w] Cons.prems sub False show ?thesis
      by (auto intro: broadcast_done_skip)
  next
    case True
    obtain k w1 where step: "k \<le> length ?frame"
      "sent w1 = (sent w)(sock (clients key ! c) := sent w (sock (clients key ! c)) @ take k ?frame)"
      "psc_send_client send close msgid msglen msg c (key, w) =
         Some (if k = length ?frame then key
               else key\<lparr>clients := (clients key)[c := (clients key ! c)\<lparr>sock := -1\<rparr>]\<rparr>, w1)"
      "send_accepts send (sock (clients key ! c)) \<Longrightarrow> k = length ?frame"
      using psc_send_client_live [OF assms(1-3), of key c msgid w thesis] True unfolding live_def by blast
    let ?key1 = "if k = length ?frame then key
        else key\<lparr>clients := (clients key)[c := (clients key ! c)\<lparr>sock := -1\<rparr>]\<rparr>"
    have same: "clients ?key1 ! i = clients key ! i \<and> (live ?key1 i \<longleftrightarrow> live key i)" if "i \<in> set idxs" for i
    proof -
      have "i \<noteq> c" using that Cons.prems(1) by auto
      then show ?thesis by (simp add: live_def)
    qed
    have "{i \<in> set idxs. live ?key1 i} = {i \<in> set idxs. live key i}" using same by blast
    then have inj1: "inj_on (\<lambda>i. sock (clients ?key1 ! i)) {i \<in> set idxs. live ?key1 i}"
      using sub same by (simp add: inj_on_def)
    have rest: "distinct idxs" "set idxs \<subseteq> {..<length (clients ?key1)}"
      using Cons.prems by auto
    obtain key' w' where rec: "psc_send_loop send close msgid msglen msg idxs (?key1, w1) = Some (key', w')"
      "broadcast_done sent (send_accepts send) ?frame (set idxs) ?key1 w1 key' w'"
      using Cons.IH [OF rest inj1, of w1] by blast
    have "psc_send_loop send close msgid msglen msg (c # idxs) (key, w) = Some (key', w')"
      using True step(3) rec(1) by (simp add: live_def)
    moreover have "broadcast_done sent (send_accepts send) ?frame (insert c (set idxs)) key w key' w'"
      using Cons.prems True step(1,2) rec(2) by (intro broadcast_done_step [OF _ _ _ _ step(1,4,2) refl]) auto
    ultimately show ?thesis by auto
  qed
qed

text \<open>
  C6. Broadcasting: \<open>psc_send\<close> offers the frame of the message to every connected client, whatever
  happens to the others. A client that accepts all of it stays connected, as every client does whose
  socket keeps accepting bytes; one that fails keeps a prefix of the frame, and its socket is marked failed, so that no later message follows a
  partial frame on it. Unused slots and every other connection are untouched.
\<close>

theorem psc_send_broadcasts:
  assumes "send_contract send sent" "close_contract close sent" "unat msglen \<le> length msg"
    and "key_wf key" "inj_on (\<lambda>i. sock (clients key ! i)) {i. live key i}"
  shows "\<exists>key' w'. psc_send send close (Some key, w) msgid msglen msg = Some (Some key', w')
           \<and> broadcast_done sent (send_accepts send) (psc_frame msgid (take (unat msglen) msg)) {..<PSC_MAX_CLIENTS} key w key' w'"
proof -
  have "inj_on (\<lambda>i. sock (clients key ! i)) {i \<in> set [0..<PSC_MAX_CLIENTS]. live key i}"
    using assms(5) by (rule inj_on_subset) auto
  then show ?thesis
    using psc_send_loop_broadcasts [OF assms(1-3), of "[0..<PSC_MAX_CLIENTS]" key msgid w] key_wfD(1) [OF assms(4)]
    by (auto simp: psc_send_def atLeast0LessThan)
qed

text \<open>Two clients, on sockets 5 and 6.\<close>

definition demo_key2 :: psc_key where
  "demo_key2 = snd (psc_accept_round 6 (2, 2) (snd (psc_accept_round 5 (1, 1) demo_key)))"

lemma demo_key2_eq:
  "demo_key2 = \<lparr>listen_sock = 0, clients_used = 3,
     clients = [(fresh_client 0)\<lparr>sock := 5, peeraddr := (1, 1)\<rparr>,
                (fresh_client 1)\<lparr>sock := 6, peeraddr := (2, 2)\<rparr>, zero_client, zero_client]\<rparr>"
  by (simp add: demo_key2_def demo_key_def psc_accept_round_def psc_client_alloc_def
      psc_client_alloc_from.simps psc_client_assign_def fresh_client_def eval_nat_numeral)

lemma bit_3_int: "bit (3::int) i \<longleftrightarrow> i = 0 \<or> i = 1"
proof -
  have "(3::int) = mask 2" by (simp add: mask_eq_exp_minus_1)
  then have "bit (3::int) i \<longleftrightarrow> i < 2" by (simp only: bit_mask_iff) simp
  then show ?thesis by auto
qed

lemma demo_key2_live: "{i. live demo_key2 i} = {0, 1}"
  by (auto simp: live_def demo_key2_eq bit_3_int)

lemma demo_key2_wf: "key_wf demo_key2" "inj_on (\<lambda>i. sock (clients demo_key2 ! i)) {i. live demo_key2 i}"
proof -
  show "inj_on (\<lambda>i. sock (clients demo_key2 ! i)) {i. live demo_key2 i}"
    unfolding demo_key2_live by (simp add: demo_key2_eq)
  show "key_wf demo_key2"
    by (auto simp: demo_key2_eq key_wf_def bit_3_int)
qed

lemma demo_close_contract: "close_contract (\<lambda>w s. w) sent"
  by (simp add: close_contract_def)

theorem psc_send_broadcasts_witness:
  "\<exists>key' w'. psc_send demo_send (\<lambda>w s. w) (Some demo_key2, \<lambda>_. []) 55 2 [8, 9] = Some (Some key', w')
     \<and> broadcast_done (\<lambda>w. w) (send_accepts demo_send) (psc_frame 55 [8, 9]) {..<4} demo_key2 (\<lambda>_. []) key' w'"
  using psc_send_broadcasts [OF demo_send_contract demo_close_contract _ demo_key2_wf,
      where msglen = 2 and msg = "[8, 9]" and w = "\<lambda>_. []" and msgid = 55] by simp

section \<open>The running server\<close>

text \<open>
  The threads of the server interleave between the steps below: each is one critical section of
  \<open>sendguard\<close>, or an access that only the owner of the slot makes (the accept loop to a slot it has
  just allocated, the client's thread to its own \<open>rxbuf\<close>). Sending may fail in any way, and the
  socket closed by a leaving thread is arbitrary.
\<close>

inductive server_step ::
  "'w send_fn \<Rightarrow> ('w \<Rightarrow> int \<Rightarrow> 'w) \<Rightarrow> psc_key \<times> 'w \<Rightarrow> psc_key \<times> 'w \<Rightarrow> bool"
  for send close where
  step_alloc: "psc_client_alloc key = (r, key') \<Longrightarrow> server_step send close (key, w) (key', w)"
| step_assign: "c \<in> used_slots key \<Longrightarrow>
    server_step send close (key, w) (psc_client_assign c client caddr key, w)"
| step_receive: "c \<in> used_slots key \<Longrightarrow> length buf = RXBUF_SIZE \<Longrightarrow>
    server_step send close (key, w) (key\<lparr>clients := (clients key)[c := (clients key ! c)\<lparr>rxbuf := buf\<rparr>]\<rparr>, w')"
| step_send: "psc_send send close (Some key, w) msgid msglen msg = Some (Some key', w') \<Longrightarrow>
    server_step send close (key, w) (key', w')"
| step_send_one: "c \<in> used_slots key \<Longrightarrow>
    psc_send_one send close c msgid msglen msg (key, w) = Some (key', w') \<Longrightarrow>
    server_step send close (key, w) (key', w')"
| step_exit: "c \<in> used_slots key \<Longrightarrow>
    server_step send close (key, w) (handle_client_exit close c s (key, w))"

inductive_cases server_stepE: "server_step send close (key, w) kw"

lemma key_wf_send_client:
  assumes "key_wf key" "psc_send_client send close msgid msglen msg c (key, w) = Some (key', w')" "c < 4"
  shows "key_wf key'"
proof -
  have "key_wf (key\<lparr>clients := (clients key)[c := (clients key ! c)\<lparr>sock := -1\<rparr>]\<rparr>)"
    using assms(1,3) by (intro key_wf_update) (auto simp: length_rxbuf)
  with assms show ?thesis
    by (auto simp: psc_send_client_def Let_def split: if_splits option.splits)
qed

lemma key_wf_send_loop:
  assumes "key_wf key" "psc_send_loop send close msgid msglen msg idxs (key, w) = Some (key', w')"
    "set idxs \<subseteq> {..<4}"
  shows "key_wf key'"
  using assms
proof (induction idxs arbitrary: key w)
  case (Cons c idxs)
  show ?case
  proof (cases "bit (clients_used key) c")
    case True
    with Cons.prems(2) obtain key1 w1 where 1: "psc_send_client send close msgid msglen msg c (key, w) = Some (key1, w1)"
      and 2: "psc_send_loop send close msgid msglen msg idxs (key1, w1) = Some (key', w')"
      by (auto split: option.splits)
    have "key_wf key1"
      using key_wf_send_client [OF Cons.prems(1) 1] Cons.prems(3) by simp
    from Cons.IH [OF this 2] Cons.prems(3) show ?thesis by simp
  qed (use Cons in auto)
qed simp

text \<open>One broadcast, seen by a client whose socket keeps accepting, and by every other connection.\<close>

definition distinct_socks :: "psc_key \<Rightarrow> bool" where
  "distinct_socks key \<longleftrightarrow> inj_on (\<lambda>i. sock (clients key ! i)) {i. live key i}"

definition live_socks :: "psc_key \<Rightarrow> int set" where
  "live_socks key = (\<lambda>i. sock (clients key ! i)) ` {i. live key i}"

lemma psc_send_accepted:
  assumes "send_contract send sent" "close_contract close sent" "unat msglen \<le> length msg"
    and "key_wf key" "distinct_socks key"
  shows "\<exists>key' w'. psc_send send close (Some key, w) msgid msglen msg = Some (Some key', w')
           \<and> key_wf key' \<and> distinct_socks key' \<and> live_socks key' \<subseteq> live_socks key
           \<and> (\<forall>i. live key i \<and> send_accepts send (sock (clients key ! i)) \<longrightarrow>
                live key' i \<and> clients key' ! i = clients key ! i
                \<and> sent w' (sock (clients key ! i)) =
                    sent w (sock (clients key ! i)) @ psc_frame msgid (take (unat msglen) msg))
           \<and> (\<forall>s. s \<notin> live_socks key \<longrightarrow> sent w' s = sent w s)"
proof -
  let ?frame = "psc_frame msgid (take (unat msglen) msg)"
  have idx: "i < PSC_MAX_CLIENTS" if "live key i" for i
    using that key_wfD [OF assms(4)] by (auto simp: live_def)
  have "inj_on (\<lambda>i. sock (clients key ! i)) {i \<in> set [0..<PSC_MAX_CLIENTS]. live key i}"
    using assms(5) unfolding distinct_socks_def by (rule inj_on_subset) auto
  then obtain key' w' where loop: "psc_send_loop send close msgid msglen msg [0..<PSC_MAX_CLIENTS] (key, w) = Some (key', w')"
    and bd: "broadcast_done sent (send_accepts send) ?frame {..<PSC_MAX_CLIENTS} key w key' w'"
    using psc_send_loop_broadcasts [OF assms(1-3), of "[0..<PSC_MAX_CLIENTS]" key msgid w] key_wfD(1) [OF assms(4)]
    by (auto simp: atLeast0LessThan)
  obtain k where k: "\<forall>i \<in> {..<PSC_MAX_CLIENTS}. live key i \<longrightarrow> send_accepts send (sock (clients key ! i)) \<longrightarrow> k i = length ?frame"
    "clients_used key' = clients_used key"
    "\<forall>i. clients key' ! i = (if i \<in> {..<PSC_MAX_CLIENTS} \<and> live key i \<and> k i < length ?frame
       then (clients key ! i)\<lparr>sock := -1\<rparr> else clients key ! i)"
    "\<forall>i \<in> {..<PSC_MAX_CLIENTS}. live key i \<longrightarrow>
       sent w' (sock (clients key ! i)) = sent w (sock (clients key ! i)) @ take (k i) ?frame"
    "\<forall>s. s \<notin> (\<lambda>i. sock (clients key ! i)) ` {i \<in> {..<PSC_MAX_CLIENTS}. live key i} \<longrightarrow> sent w' s = sent w s"
    using bd unfolding broadcast_done_def by blast
  have sub: "live key i \<and> sock (clients key' ! i) = sock (clients key ! i)" if "live key' i" for i
    using that k(2,3) by (auto simp: live_def split: if_splits)
  have "psc_send send close (Some key, w) msgid msglen msg = Some (Some key', w')"
    using loop by (simp add: psc_send_def)
  moreover have "key_wf key'"
    by (rule key_wf_send_loop [OF assms(4) loop]) auto
  moreover have "distinct_socks key'"
    using assms(5) sub by (auto simp: distinct_socks_def inj_on_def)
  moreover have "live_socks key' \<subseteq> live_socks key"
    using sub by (fastforce simp: live_socks_def)
  moreover have "sent w' s = sent w s" if "s \<notin> live_socks key" for s
    using that k(5) by (auto simp: live_socks_def)
  moreover have "live key' i \<and> clients key' ! i = clients key ! i
      \<and> sent w' (sock (clients key ! i)) = sent w (sock (clients key ! i)) @ ?frame"
    if "live key i \<and> send_accepts send (sock (clients key ! i))" for i
  proof -
    have "k i = length ?frame" "i < PSC_MAX_CLIENTS" using that k(1) idx by auto
    with that k(2-4) show ?thesis by (simp add: live_def)
  qed
  ultimately show ?thesis by blast
qed

lemma key_wf_step:
  assumes "server_step send close kw kw'" "key_wf (fst kw)"
  shows "key_wf (fst kw')"
  using assms
proof cases
  case (step_alloc key r key' w)
  then have wf: "key_wf key" using assms(2) by simp
  show ?thesis
  proof (cases r)
    case None
    with step_alloc alloc_full(1) [OF wf] wf show ?thesis by simp
  next
    case (Some c)
    with step_alloc key_wf_alloc(5) [OF wf] show ?thesis by simp
  qed
next
  case (step_receive c key buf w w')
  with assms(2) show ?thesis by (auto intro!: key_wf_update)
next
  case (step_send key w msgid msglen msg key' w')
  with assms(2) show ?thesis
    by (auto simp: psc_send_def intro!: key_wf_send_loop [of key])
next
  case (step_send_one c key msgid msglen msg w key' w')
  with assms(2) show ?thesis
    by (auto simp: used_slots_def dest!: psc_send_oneD intro: key_wf_send_client)
next
  case (step_exit c key w s)
  with assms(2) show ?thesis
    by (auto simp: handle_client_exit_def used_slots_def intro: key_wf_free)
qed (auto intro: key_wf_assign)

text \<open>
  C8. The invariant of the server: in every state that any interleaving of its threads can reach
  from a successful start, the used slots are among the four of the table, each used slot knows its
  own number and its server (so that leaving clears the right bit), and every receive buffer has
  its full size.
\<close>

theorem server_reachable_wf:
  assumes "psc_run_setup key_set calloc_ok mutex_ok lsock bind_ret listen_ret = Serving key0"
    and "(server_step send close)\<^sup>*\<^sup>* (key0, w0) (key, w)"
  shows "key_wf key \<and> card (used_slots key) \<le> PSC_MAX_CLIENTS
     \<and> (\<forall>c \<in> used_slots key. index (clients key ! c) = of_nat c \<and> has_PSC (clients key ! c))"
proof -
  have "key_wf key0"
    using assms(1) by (auto simp: psc_run_setup_def key_wf_def list_all_length split: if_splits)
  with assms(2) have "key_wf key"
    by (induction "(key, w)" arbitrary: key w rule: rtranclp_induct) (auto dest: key_wf_step)
  then show ?thesis
    using psc_slots.card_slots key_wfD(3,4) by (auto simp: used_slots_def)
qed

theorem server_reachable_wf_witness:
  "key_wf demo_key2 \<and> card (used_slots demo_key2) \<le> 4"
proof -
  let ?step = "server_step demo_send (\<lambda>w s. w)" and ?w = "(\<lambda>_. []) :: int \<Rightarrow> bytes"
  have round: "?step\<^sup>*\<^sup>* (key, ?w) (snd (psc_accept_round s a key), ?w)"
    if "psc_client_alloc key = (Some c, key')" "key_wf key" "s \<noteq> -1" for key key' c s a
  proof -
    have "?step (key, ?w) (key', ?w)" using that(1) by (rule step_alloc)
    moreover have "?step (key', ?w) (psc_client_assign c s a key', ?w)"
      using psc_slots.alloc_Some [OF that(2,1)] by (intro step_assign) blast
    ultimately show ?thesis using that by (simp add: psc_accept_round_def)
  qed
  obtain k1 where a1: "psc_client_alloc demo_key = (Some 0, k1)"
    by (simp add: psc_client_alloc_def psc_client_alloc_from.simps demo_key_def)
  let ?key1 = "snd (psc_accept_round 5 (1, 1) demo_key)"
  have wf1: "key_wf ?key1"
    using a1 key_wf_alloc(5) [OF key_wf_demo(1) a1] by (simp add: psc_accept_round_def key_wf_assign)
  have a2: "psc_client_alloc ?key1 = (Some 1, snd (psc_client_alloc ?key1))"
    by (simp add: psc_accept_round_def psc_client_assign_def psc_client_alloc_def psc_client_alloc_from.simps demo_key_def)
  have "?step\<^sup>*\<^sup>* (demo_key, ?w) (demo_key2, ?w)"
    using round [OF a1 key_wf_demo(1), of 5 "(1, 1)"] round [OF a2 wf1, of 6 "(2, 2)"]
    by (simp add: demo_key2_def)
  moreover have "psc_run_setup False True True 0 0 0 = Serving demo_key"
    by (simp add: psc_run_setup_def demo_key_def)
  ultimately show ?thesis
    using server_reachable_wf [of False True True 0 0 0 demo_key demo_send "\<lambda>w s. w" ?w demo_key2 ?w] by blast
qed

text \<open>
  A window in accepting: between \<open>psc_client_alloc\<close> and the store of \<open>C->sock\<close>, the new slot is
  used and its socket is the 0 left by \<open>memset\<close>. A broadcast in this window sends to descriptor 0,
  whoever owns it, and on an error (as on a listening socket) closes descriptor 0.
\<close>

theorem psc_send_in_accept_window:
  assumes "key_wf key" "used_slots key = {}" "psc_client_alloc key = (Some c, key')"
    and "psc_sendmsg send w 0 msgid msg msglen 0 = Some (e, w')" "e \<noteq> 0"
  shows "\<exists>key''. psc_send send close (Some key', w) msgid msglen msg = Some (Some key'', close w' 0)"
proof -
  note a = key_wf_alloc [OF assms(1,3)] key_wfD(1) [OF assms(1)]
  have none: "\<not> bit (clients_used key) i" for i
    using assms(2) used_slots_iff [OF assms(1)] by blast
  then have "c = 0" using a(3) by (cases c) auto
  moreover have "clients_used key = 0"
    by (rule bit_word_eqI) (use none in simp)
  ultimately have used: "clients_used key' = 1"
    using a(4) by simp
  have "sock (clients key' ! 0) = 0"
    using a \<open>c = 0\<close> by simp
  with assms(4,5) have "psc_send_client send close msgid msglen msg 0 (key', w) =
      Some (key'\<lparr>clients := (clients key')[0 := (clients key' ! 0)\<lparr>sock := -1\<rparr>]\<rparr>, close w' 0)"
    by (simp add: psc_send_client_def Let_def)
  then show ?thesis
    using used by (simp add: psc_send_def upt_rec)
qed

theorem psc_send_in_accept_window_witness:
  "\<exists>key''. psc_send (\<lambda>w s b f. (SFail 128, w)) (\<lambda>w s. s # w) (Some (snd (psc_client_alloc demo_key)), []) 1 0 [] =
     Some (Some key'', [0])"
proof -
  obtain k1 where a1: "psc_client_alloc demo_key = (Some 0, k1)"
    by (simp add: psc_client_alloc_def psc_client_alloc_from.simps demo_key_def)
  have "psc_sendmsg (\<lambda>w s b f. (SFail 128, w)) ([] :: int list) 0 1 [] 0 0 = Some (128, [])"
    by (simp add: psc_sendmsg_def psc_sendhead_def Let_def psc_sendall.simps psc_header_bytes_def)
  from psc_send_in_accept_window [OF key_wf_demo a1 this, of "\<lambda>w s. s # w"] show ?thesis
    using a1 by simp
qed

text \<open>
  A socket that fails while a message is sent is closed twice: \<open>psc_send_one\<close> closes it, and the
  client's thread, which it wakes, closes its own copy of the descriptor again. Whatever the
  descriptor has been given to in between is closed by the second call.
\<close>

theorem failed_client_closed_twice:
  assumes "sock (clients key ! c) \<noteq> -1" "has_PSC (clients key ! c)"
    and "psc_sendmsg send w (sock (clients key ! c)) msgid msg msglen 0 = Some (e, w')" "e \<noteq> 0"
  shows "\<exists>key'. psc_send_one send close c msgid msglen msg (key, w) = Some (key', close w' (sock (clients key ! c)))
           \<and> snd (handle_client_exit close c (sock (clients key ! c)) (key', w'')) = close w'' (sock (clients key ! c))"
  using assms by (auto simp: psc_send_one_def psc_send_client_def Let_def handle_client_exit_def)

theorem failed_client_closed_twice_witness:
  "\<exists>key'. psc_send_one (\<lambda>w s b f. (SFail 128, w)) (\<lambda>w s. s # w) 0 1 0 [] (demo_key2, []) = Some (key', [5])
     \<and> snd (handle_client_exit (\<lambda>w s. s # w) 0 5 (key', [5])) = [5, 5]"
proof -
  have "psc_sendmsg (\<lambda>w s b f. (SFail 128, w)) ([] :: int list) 5 1 [] 0 0 = Some (128, [])"
    by (simp add: psc_sendmsg_def psc_sendhead_def Let_def psc_sendall.simps psc_header_bytes_def)
  then show ?thesis
    using failed_client_closed_twice [of demo_key2 0 "\<lambda>w s b f. (SFail 128, w)" "[]" 1 "[]" 0 128 "[]" "\<lambda>w s. s # w" "[5]"]
    by (simp add: demo_key2_eq)
qed

section \<open>The receive thread\<close>

text \<open>
  Reference for the receive loop: the callback is run on every message in order, with the message
  cut to the buffer and copied over whatever the earlier messages left there.
\<close>

fun deliver ::
  "(u16 \<Rightarrow> u32 \<Rightarrow> bytes \<Rightarrow> 'a \<Rightarrow> 'a option) \<Rightarrow> (u16 \<times> bytes) list \<Rightarrow> bytes \<Rightarrow> 'a \<Rightarrow> (bytes \<times> 'a) option" where
  "deliver cb [] buf app = Some (buf, app)"
| "deliver cb ((mid, body) # ms) buf app =
     (let buf' = buf_write buf 0 (take RXBUF_SIZE body) in
      case cb mid (of_nat (min (length body) RXBUF_SIZE)) buf' app of
        None \<Rightarrow> None
      | Some app' \<Rightarrow> deliver cb ms buf' app')"

text \<open>The stream ends, or goes on with something that is not a header.\<close>

definition no_header :: "bytes \<Rightarrow> bool" where
  "no_header s \<longleftrightarrow> length s < 8 \<or> s ! 0 \<noteq> CH_P \<or> s ! 1 \<noteq> CH_S"

lemma psc_recvmsg_no_header:
  assumes "recv_contract recv pend" "no_header (pend w s)"
  shows "\<exists>ret w'. psc_recvmsg recv w s buf maxlen flags = Some (ret, None, buf, w') \<and> ret \<noteq> 0"
proof (cases rule: psc_recvhead_cases [OF assms(1), of w s flags, case_names fail ok])
  case (ok mid mlen w' r)
  with assms(2) show ?thesis by (simp add: no_header_def)
qed (auto simp: psc_recvmsg_def)

lemma unat_RXBUF_SIZE [simp]: "unat (of_nat RXBUF_SIZE :: u32) = RXBUF_SIZE"
  by (simp add: RXBUF_SIZE_def)

lemma handle_client_loop_delivers:
  assumes "recv_contract recv pend" "recv_delivers recv pend s"
    and "pend w s = concat (map (\<lambda>(mid, body). psc_frame mid body) ms) @ tail" "no_header tail"
    and "list_all (\<lambda>(mid, body). length body < 2 ^ 32) ms" "length buf = RXBUF_SIZE"
    and "deliver cb ms buf app = Some (buf', app')" "length ms < fuel"
  shows "\<exists>w'. handle_client_loop fuel recv cb s buf app w = Done (buf', app', w')"
  using assms(3,5-8)
proof (induction ms arbitrary: fuel buf app w)
  case Nil
  then obtain n where "fuel = Suc n" by (cases fuel) auto
  with psc_recvmsg_no_header [OF assms(1), of w s buf "of_nat RXBUF_SIZE" 0] Nil assms(4) show ?case by auto
next
  case (Cons m ms)
  obtain mid body where m: "m = (mid, body)" by (cases m)
  obtain n where fuel: "fuel = Suc n" "length ms < n" using Cons.prems(5) by (cases fuel) auto
  let ?buf = "buf_write buf 0 (take RXBUF_SIZE body)"
  obtain w1 where recv: "psc_recvmsg recv w s buf (of_nat RXBUF_SIZE) 0 =
      Some (0, Some (mid, of_nat (min (length body) RXBUF_SIZE)), ?buf, w1)"
    "pend w1 = (pend w)(s := concat (map (\<lambda>(mid, body). psc_frame mid body) ms) @ tail)"
    using psc_recvmsg_delivers [OF assms(1,2), of w mid body
        "concat (map (\<lambda>(mid, body). psc_frame mid body) ms) @ tail" "of_nat RXBUF_SIZE" buf 0]
      Cons.prems(1-3) m by auto
  obtain app1 where cb: "cb mid (of_nat (min (length body) RXBUF_SIZE)) ?buf app = Some app1"
    "deliver cb ms ?buf app1 = Some (buf', app')"
    using Cons.prems(4) m by (auto simp: Let_def split: option.splits)
  have "\<exists>w'. handle_client_loop n recv cb s ?buf app1 w1 = Done (buf', app', w')"
    using Cons.prems(2,3) recv(2) cb(2) fuel(2) m by (intro Cons.IH) auto
  then show ?case using fuel(1) recv(1) cb(1) by simp
qed

text \<open>
  C5. The receive thread of a client: for any sequence of well-formed messages on the connection,
  however the bytes arrive, the connect event comes first, then the callback gets exactly these
  messages in this order, each with its number, its length cut to the buffer, and its body at the
  start of \<open>rxbuf\<close>, then the disconnect event; when the stream ends or is not a message, the slot
  is freed and the socket closed. One round of the loop per message is enough.
\<close>

theorem handle_client_delivers:
  assumes "recv_contract recv pend" "recv_delivers recv pend (sock (clients key ! c))"
    and "pend w (sock (clients key ! c)) = concat (map (\<lambda>(mid, body). psc_frame mid body) ms) @ tail"
    and "no_header tail" "list_all (\<lambda>(mid, body). length body < 2 ^ 32) ms"
    and "length (rxbuf (clients key ! c)) = RXBUF_SIZE" "c < length (clients key)"
    and "deliver cb ms (rxbuf (clients key ! c)) (conn PSC_CONN app) = Some (buf', app')" "length ms < fuel"
  shows "\<exists>w'. handle_client fuel recv close conn cb c (key, app, w) =
           Done (psc_client_free c key, conn PSC_DIS app', close w' (sock (clients key ! c)))"
proof -
  obtain w' where "handle_client_loop fuel recv cb (sock (clients key ! c)) (rxbuf (clients key ! c))
      (conn PSC_CONN app) w = Done (buf', app', w')"
    using handle_client_loop_delivers [OF assms(1-6,8,9)] by blast
  then show ?thesis
    using assms(7) by (auto simp: handle_client_def Let_def handle_client_exit_def psc_client_free_def)
qed

theorem handle_client_delivers_witness:
  "\<exists>w'. handle_client 3 demo_recv (\<lambda>w s. w) (\<lambda>e app. app)
       (\<lambda>mid len buf app. Some (app @ [(mid, len, take 2 buf)])) 0
       (demo_key2, [], (\<lambda>_. psc_frame 1 [7, 8] @ psc_frame 2 [9] @ [0x51])) =
     Done (psc_client_free 0 demo_key2, [(1, 2, [7, 8]), (2, 1, [9, 8])], w')"
proof -
  let ?cb = "\<lambda>mid len buf app. Some (app @ [(mid, len, take 2 buf)])" and ?buf = "replicate RXBUF_SIZE (0::u8)"
    and ?ms = "[(1, [7, 8]), (2, [9])] :: (u16 \<times> bytes) list"
  have buf: "rxbuf (clients demo_key2 ! 0) = ?buf"
    by (simp add: demo_key2_eq fresh_client_def zero_client_def)
  have "2 \<le> RXBUF_SIZE" "Suc 0 \<le> RXBUF_SIZE" "Suc (Suc 0) \<le> RXBUF_SIZE" by (simp_all add: RXBUF_SIZE_def)
  then have "deliver ?cb ?ms (rxbuf (clients demo_key2 ! 0)) [] =
      Some (buf_write (buf_write ?buf 0 [7, 8]) 0 [9], [(1, 2, [7, 8]), (2, 1, [9, 8])])"
    unfolding buf by (simp add: Let_def buf_write_def min_absorb1)
  from handle_client_delivers [OF demo_recv_contract demo_recv_delivers, where key = demo_key2 and c = 0
      and w = "\<lambda>_. psc_frame 1 [7, 8] @ psc_frame 2 [9] @ [0x51]" and tail = "[0x51]" and fuel = 3
      and ms = ?ms and cb = ?cb and app = "[]" and conn = "\<lambda>e app. app" and close = "\<lambda>w s. w", OF _ _ _ _ _ this]
  show ?thesis
    by (simp add: no_header_def buf) (simp add: demo_key2_eq)
qed

end
