(* ===== verification/Mmio.thy ===== *)
theory Mmio
  imports Prelude
begin

text \<open>
  The programmable-logic register block as the software sees it: the register names and byte
  offsets of \<open>src/sw/src/pl_regs.h\<close>, the accesses \<open>Xil_Out32\<close>/\<open>Xil_In32\<close> to it, and the SPI
  frames that writes to its Artix SPI registers produce (\<open>src/hw/hdl/artix_spi.vhd\<close>).

  An operation that only writes registers and waits is the list of its accesses in order
  (\<open>mmio list\<close>); console output is not part of it. \<open>reg_run\<close> replays such a list on the last
  value written to each register. A register is named, and \<open>Xil_Out32(XPAR_M_AXI_BASEADDR + R, v)\<close>
  is \<open>Out32 R v\<close>.
\<close>

section \<open>Register map\<close>

datatype pl_reg =
    MOD_ID_NUM | MOD_ID_VER | PROJ_ID_NUM | PROJ_ID_VER | GIT_SHASUM | COMPILE_TIMESTAMP
  | ARTIX_SPI_DATA | ARTIX_SPI_ADDR | ARTIX_SPI_WE
  | EVR_RST_REG
  | FP_LEDS_REG | LATCH_RESET | ACIS_FORCE_TRIP | ACIS_KEYLOCK
  | EVR_TS_S_REG | EVR_TS_NS_REG | EVR_TS_S_LAT_REG | EVR_TS_NS_LAT_REG
  | EVR_FE_TRIGNUM_REG | EVR_FE_TRIGDLY_REG
  | FIFO_STREAMENB_REG | FIFO_RST_REG | FIFO_DATA_REG | FIFO_CNT_REG

fun pl_offset :: "pl_reg \<Rightarrow> u32" where
  "pl_offset MOD_ID_NUM = 0x0"
| "pl_offset MOD_ID_VER = 0x4"
| "pl_offset PROJ_ID_NUM = 0x10"
| "pl_offset PROJ_ID_VER = 0x14"
| "pl_offset GIT_SHASUM = 0x18"
| "pl_offset COMPILE_TIMESTAMP = 0x1C"
| "pl_offset ARTIX_SPI_DATA = 0x20"
| "pl_offset ARTIX_SPI_ADDR = 0x24"
| "pl_offset ARTIX_SPI_WE = 0x28"
| "pl_offset EVR_RST_REG = 0x30"
| "pl_offset FP_LEDS_REG = 0x40"
| "pl_offset LATCH_RESET = 0x120"
| "pl_offset ACIS_FORCE_TRIP = 0x124"
| "pl_offset ACIS_KEYLOCK = 0x128"
| "pl_offset EVR_TS_S_REG = 0x50"
| "pl_offset EVR_TS_NS_REG = 0x54"
| "pl_offset EVR_TS_S_LAT_REG = 0x58"
| "pl_offset EVR_TS_NS_LAT_REG = 0x5C"
| "pl_offset EVR_FE_TRIGNUM_REG = 0x60"
| "pl_offset EVR_FE_TRIGDLY_REG = 0x64"
| "pl_offset FIFO_STREAMENB_REG = 0x100"
| "pl_offset FIFO_RST_REG = 0x104"
| "pl_offset FIFO_DATA_REG = 0x108"
| "pl_offset FIFO_CNT_REG = 0x10C"

text \<open>The address of the same field in the hardware description \<open>src/hw/rdl/pl_regs.rdl\<close>.\<close>

fun rdl_offset :: "pl_reg \<Rightarrow> u32" where
  "rdl_offset MOD_ID_NUM = 0x00"
| "rdl_offset MOD_ID_VER = 0x04"
| "rdl_offset PROJ_ID_NUM = 0x10"
| "rdl_offset PROJ_ID_VER = 0x14"
| "rdl_offset GIT_SHASUM = 0x18"
| "rdl_offset COMPILE_TIMESTAMP = 0x1C"
| "rdl_offset ARTIX_SPI_DATA = 0x20"
| "rdl_offset ARTIX_SPI_ADDR = 0x24"
| "rdl_offset ARTIX_SPI_WE = 0x28"
| "rdl_offset EVR_RST_REG = 0x30"
| "rdl_offset FP_LEDS_REG = 0x40"
| "rdl_offset LATCH_RESET = 0x120"
| "rdl_offset ACIS_FORCE_TRIP = 0x124"
| "rdl_offset ACIS_KEYLOCK = 0x128"
| "rdl_offset EVR_TS_NS_REG = 0x50"
| "rdl_offset EVR_TS_S_REG = 0x54"
| "rdl_offset EVR_TS_NS_LAT_REG = 0x58"
| "rdl_offset EVR_TS_S_LAT_REG = 0x5C"
| "rdl_offset EVR_FE_TRIGNUM_REG = 0x60"
| "rdl_offset EVR_FE_TRIGDLY_REG = 0x64"
| "rdl_offset FIFO_STREAMENB_REG = 0x100"
| "rdl_offset FIFO_RST_REG = 0x104"
| "rdl_offset FIFO_DATA_REG = 0x108"
| "rdl_offset FIFO_CNT_REG = 0x10C"

section \<open>Accesses\<close>

text \<open>Waiting is in microseconds: \<open>usleep(n)\<close> is \<open>Delay n\<close>, \<open>sleep(1)\<close> is \<open>Delay 1000000\<close>.\<close>

datatype 'r access = Out32 'r u32 | Delay nat

type_synonym mmio = "pl_reg access"

primrec reg_step :: "'r access \<Rightarrow> ('r \<Rightarrow> u32) \<Rightarrow> ('r \<Rightarrow> u32)" where
  "reg_step (Out32 r v) s = s(r := v)"
| "reg_step (Delay n) s = s"

primrec reg_run :: "'r access list \<Rightarrow> ('r \<Rightarrow> u32) \<Rightarrow> ('r \<Rightarrow> u32)" where
  "reg_run [] s = s"
| "reg_run (e # es) s = reg_run es (reg_step e s)"

lemma reg_run_append [simp]: "reg_run (xs @ ys) s = reg_run ys (reg_run xs s)"
  by (induction xs arbitrary: s) simp_all

lemma reg_run_other: "(\<And>v. Out32 r v \<notin> set es) \<Longrightarrow> reg_run es s r = s r"
proof (induction es arbitrary: s)
  case (Cons e es)
  then have "reg_run es s' r = s' r" for s' by simp
  with Cons.prems show ?case by (cases e) auto
qed simp

text \<open>The time an operation waits, in microseconds.\<close>

primrec wait_us :: "'r access list \<Rightarrow> nat" where
  "wait_us [] = 0"
| "wait_us (e # es) = (case e of Out32 r v \<Rightarrow> 0 | Delay n \<Rightarrow> n) + wait_us es"

lemma wait_us_append [simp]: "wait_us (xs @ ys) = wait_us xs + wait_us ys"
  by (induction xs) simp_all

text \<open>
  The levels at rest of the strobe and pulse registers: no SPI write strobe, and the active-low
  latch reset and force-trip lines at their reset value 1 (\<open>pl_regs.rdl\<close>).
\<close>

definition quiescent :: "(pl_reg \<Rightarrow> u32) \<Rightarrow> bool" where
  "quiescent s \<longleftrightarrow> s ARTIX_SPI_WE = 0 \<and> s LATCH_RESET = 1 \<and> s ACIS_FORCE_TRIP = 1"

section \<open>Artix SPI frames\<close>

text \<open>
  \<open>artix_spi.vhd\<close>: a write of 1 to the strobe latches address bits 30..0 and the data register
  into one 64-bit frame, whose top bit is 0 (write).
\<close>

fun spi_frames :: "u32 \<Rightarrow> u32 \<Rightarrow> mmio list \<Rightarrow> (u32 \<times> u32) list" where
  "spi_frames a d [] = []"
| "spi_frames a d (Delay n # es) = spi_frames a d es"
| "spi_frames a d (Out32 r v # es) =
     (if r = ARTIX_SPI_DATA then spi_frames a v es
      else if r = ARTIX_SPI_ADDR then spi_frames v d es
      else if r = ARTIX_SPI_WE \<and> bit v 0 then (take_bit 31 a, d) # spi_frames a d es
      else spi_frames a d es)"

text \<open>The four accesses by which every routine issues one frame.\<close>

definition spi_write :: "u32 \<Rightarrow> u32 \<Rightarrow> mmio list" where
  "spi_write addr data =
     [Out32 ARTIX_SPI_DATA data, Out32 ARTIX_SPI_ADDR addr,
      Out32 ARTIX_SPI_WE 1, Out32 ARTIX_SPI_WE 0]"

lemma spi_frames_spi_write [simp]:
  "spi_frames a d (spi_write addr data @ es) = (take_bit 31 addr, data) # spi_frames addr data es"
  by (simp add: spi_write_def)

lemma spi_frames_spi_write' [simp]: "spi_frames a d (spi_write addr data) = [(take_bit 31 addr, data)]"
  using spi_frames_spi_write [of a d addr data "[]"] by simp

lemma spi_frames_Delay [simp]: "spi_frames a d (Delay n # es) = spi_frames a d es"
  by simp

lemma set_spi_write [simp]:
  "Out32 r v \<in> set (spi_write addr data) \<longleftrightarrow>
     r = ARTIX_SPI_DATA \<and> v = data \<or> r = ARTIX_SPI_ADDR \<and> v = addr
     \<or> r = ARTIX_SPI_WE \<and> (v = 1 \<or> v = 0)"
  by (auto simp: spi_write_def)

lemma reg_run_spi_write [simp]:
  "reg_run (spi_write addr data) s =
     s(ARTIX_SPI_DATA := data, ARTIX_SPI_ADDR := addr, ARTIX_SPI_WE := 0)"
  by (simp add: spi_write_def)

lemma wait_us_spi_write [simp]: "wait_us (spi_write addr data) = 0" "length (spi_write addr data) = 4"
  by (simp_all add: spi_write_def)

section \<open>Interface of a register operation\<close>

text \<open>
  What a caller may rely on for an operation on the register block: the set of registers it can
  write, and that it leaves the strobe and pulse lines at rest.
\<close>

locale reg_op =
  fixes oper :: "'a \<Rightarrow> mmio list"
    and regs :: "pl_reg set"
  assumes footprint: "Out32 r v \<in> set (oper x) \<Longrightarrow> r \<in> regs"
    and rests: "quiescent s \<Longrightarrow> quiescent (reg_run (oper x) s)"
begin

lemma frame: "r \<notin> regs \<Longrightarrow> reg_run (oper x) s r = s r"
  using footprint by (blast intro: reg_run_other)

lemma rests_all: "quiescent s \<Longrightarrow> quiescent (reg_run (concat (map oper xs)) s)"
  by (induction xs arbitrary: s) (auto intro: rests)

lemma frame_all: "r \<notin> regs \<Longrightarrow> reg_run (concat (map oper xs)) s r = s r"
  by (induction xs arbitrary: s) (auto simp: frame)

end

interpretation spiw: reg_op "\<lambda>(a, d). spi_write a d" "{ARTIX_SPI_DATA, ARTIX_SPI_ADDR, ARTIX_SPI_WE}"
  by unfold_locales (auto simp: quiescent_def)

section \<open>Properties of the register map\<close>

text \<open>
  The software's register map is well formed: the registers have different, word-aligned
  offsets inside the first 512 bytes of the block.
\<close>

theorem pl_offset_wellformed:
  "inj pl_offset \<and> (\<forall>r. unat (pl_offset r) mod 4 = 0 \<and> unat (pl_offset r) < 512)"
proof -
  have "r = r'" if "pl_offset r = pl_offset r'" for r r'
    using that by (cases r; cases r') simp_all
  moreover have "unat (pl_offset r) mod 4 = 0 \<and> unat (pl_offset r) < 512" for r
    by (cases r) simp_all
  ultimately show ?thesis by (auto intro: injI)
qed

text \<open>
  The software's map and the hardware description agree on every register except the four
  time stamp registers, where seconds and nanoseconds are exchanged: what \<open>pl_regs.h\<close> calls
  seconds is read at the address of the nanoseconds field, and the other way round.
\<close>

theorem pl_offset_vs_rdl:
  "{r. pl_offset r \<noteq> rdl_offset r} =
     {EVR_TS_S_REG, EVR_TS_NS_REG, EVR_TS_S_LAT_REG, EVR_TS_NS_LAT_REG}
   \<and> pl_offset EVR_TS_S_REG = rdl_offset EVR_TS_NS_REG
   \<and> pl_offset EVR_TS_NS_REG = rdl_offset EVR_TS_S_REG
   \<and> pl_offset EVR_TS_S_LAT_REG = rdl_offset EVR_TS_NS_LAT_REG
   \<and> pl_offset EVR_TS_NS_LAT_REG = rdl_offset EVR_TS_S_LAT_REG"
proof -
  have "pl_offset r \<noteq> rdl_offset r \<longleftrightarrow>
      r \<in> {EVR_TS_S_REG, EVR_TS_NS_REG, EVR_TS_S_LAT_REG, EVR_TS_NS_LAT_REG}" for r
    by (cases r) simp_all
  then show ?thesis by auto
qed

end
