(* ===== verification/Control.thy ===== *)
theory Control
  imports Mmio
begin

text \<open>
  The control messages, \<open>src/sw/src/control.c\<close> and \<open>control.h\<close>: register settings (message 1),
  EEPROM settings of the Artix front end (message 2) and the ADC table (message 3). Each handler
  is the list of its register accesses; a handler that reads the message buffer returns \<open>None\<close>
  when it would read outside it. The switch on the message offset is \<open>reg_switch\<close>.

  The Artix EEPROM is reached through two SPI registers: \<open>EEPROM_WRDATA\<close> takes a command word
  and \<open>EEPROM_TRIG\<close> starts it. \<open>eeprom_cmds\<close> reads the commands off the frames, and
  \<open>eeprom_store32\<close> is the reference for storing one 32-bit setting.
\<close>

section \<open>Constants\<close>

abbreviation (input) EEPROM_WRDATA :: u32 where "EEPROM_WRDATA \<equiv> 0x51"
abbreviation (input) EEPROM_TRIG :: u32 where "EEPROM_TRIG \<equiv> 0x50"
abbreviation (input) EEPROM_READALL :: u32 where "EEPROM_READALL \<equiv> 0x52"

abbreviation (input) EEPROM_OPCODE_WREN :: u32 where "EEPROM_OPCODE_WREN \<equiv> 6"
abbreviation (input) EEPROM_OPCODE_WRITE :: u32 where "EEPROM_OPCODE_WRITE \<equiv> 2"

abbreviation (input) ADC_TABLE :: u32 where "ADC_TABLE \<equiv> 0x60"

abbreviation (input) EVR_EVENT_NO_MSG :: u32 where "EVR_EVENT_NO_MSG \<equiv> 0"
abbreviation (input) EVR_EVENT_DLY_MSG :: u32 where "EVR_EVENT_DLY_MSG \<equiv> 4"
abbreviation (input) LATCH_RESET_MSG :: u32 where "LATCH_RESET_MSG \<equiv> 8"
abbreviation (input) ACIS_FORCE_TRIP_MSG :: u32 where "ACIS_FORCE_TRIP_MSG \<equiv> 16"
abbreviation (input) ACIS_KEYLOCK_MSG :: u32 where "ACIS_KEYLOCK_MSG \<equiv> 20"
abbreviation (input) FP_LED_MSG :: u32 where "FP_LED_MSG \<equiv> 12"
abbreviation (input) SOFT_TRIG_MSG :: u32 where "SOFT_TRIG_MSG \<equiv> 50"

section \<open>Operations\<close>

definition set_fpleds :: "u32 \<Rightarrow> mmio list" where
  "set_fpleds msgVal = [Out32 FP_LEDS_REG msgVal]"

text \<open>One round of the loop of \<open>write_adc_table\<close>, and the loop from index \<open>i\<close> on.\<close>

definition adc_table_entry :: "u32 \<Rightarrow> u32 \<Rightarrow> mmio list" where
  "adc_table_entry i word =
     (let spi_data = htonl word; spi_addr = push_bit 16 i OR ADC_TABLE
      in spi_write spi_addr spi_data @ [Delay 50])"

function adc_table_loop :: "bytes \<Rightarrow> u32 \<Rightarrow> u32 \<Rightarrow> mmio list option" where
  "adc_table_loop msg i table_len =
     (if i < table_len
      then (case load32 msg (4 * unat i) of
              None \<Rightarrow> None
            | Some word \<Rightarrow> map_option ((@) (adc_table_entry i word)) (adc_table_loop msg (i + 1) table_len))
      else Some [])"
  by pat_completeness auto
termination
  by (relation "measure (\<lambda>(msg, i, table_len). unat (table_len - i))") (auto intro: unat_diff_plus_1_less)

declare adc_table_loop.simps [simp del]

definition write_adc_table :: "bytes \<Rightarrow> u32 \<Rightarrow> mmio list option" where
  "write_adc_table msg msglen =
     (let table_len = msglen div 4
      in if 16000 < table_len then Some [] else adc_table_loop msg 0 table_len)"

definition set_eventno :: "u32 \<Rightarrow> mmio list" where
  "set_eventno msgVal = []"

definition read_artix_eeprom_settings :: "mmio list" where
  "read_artix_eeprom_settings = spi_write EEPROM_READALL 1 @ [Delay 5000]"

definition write_artix_eeprom :: "u32 \<Rightarrow> s32 \<Rightarrow> mmio list" where
  "write_artix_eeprom addr data =
     spi_write addr data @ [Delay 5000] @ spi_write EEPROM_TRIG 1 @ [Delay 10000]"

text \<open>
  \<open>eeprom_settings\<close> stores the four bytes of the setting one after the other, each preceded by
  a write-enable command; \<open>eeprom_addr\<close> is incremented after every byte.
\<close>

definition eeprom_write_byte :: "u32 \<Rightarrow> u32 \<Rightarrow> mmio list" where
  "eeprom_write_byte eeprom_addr eeprom_data =
     write_artix_eeprom EEPROM_WRDATA (push_bit 24 EEPROM_OPCODE_WREN)
     @ write_artix_eeprom EEPROM_WRDATA
         (push_bit 24 EEPROM_OPCODE_WRITE OR push_bit 8 eeprom_addr OR eeprom_data)"

definition eeprom_store :: "u32 \<Rightarrow> s32 \<Rightarrow> mmio list" where
  "eeprom_store eeprom_addr msg_data =
     eeprom_write_byte eeprom_addr (drop_bit 24 (msg_data AND 0xFF000000))
     @ eeprom_write_byte (eeprom_addr + 1) (drop_bit 16 (msg_data AND 0x00FF0000))
     @ eeprom_write_byte (eeprom_addr + 2) (drop_bit 8 (msg_data AND 0x0000FF00))
     @ eeprom_write_byte (eeprom_addr + 3) (msg_data AND 0x000000FF)
     @ read_artix_eeprom_settings"

definition eeprom_settings :: "bytes \<Rightarrow> mmio list option" where
  "eeprom_settings msg =
     (case (load32 msg 0, load32 msg 4) of
        (Some w0, Some w1) \<Rightarrow> Some (eeprom_store (htonl w0) (htonl w1))
      | _ \<Rightarrow> None)"

definition soft_trig_artix :: "mmio list" where
  "soft_trig_artix = spi_write 0 1"

definition latch_reset_trig :: "u32 \<Rightarrow> mmio list" where
  "latch_reset_trig msgVal =
     (if msgVal = 1 then [Out32 LATCH_RESET 0, Delay 1000000, Out32 LATCH_RESET 1] else [])"

definition Acis_ForceTrip :: "u32 \<Rightarrow> mmio list" where
  "Acis_ForceTrip msgVal =
     (if msgVal = 1 then [Out32 ACIS_FORCE_TRIP 0, Delay 1000000, Out32 ACIS_FORCE_TRIP 1] else [])"

definition Acis_Keylock :: "u32 \<Rightarrow> mmio list" where
  "Acis_Keylock msgVal = (if msgVal = 1 then [Out32 ACIS_KEYLOCK msgVal] else [])"

definition reg_switch :: "u32 \<Rightarrow> u32 \<Rightarrow> mmio list" where
  "reg_switch addr data =
     (if addr = FP_LED_MSG then set_fpleds data
      else if addr = SOFT_TRIG_MSG then []
      else if addr = EVR_EVENT_NO_MSG then [Out32 EVR_FE_TRIGNUM_REG data]
      else if addr = EVR_EVENT_DLY_MSG then [Out32 EVR_FE_TRIGDLY_REG data]
      else if addr = LATCH_RESET_MSG then latch_reset_trig data
      else if addr = ACIS_FORCE_TRIP_MSG then Acis_ForceTrip data
      else if addr = ACIS_KEYLOCK_MSG then Acis_Keylock data
      else [])"

definition reg_settings :: "bytes \<Rightarrow> mmio list option" where
  "reg_settings msg =
     (case (load32 msg 0, load32 msg 4) of
        (Some w0, Some w1) \<Rightarrow> Some (reg_switch (htonl w0) (htonl w1))
      | _ \<Rightarrow> None)"

section \<open>The operations as register operations\<close>

abbreviation SPI_REGS :: "pl_reg set" where
  "SPI_REGS \<equiv> {ARTIX_SPI_DATA, ARTIX_SPI_ADDR, ARTIX_SPI_WE}"

abbreviation SETTING_REGS :: "pl_reg set" where
  "SETTING_REGS \<equiv> {FP_LEDS_REG, EVR_FE_TRIGNUM_REG, EVR_FE_TRIGDLY_REG,
                    LATCH_RESET, ACIS_FORCE_TRIP, ACIS_KEYLOCK}"

lemmas eeprom_defs = eeprom_store_def eeprom_write_byte_def write_artix_eeprom_def
  read_artix_eeprom_settings_def

lemmas setting_defs = reg_switch_def set_fpleds_def latch_reset_trig_def Acis_ForceTrip_def
  Acis_Keylock_def

interpretation eeprom_store: reg_op "\<lambda>(a, d). eeprom_store a d" SPI_REGS
  by unfold_locales (auto simp: eeprom_defs quiescent_def)

interpretation adc_entry: reg_op "\<lambda>(i, w). adc_table_entry i w" SPI_REGS
  by unfold_locales (auto simp: adc_table_entry_def Let_def quiescent_def)

interpretation soft_trig: reg_op "\<lambda>_. soft_trig_artix" SPI_REGS
  by unfold_locales (auto simp: soft_trig_artix_def quiescent_def)

interpretation setting: reg_op "\<lambda>(a, d). reg_switch a d" SETTING_REGS
  by unfold_locales (auto simp: setting_defs quiescent_def split: if_splits)

section \<open>EEPROM commands\<close>

datatype eeprom_cmd = WREN | WRITE u16 u8 | READALL | OTHER u32

text \<open>A command word of the CAT25320: opcode in the top byte, then a 16-bit address and a byte.\<close>

definition eeprom_cmd_of :: "u32 \<Rightarrow> eeprom_cmd" where
  "eeprom_cmd_of x =
     (if drop_bit 24 x = EEPROM_OPCODE_WREN then WREN
      else if drop_bit 24 x = EEPROM_OPCODE_WRITE then WRITE (ucast (drop_bit 8 x)) (ucast x)
      else OTHER x)"

fun eeprom_cmds :: "u32 \<Rightarrow> (u32 \<times> u32) list \<Rightarrow> eeprom_cmd list" where
  "eeprom_cmds wrdata [] = []"
| "eeprom_cmds wrdata ((a, d) # fs) =
     (if a = EEPROM_WRDATA then eeprom_cmds d fs
      else if a = EEPROM_TRIG then eeprom_cmd_of wrdata # eeprom_cmds wrdata fs
      else if a = EEPROM_READALL then READALL # eeprom_cmds wrdata fs
      else eeprom_cmds wrdata fs)"

text \<open>Reference: enable and write each byte, most significant first, then reload the settings.\<close>

definition eeprom_store32 :: "u16 \<Rightarrow> u32 \<Rightarrow> eeprom_cmd list" where
  "eeprom_store32 addr data =
     concat (map (\<lambda>i. [WREN, WRITE (addr + of_nat i) (be32 data ! i)]) [0, 1, 2, 3]) @ [READALL]"

lemma take_bit_31_small [simp]:
  "take_bit 31 (0x50::u32) = 0x50" "take_bit 31 (0x51::u32) = 0x51" "take_bit 31 (0x52::u32) = 0x52"
  by (simp_all add: take_bit_eq_mod)

lemma eeprom_cmd_of_WREN [simp]: "eeprom_cmd_of 0x6000000 = WREN"
  by (simp add: eeprom_cmd_of_def)

lemma cmd_word_fields:
  fixes op addr :: u32 and a :: u16 and b :: u8
  shows "ucast (drop_bit 8 (push_bit 24 op OR push_bit 8 (ucast a) OR ucast b)) = a"
    and "ucast (push_bit 24 op OR push_bit 8 (ucast a) OR ucast b) = b"
    and "drop_bit 24 (push_bit 24 op OR push_bit 8 (ucast a) OR ucast b) = take_bit 8 op"
  by (auto intro!: bit_word_eqI simp: bit_simps)

lemma eeprom_cmd_of_WRITE:
  "eeprom_cmd_of (push_bit 24 EEPROM_OPCODE_WRITE OR push_bit 8 (ucast (a::u16)) OR ucast (b::u8)) = WRITE a b"
  unfolding eeprom_cmd_of_def cmd_word_fields by (simp add: take_bit_eq_mod)

text \<open>One byte: whatever was pending, the EEPROM sees a write-enable and then the write.\<close>

lemma eeprom_cmds_write_byte:
  "eeprom_cmds w (spi_frames x y (eeprom_write_byte (ucast (a::u16)) (ucast (b::u8)) @ es)) =
     [WREN, WRITE a b] @
     eeprom_cmds (push_bit 24 EEPROM_OPCODE_WRITE OR push_bit 8 (ucast a) OR ucast b)
       (spi_frames EEPROM_TRIG 1 es)"
  using eeprom_cmd_of_WRITE [of a b]
  by (simp add: eeprom_write_byte_def write_artix_eeprom_def)

lemma byte_of_masked:
  fixes d :: u32
  shows "drop_bit 24 (d AND 0xFF000000) = ucast (ucast (drop_bit 24 d) :: u8)"
    and "drop_bit 16 (d AND 0x00FF0000) = ucast (ucast (drop_bit 16 d) :: u8)"
    and "drop_bit 8 (d AND 0x0000FF00) = ucast (ucast (drop_bit 8 d) :: u8)"
    and "d AND 0x000000FF = ucast (ucast d :: u8)"
proof -
  have m: "(0xFF000000::u32) = push_bit 24 (mask 8)" "(0x00FF0000::u32) = push_bit 16 (mask 8)"
    "(0x0000FF00::u32) = push_bit 8 (mask 8)" "(0x000000FF::u32) = mask 8"
    by (simp_all add: mask_eq_exp_minus_1)
  show "drop_bit 24 (d AND 0xFF000000) = ucast (ucast (drop_bit 24 d) :: u8)"
    unfolding m by (rule bit_word_eqI) (auto simp: bit_push_bit_iff bit_and_iff bit_drop_bit_eq bit_mask_iff bit_ucast_iff dest: bit_imp_le_length)
  show "drop_bit 16 (d AND 0x00FF0000) = ucast (ucast (drop_bit 16 d) :: u8)"
    unfolding m by (rule bit_word_eqI) (auto simp: bit_push_bit_iff bit_and_iff bit_drop_bit_eq bit_mask_iff bit_ucast_iff dest: bit_imp_le_length)
  show "drop_bit 8 (d AND 0x0000FF00) = ucast (ucast (drop_bit 8 d) :: u8)"
    unfolding m by (rule bit_word_eqI) (auto simp: bit_push_bit_iff bit_and_iff bit_drop_bit_eq bit_mask_iff bit_ucast_iff dest: bit_imp_le_length)
  show "d AND 0x000000FF = ucast (ucast d :: u8)"
    unfolding m by (rule bit_word_eqI) (auto simp: bit_and_iff bit_mask_iff bit_ucast_iff dest: bit_imp_le_length)
qed

lemma eeprom_store_refines_store32:
  assumes "unat addr + 3 < 2 ^ 16"
  shows "eeprom_cmds w (spi_frames x y (eeprom_store addr data)) = eeprom_store32 (ucast addr) data"
proof -
  define a :: u16 where "a = ucast addr"
  have step: "addr + of_nat i = ucast (a + of_nat i)" if "i < 4" for i :: nat
  proof -
    have "a + of_nat i = of_nat (unat addr + i)" "addr + of_nat i = of_nat (unat addr + i)"
      by (simp_all add: a_def)
    then show ?thesis
      using that assms ucast_of_nat_u16 [of "unat addr + i"] by simp
  qed
  have "eeprom_store addr data =
      eeprom_write_byte (ucast a) (ucast (ucast (drop_bit 24 data) :: u8))
      @ eeprom_write_byte (ucast (a + 1)) (ucast (ucast (drop_bit 16 data) :: u8))
      @ eeprom_write_byte (ucast (a + 2)) (ucast (ucast (drop_bit 8 data) :: u8))
      @ eeprom_write_byte (ucast (a + 3)) (ucast (ucast data :: u8))
      @ read_artix_eeprom_settings"
    using step [of 0] step [of 1] step [of 2] step [of 3]
    unfolding eeprom_store_def byte_of_masked by simp
  then show ?thesis
    by (simp add: eeprom_cmds_write_byte eeprom_store32_def be32_bytes
        read_artix_eeprom_settings_def flip: a_def)
qed

text \<open>
  C14. Storing an EEPROM setting (message 2) refines the reference: for an address that fits the
  EEPROM, the commands that reach it are exactly write-enable and write for each of the four
  bytes, big-endian at consecutive addresses, followed by one reload; a write-enable before every
  single write, whatever command was pending in the SPI registers before.
\<close>

theorem eeprom_settings_refines_store32:
  assumes "unat addr + 3 < 2 ^ 16" "msg = be32 addr @ be32 data @ rest"
  shows "\<exists>es. eeprom_settings msg = Some es
           \<and> eeprom_cmds w (spi_frames x y es) = eeprom_store32 (ucast addr) data"
proof -
  have "eeprom_settings msg = Some (eeprom_store addr data)"
    using assms(2) by (simp add: eeprom_settings_def load32_def be32_def)
  with eeprom_store_refines_store32 [OF assms(1)] show ?thesis by simp
qed

theorem eeprom_settings_refines_store32_witness:
  "\<exists>es. eeprom_settings (be32 0x2C @ be32 0x01020304 @ []) = Some es
     \<and> eeprom_cmds 0 (spi_frames 0 0 es) =
         [WREN, WRITE 0x2C 1, WREN, WRITE 0x2D 2, WREN, WRITE 0x2E 3, WREN, WRITE 0x2F 4, READALL]"
proof -
  have "be32 0x01020304 = [1, 2, 3, 4]" by (simp add: be32_bytes)
  then show ?thesis
    using eeprom_settings_refines_store32 [of "0x2C" "be32 0x2C @ be32 0x01020304 @ []" "0x01020304" "[]" 0 0 0]
    by (simp add: eeprom_store32_def)
qed

text \<open>
  The EEPROM address is not checked against the 16-bit address field: bits 16 and up of it are
  added into the opcode. With address \<open>0x40000\<close> every write becomes a write-enable, and no byte
  is stored whatever the setting.
\<close>

theorem eeprom_address_corrupts_opcode:
  "eeprom_cmds w (spi_frames x y (eeprom_store 0x40000 data)) =
     [WREN, WREN, WREN, WREN, WREN, WREN, WREN, WREN, READALL]"
proof -
  have wren: "eeprom_cmd_of (push_bit 24 EEPROM_OPCODE_WRITE OR push_bit 8 (0x40000 + k) OR ucast (b::u8)) = WREN"
    if "k \<in> {0, 1, 2, 3}" for k :: u32 and b
  proof -
    have "drop_bit 24 (ucast b :: u32) = 0"
      by (auto intro!: bit_word_eqI simp: bit_simps)
    with that have "drop_bit 24 (push_bit 24 EEPROM_OPCODE_WRITE OR push_bit 8 (0x40000 + k) OR ucast b) =
        EEPROM_OPCODE_WREN"
      by auto
    then show ?thesis by (simp add: eeprom_cmd_of_def)
  qed
  show ?thesis
    unfolding eeprom_store_def byte_of_masked eeprom_write_byte_def write_artix_eeprom_def
      read_artix_eeprom_settings_def
    using wren [of 0] wren [of 1] wren [of 2] wren [of 3] by simp
qed

section \<open>ADC table\<close>

text \<open>The SPI address of a table entry has its index above bit 15 and stays within 31 bits.\<close>

lemma take_bit_31_adc_addr:
  assumes "i < 16000"
  shows "take_bit 31 (push_bit 16 i OR ADC_TABLE) = push_bit 16 i OR ADC_TABLE"
proof -
  have "take_bit 15 i = i"
    using assms by (simp add: word_unat_eq_iff unsigned_take_bit_eq take_bit_nat_eq_self word_less_nat_alt)
  then have "take_bit 31 (push_bit 16 i) = push_bit 16 i"
    by (simp add: take_bit_push_bit)
  moreover have "take_bit 31 ADC_TABLE = ADC_TABLE"
    by (simp add: take_bit_eq_mod)
  ultimately show ?thesis by (simp add: take_bit_or)
qed

definition adc_frame :: "bytes \<Rightarrow> nat \<Rightarrow> u32 \<times> u32" where
  "adc_frame msg i = (push_bit 16 (of_nat i) OR ADC_TABLE, rd32 (drop (4 * i) msg))"

lemma adc_table_loop_frames:
  assumes "unat n \<le> 16000" "4 * unat n \<le> length msg" "i \<le> n"
  shows "\<exists>es. adc_table_loop msg i n = Some es
           \<and> (\<forall>a d. spi_frames a d es = map (adc_frame msg) [unat i..<unat n])"
  using assms
proof (induction msg i n rule: adc_table_loop.induct)
  case (1 msg i n)
  show ?case
  proof (cases "i < n")
    case False
    with "1.prems" show ?thesis by (simp add: adc_table_loop.simps)
  next
    case True
    then have i: "unat i < unat n" "unat (i + 1) = Suc (unat i)" "i + 1 \<le> n" "i < 16000"
      using unat_plus_1_below [of i n] "1.prems"(1) by (auto simp: word_less_nat_alt word_le_nat_alt)
    then have load: "load32 msg (4 * unat i) = Some (get32 (drop (4 * unat i) msg))"
      using "1.prems"(2) by (intro load32_Some) linarith
    obtain es where es: "adc_table_loop msg (i + 1) n = Some es"
      "\<And>a d. spi_frames a d es = map (adc_frame msg) [unat (i + 1)..<unat n]"
      using "1.IH" [OF True load "1.prems"(1,2) i(3)] by blast
    have "[unat i..<unat n] = unat i # [unat (i + 1)..<unat n]"
      using i by (simp add: upt_conv_Cons)
    with True load es take_bit_31_adc_addr [OF i(4)] show ?thesis
      by (simp add: adc_table_loop.simps [of msg i] adc_table_entry_def adc_frame_def rd32_def Let_def)
  qed
qed

text \<open>
  C21. The ADC table message: a table of up to 16000 words, all inside the buffer, is written as one
  SPI frame per word, in order, word \<open>i\<close> of the message (big-endian) to table index \<open>i\<close>; a longer
  table is refused and nothing is written.
\<close>

theorem write_adc_table_frames:
  assumes "unat msglen \<le> length msg"
  shows "if unat msglen div 4 \<le> 16000
         then \<exists>es. write_adc_table msg msglen = Some es
                \<and> spi_frames a d es = map (adc_frame msg) [0..<unat msglen div 4]
         else write_adc_table msg msglen = Some []"
proof -
  have len: "unat (msglen div 4) = unat msglen div 4"
    by (simp add: unat_div)
  have "4 * unat (msglen div 4) \<le> length msg"
    using assms len by linarith
  then show ?thesis
    using adc_table_loop_frames [of "msglen div 4" msg 0] len
    by (auto simp: write_adc_table_def Let_def word_less_nat_alt)
qed

theorem write_adc_table_frames_witness:
  "\<exists>es. write_adc_table [0, 0, 0, 7, 0, 0, 1, 0, 0xFF] 9 = Some es
     \<and> spi_frames 0 0 es = [(0x60, 7), (0x10060, 0x100)]"
  using write_adc_table_frames [of 9 "[0, 0, 0, 7, 0, 0, 1, 0, 0xFF]" 0 0]
  by (simp add: adc_frame_def upt_rec rd32_def htonl_def get32.simps put32.simps)

end
