(* ===== verification/App.thy ===== *)
theory App
  imports Listener Control
begin

text \<open>
  The application, \<open>src/sw/src/main.c\<close>: what a new client is told, the dispatch of a received
  message to its handler, the register accesses of \<open>main\<close> and the order in which \<open>realmain\<close> and
  \<open>on_startup\<close> start the parts of the program; and how long a message can take. Of the firmware version and the time stamps printed at boot,
  the registers read are modelled; the drivers initialised at boot have their own theories.

  \<open>client_msg\<close> gets the whole receive buffer of the client, as the C code does: a handler that reads
  beyond the received length reads what an earlier message left there.
\<close>

section \<open>Callbacks of the server\<close>

definition client_event ::
  "'w send_fn \<Rightarrow> ('w \<Rightarrow> int \<Rightarrow> 'w) \<Rightarrow> u32 \<Rightarrow> psc_event \<Rightarrow> nat \<Rightarrow> psc_key \<times> 'w \<Rightarrow> (psc_key \<times> 'w) option" where
  "client_event send close git_hash evt c kw =
     (if evt \<noteq> PSC_CONN then Some kw
      else psc_send_one send close c 0x100 8 (put32 (htonl git_hash) @ put32 0) kw)"

text \<open>Case 3 falls through to the ping, which does nothing.\<close>

definition client_msg :: "u16 \<Rightarrow> u32 \<Rightarrow> bytes \<Rightarrow> mmio list option" where
  "client_msg msgid msglen msg =
     (if msgid = 1 then reg_settings msg
      else if msgid = 2 then eeprom_settings msg
      else if msgid = 3 then write_adc_table msg msglen
      else Some [])"

text \<open>The receive callback with the accesses made so far as the application state.\<close>

definition client_cb :: "u16 \<Rightarrow> u32 \<Rightarrow> bytes \<Rightarrow> mmio list \<Rightarrow> mmio list option" where
  "client_cb msgid msglen msg done = map_option ((@) done) (client_msg msgid msglen msg)"

section \<open>Start-up\<close>

text \<open>The register writes and waits of \<open>main\<close> between the oscillator set-up and the scheduler.\<close>

definition main_regs :: "mmio list" where
  "main_regs =
     [Out32 EVR_FE_TRIGNUM_REG 32, Out32 EVR_FE_TRIGDLY_REG 1000,
      Out32 EVR_RST_REG 1, Delay 100, Out32 EVR_RST_REG 0, Delay 100]
     @ replicate 5 (Delay 1000000)"

text \<open>The values \<open>print_firmware_version\<close> shows; \<open>date\<close> is \<open>localtime\<close> and \<open>strftime\<close> on the time of compilation.\<close>

definition print_firmware_version :: "(pl_reg \<Rightarrow> u32) \<Rightarrow> (u32 \<Rightarrow> 't) \<Rightarrow> (string \<times> u32) list \<times> 't" where
  "print_firmware_version in32 date =
     ([(''Module ID Number'', in32 MOD_ID_NUM), (''Module Version Number'', in32 MOD_ID_VER),
       (''Project ID Number'', in32 PROJ_ID_NUM), (''Project Version Number'', in32 PROJ_ID_VER),
       (''Git Checksum'', in32 GIT_SHASUM)],
      date (in32 COMPILE_TIMESTAMP))"

text \<open>The time stamps \<open>main\<close> reads and prints, one pair a second.\<close>

fun main_timestamps :: "nat \<Rightarrow> ('h \<Rightarrow> pl_reg \<Rightarrow> u32 \<times> 'h) \<Rightarrow> 'h \<Rightarrow> (u32 \<times> u32) list \<times> 'h" where
  "main_timestamps 0 in32 h = ([], h)"
| "main_timestamps (Suc n) in32 h =
     (let (ts_s, h1) = in32 h EVR_TS_S_REG;
          (ts_ns, h2) = in32 h1 EVR_TS_NS_REG;
          (ts, h3) = main_timestamps n in32 h2
      in ((ts_s, ts_ns) # ts, h3))"

datatype boot_step =
    Print_firmware_version | Init_i2c | Wait nat | Write_lmk61e2 | Main_regs | Start_main
  | Sdcard_handle | Net_setup | Discover_setup | Psc_run | Lstats_setup | Wvfmdata_setup | Console_setup

definition on_startup :: "boot_step list" where
  "on_startup = [Lstats_setup, Wvfmdata_setup, Console_setup]"

text \<open>\<open>psc_run\<close> calls \<open>on_startup\<close> once the server pointer is set.\<close>

definition realmain :: "boot_step list" where
  "realmain = [Sdcard_handle, Net_setup, Discover_setup, Psc_run] @ on_startup"

definition main_boot :: "boot_step list" where
  "main_boot = [Print_firmware_version, Init_i2c, Wait 1000, Write_lmk61e2, Wait 1000000, Main_regs, Start_main] @ realmain"

section \<open>Messages and registers\<close>

abbreviation CLIENT_REGS :: "pl_reg set" where
  "CLIENT_REGS \<equiv> SPI_REGS \<union> SETTING_REGS"

text \<open>What any handler does to the registers: only the client's registers, and the lines at rest.\<close>

definition restful :: "mmio list \<Rightarrow> bool" where
  "restful es \<longleftrightarrow> (\<forall>r v. Out32 r v \<in> set es \<longrightarrow> r \<in> CLIENT_REGS)
     \<and> (\<forall>s. quiescent s \<longrightarrow> quiescent (reg_run es s))"

lemma restful_Nil [simp]: "restful []"
  by (simp add: restful_def)

lemma restful_append [intro]: "restful xs \<Longrightarrow> restful ys \<Longrightarrow> restful (xs @ ys)"
  by (auto simp: restful_def)

lemma restful_eeprom_store: "restful (eeprom_store a d)"
  using eeprom_store.footprint [of _ _ "(a, d)"] eeprom_store.rests [of _ "(a, d)"]
  by (auto simp: restful_def)

lemma restful_reg_switch: "restful (reg_switch a d)"
  using setting.footprint [of _ _ "(a, d)"] setting.rests [of _ "(a, d)"]
  by (auto simp: restful_def)

lemma restful_adc_entry: "restful (adc_table_entry i w)"
  using adc_entry.footprint [of _ _ "(i, w)"] adc_entry.rests [of _ "(i, w)"]
  by (auto simp: restful_def)

lemma restful_adc_loop: "adc_table_loop msg i n = Some es \<Longrightarrow> restful es"
proof (induction msg i n arbitrary: es rule: adc_table_loop.induct)
  case (1 msg i n)
  then show ?case
    by (auto simp: adc_table_loop.simps [of msg i] restful_adc_entry split: if_splits option.splits)
qed

lemma client_msg_restful: "client_msg mid len msg = Some es \<Longrightarrow> restful es"
  by (auto simp: client_msg_def reg_settings_def eeprom_settings_def write_adc_table_def Let_def
      intro: restful_adc_loop restful_eeprom_store restful_reg_switch split: if_splits option.splits)

lemma client_msg_defined:
  assumes "8 \<le> length msg" "unat len \<le> length msg"
  shows "\<exists>es. client_msg mid len msg = Some es"
proof -
  have n: "4 * unat (len div 4) \<le> length msg"
    using assms(2) by (simp add: unat_div)
  have "\<exists>es. write_adc_table msg len = Some es"
  proof (cases "16000 < len div 4")
    case False
    then have "unat (len div 4) \<le> 16000" by (simp add: word_less_nat_alt)
    with adc_table_loop_frames [OF this n, of 0] show ?thesis
      by (auto simp: write_adc_table_def Let_def)
  qed (simp add: write_adc_table_def Let_def)
  with assms(1) show ?thesis
    by (auto simp: client_msg_def reg_settings_def eeprom_settings_def load32_def)
qed

text \<open>
  C13. No message, well-formed or not, makes the dispatch read outside the receive buffer or write a
  register other than the SPI, LED, trigger, latch and trip registers; and every message leaves the
  SPI strobe low and the latch-reset and force-trip lines inactive.
\<close>

theorem client_msg_safe:
  assumes "length msg = RXBUF_SIZE" "unat msglen \<le> RXBUF_SIZE"
  shows "\<exists>es. client_msg msgid msglen msg = Some es
           \<and> (\<forall>r v. Out32 r v \<in> set es \<longrightarrow> r \<in> CLIENT_REGS)
           \<and> (\<forall>s. quiescent s \<longrightarrow> quiescent (reg_run es s))"
proof -
  have "8 \<le> length msg" "unat msglen \<le> length msg"
    using assms by (simp_all add: RXBUF_SIZE_def)
  with client_msg_defined client_msg_restful show ?thesis
    unfolding restful_def by meson
qed

theorem client_msg_safe_witness:
  "\<exists>es. client_msg 3 4 (replicate RXBUF_SIZE 0) = Some es \<and> (\<forall>s. quiescent s \<longrightarrow> quiescent (reg_run es s))"
  using client_msg_safe [of "replicate RXBUF_SIZE 0" 4 3] by (auto simp: RXBUF_SIZE_def)

text \<open>
  The effect of a register message, from its offset and value: the reference for message 1.
\<close>

definition setting_effect :: "u32 \<Rightarrow> u32 \<Rightarrow> (pl_reg \<Rightarrow> u32) \<Rightarrow> (pl_reg \<Rightarrow> u32)" where
  "setting_effect addr data s =
     (if addr = 0 then s(EVR_FE_TRIGNUM_REG := data)
      else if addr = 4 then s(EVR_FE_TRIGDLY_REG := data)
      else if addr = 12 then s(FP_LEDS_REG := data)
      else if addr = 20 \<and> data = 1 then s(ACIS_KEYLOCK := 1)
      else s)"

lemma reg_switch_effect:
  assumes "quiescent s"
  shows "reg_run (reg_switch addr data) s = setting_effect addr data s"
proof -
  have "s(LATCH_RESET := 1) = s" "s(ACIS_FORCE_TRIP := 1) = s"
    using assms by (auto simp: quiescent_def)
  moreover have "s(LATCH_RESET := 0, LATCH_RESET := 1) = s(LATCH_RESET := 1)"
    "s(ACIS_FORCE_TRIP := 0, ACIS_FORCE_TRIP := 1) = s(ACIS_FORCE_TRIP := 1)"
    by simp_all
  ultimately show ?thesis by (auto simp: setting_defs setting_effect_def)
qed



text \<open>
  The handlers of messages 1 and 2 do not look at the received length: an empty message 1 repeats
  the register setting of the message before it.
\<close>

theorem empty_message_repeats_setting:
  assumes "length buf = RXBUF_SIZE"
  shows "\<exists>buf'. deliver client_cb [(1, be32 addr @ be32 data), (1, [])] buf [] =
           Some (buf', reg_switch addr data @ reg_switch addr data)"
proof -
  have "8 \<le> RXBUF_SIZE" by (simp add: RXBUF_SIZE_def)
  then show ?thesis
    using assms
    by (simp add: client_cb_def client_msg_def reg_settings_def load32_def Let_def buf_write_def be32_def)
qed

theorem empty_message_repeats_setting_witness:
  "\<exists>buf'. deliver client_cb [(1, be32 8 @ be32 1), (1, [])] (replicate RXBUF_SIZE 0) [] =
     Some (buf', reg_switch 8 1 @ reg_switch 8 1)"
  using empty_message_repeats_setting [of "replicate RXBUF_SIZE 0" 8 1] by simp

text \<open>
  A client that connects is sent one message 0x100 with the git hash in network order and a zero
  serial number, on its own socket only.
\<close>

theorem client_event_greets:
  assumes "send_contract send sent" "close_contract close sent" "sock (clients key ! c) \<noteq> -1" "has_PSC (clients key ! c)"
  shows "\<exists>k key' w'. client_event send close git_hash PSC_CONN c (key, w) = Some (key', w')
           \<and> sent w' = (sent w)(sock (clients key ! c) :=
                sent w (sock (clients key ! c)) @ take k (psc_frame 0x100 (be32 git_hash @ [0, 0, 0, 0])))
           \<and> k \<le> 16 \<and> (k = 16 \<longrightarrow> key' = key)
           \<and> client_event send close git_hash PSC_DIS c (key, w) = Some (key, w)"
proof -
  let ?msg = "put32 (htonl git_hash) @ put32 0"
  have msg: "?msg = be32 git_hash @ [0, 0, 0, 0]" "take 8 ?msg = ?msg" "length ?msg = 8"
    by (simp_all add: be32_def put32.simps [of 0])
  obtain k w' where k: "k \<le> length (psc_frame 0x100 (take (unat (8::u32)) ?msg))"
    "sent w' = (sent w)(sock (clients key ! c) :=
       sent w (sock (clients key ! c)) @ take k (psc_frame 0x100 (take (unat (8::u32)) ?msg)))"
    "psc_send_client send close 0x100 8 ?msg c (key, w) =
       Some (if k = length (psc_frame 0x100 (take (unat (8::u32)) ?msg)) then key
             else key\<lparr>clients := (clients key)[c := (clients key ! c)\<lparr>sock := -1\<rparr>]\<rparr>, w')"
    by (rule psc_send_client_live [OF assms(1,2) _ assms(3), of 8 ?msg "0x100" w]) (use msg(3) in auto)
  have "psc_frame 0x100 (take (unat (8::u32)) ?msg) = psc_frame 0x100 (be32 git_hash @ [0, 0, 0, 0])"
    using msg by simp
  with k assms(4) show ?thesis
    by (auto simp: client_event_def psc_send_one_def intro!: exI [of _ k])
qed

theorem client_event_greets_witness:
  "\<exists>k key' w'. client_event demo_send (\<lambda>w s. w) 0xABCD PSC_CONN 1 (demo_key2, \<lambda>_. []) = Some (key', w')
     \<and> w' = (\<lambda>_. [])(6 := take k (psc_frame 0x100 (be32 0xABCD @ [0, 0, 0, 0]))) \<and> k \<le> 16"
  using client_event_greets [OF demo_send_contract demo_close_contract, where key = demo_key2 and c = 1
      and w = "\<lambda>_. []" and git_hash = "0xABCD"]
  by (auto simp: demo_key2_eq)

section \<open>How long a message takes\<close>

lemma adc_table_loop_waits:
  "adc_table_loop msg i n = Some es \<Longrightarrow> wait_us es = 50 * (unat n - unat i) \<and> length es = 5 * (unat n - unat i)"
proof (induction msg i n arbitrary: es rule: adc_table_loop.induct)
  case (1 msg i n)
  show ?case
  proof (cases "i < n")
    case False
    with "1.prems" show ?thesis by (simp add: adc_table_loop.simps [of msg i] word_less_nat_alt)
  next
    case True
    then obtain word es' where w: "load32 msg (4 * unat i) = Some word" "adc_table_loop msg (i + 1) n = Some es'"
      "es = adc_table_entry i word @ es'"
      using "1.prems" by (auto simp: adc_table_loop.simps [of msg i] split: option.splits)
    have "unat n - unat i = Suc (unat n - unat (i + 1))"
      using True unat_plus_1_below [of i n] by (auto simp: word_less_nat_alt)
    with "1.IH" [OF True w(1,2)] w(3) show ?thesis by (simp add: adc_table_entry_def Let_def)
  qed
qed

text \<open>
  C23. How long a message keeps its client's thread waiting: an EEPROM setting takes 125 ms, a table 50 us a
  word, and no message whatever more than one second and 80000 register accesses.
\<close>

theorem client_msg_waits:
  assumes "client_msg msgid msglen msg = Some es"
  shows "wait_us es \<le> 1000000 \<and> length es \<le> 80000
     \<and> (msgid = 2 \<longrightarrow> wait_us es = 125000)
     \<and> (msgid = 3 \<longrightarrow> wait_us es = (if unat msglen div 4 \<le> 16000 then 50 * (unat msglen div 4) else 0))"
proof -
  have len: "unat (msglen div 4) = unat msglen div 4" by (simp add: unat_div)
  have store: "wait_us (eeprom_store a d) = 125000" "length (eeprom_store a d) = 85" for a d
    by (simp_all add: eeprom_defs)
  have setting: "wait_us (reg_switch a d) \<le> 1000000" "length (reg_switch a d) \<le> 3" for a d
    by (simp_all add: setting_defs)
  have table: "wait_us xs = (if unat msglen div 4 \<le> 16000 then 50 * (unat msglen div 4) else 0) \<and> length xs \<le> 80000"
    if "write_adc_table msg msglen = Some xs" for xs
    using that adc_table_loop_waits [of msg 0 "msglen div 4" xs] len
    by (auto simp: write_adc_table_def Let_def word_less_nat_alt split: if_splits)
  consider "msgid = 1" | "msgid = 2" | "msgid = 3" | "msgid \<notin> {1, 2, 3}" by blast
  then show ?thesis
  proof cases
    case 1
    then show ?thesis
      using assms setting order_trans [OF setting(2)]
      by (auto simp: client_msg_def reg_settings_def split: option.splits)
  next
    case 2
    then show ?thesis
      using assms store by (auto simp: client_msg_def eeprom_settings_def split: option.splits)
  next
    case 3
    then show ?thesis using assms table by (auto simp: client_msg_def split: if_splits)
  next
    case 4
    then show ?thesis using assms by (auto simp: client_msg_def)
  qed
qed

theorem client_msg_waits_witness:
  "\<exists>es. client_msg 2 8 (be32 5 @ be32 6) = Some es \<and> wait_us es = 125000"
proof -
  have "client_msg 2 8 (be32 5 @ be32 6) = Some (eeprom_store 5 6)"
    by (simp add: client_msg_def eeprom_settings_def load32_def be32_def)
  with client_msg_waits [OF this] show ?thesis by auto
qed

section \<open>Any client\<close>

lemma deliver_client_cb:
  "length buf = RXBUF_SIZE \<Longrightarrow>
   \<exists>buf' es. deliver client_cb ms buf done = Some (buf', done @ es) \<and> restful es"
proof (induction ms arbitrary: buf "done")
  case (Cons m ms)
  obtain mid body where m: "m = (mid, body)" by (cases m)
  let ?buf = "buf_write buf 0 (take RXBUF_SIZE body)" and ?n = "of_nat (min (length body) RXBUF_SIZE) :: u32"
  have len: "length ?buf = RXBUF_SIZE" using Cons.prems by simp
  have "unat ?n \<le> RXBUF_SIZE"
    using unat_of_nat [of "min (length body) RXBUF_SIZE", where ?'a = 32] by (simp add: take_bit_nat_eq_self RXBUF_SIZE_def)
  then obtain es where es: "client_msg mid ?n ?buf = Some es" "restful es"
    using client_msg_defined [of ?buf ?n mid] client_msg_restful len by (auto simp: RXBUF_SIZE_def)
  from Cons.IH [OF len, of "done @ es"] es show ?case
    by (auto simp: m client_cb_def Let_def)
qed auto

section \<open>A session of settings\<close>

lemma quiescent_setting_effect: "quiescent s \<Longrightarrow> quiescent (setting_effect a d s)"
  by (simp add: quiescent_def setting_effect_def)

lemma deliver_settings:
  assumes "length buf = RXBUF_SIZE"
  shows "\<exists>buf'. deliver client_cb (map (\<lambda>(a, d). (1, be32 a @ be32 d)) ads) buf done =
           Some (buf', done @ concat (map (\<lambda>(a, d). reg_switch a d) ads))"
  using assms
proof (induction ads arbitrary: buf "done")
  case (Cons ad ads)
  obtain a d where ad: "ad = (a, d)" by (cases ad)
  let ?body = "be32 a @ be32 d"
  let ?buf = "buf_write buf 0 ?body"
  have take: "take RXBUF_SIZE ?body = ?body" "length ?buf = RXBUF_SIZE"
    using Cons.prems by (simp_all add: RXBUF_SIZE_def)
  have "client_msg 1 n ?buf = Some (reg_switch a d)" for n
    using Cons.prems by (simp add: client_msg_def reg_settings_def load32_def be32_def buf_write_def RXBUF_SIZE_def)
  moreover obtain buf' where "deliver client_cb (map (\<lambda>(a, d). (1, be32 a @ be32 d)) ads) ?buf (done @ reg_switch a d) =
      Some (buf', (done @ reg_switch a d) @ concat (map (\<lambda>(a, d). reg_switch a d) ads))"
    using Cons.IH [OF take(2)] by blast
  moreover have "client_cb 1 n ?buf app = Some (app @ reg_switch a d)" if "client_msg 1 n ?buf = Some (reg_switch a d)" for n app
    using that by (simp add: client_cb_def)
  ultimately show ?case
    by (simp add: ad Let_def take del: take_append)
qed simp

lemma settings_effect:
  "quiescent s \<Longrightarrow> reg_run (concat (map (\<lambda>(a, d). reg_switch a d) ads)) s = fold (\<lambda>(a, d). setting_effect a d) ads s"
  by (induction ads arbitrary: s) (auto simp: reg_switch_effect quiescent_setting_effect)

end
