(* ===== verification/Console.thy ===== *)
theory Console
  imports Mmio
begin

text \<open>
  The serial console, \<open>src/sw/src/console.c\<close>: reading a line or an IP address from the UART, the
  menu, and the actions of its entries.

  The characters the user types are a list; a function that waits for a character it does not get
  returns \<open>Waiting\<close>, and one that stores or reads outside its buffer \<open>Overrun\<close>. The state of the menu actions
  is the static \<open>keylock_val\<close> and the register accesses made so far. The library's scanning and
  conversion functions are parameters. Output is left out, so printing the task statistics has no
  effect on the state; the rows it prints are \<open>task_rows\<close>.
\<close>

section \<open>Definitions\<close>

datatype 'a uart = Got 'a | Waiting | Overrun

text \<open>\<open>uart_read_line\<close>, from position \<open>idx\<close> on: the buffer and the characters not read.\<close>

function uart_read_from :: "nat \<Rightarrow> nat \<Rightarrow> bytes \<Rightarrow> bytes \<Rightarrow> (bytes \<times> bytes) uart" where
  "uart_read_from idx max_len buffer inp =
     (let finish = (\<lambda>rest. if idx < length buffer then Got (buffer[idx := 0], rest) else Overrun)
      in if idx < max_len - 1
         then case inp of
                [] \<Rightarrow> Waiting
              | c # cs \<Rightarrow>
                  if c = 0x0D \<or> c = 0x0A then finish cs
                  else if idx < length buffer then uart_read_from (idx + 1) max_len (buffer[idx := c]) cs
                  else Overrun
         else finish inp)"
  by pat_completeness auto
termination
  by (relation "measure (\<lambda>(idx, max_len, buffer, inp). length inp)") auto

declare uart_read_from.simps [simp del]

definition uart_read_line :: "bytes \<Rightarrow> nat \<Rightarrow> bytes \<Rightarrow> (bytes \<times> bytes) uart" where
  "uart_read_line buffer max_len inp = uart_read_from 0 max_len buffer inp"

text \<open>
  The loop of \<open>menu_get_ipaddr\<close>: \<open>index\<close> is a \<open>u32\<close>, which wraps below 0; the result is the
  40-byte array, which is not initialised and gets no terminator; \<open>stack\<close> is what it held.
\<close>

fun ipaddr_loop :: "u32 \<Rightarrow> bytes \<Rightarrow> bytes \<Rightarrow> (bytes \<times> bytes) uart" where
  "ipaddr_loop index ip_addr [] = Waiting"
| "ipaddr_loop index ip_addr (c # cs) =
     (if c = 0x08 then ipaddr_loop (index - 1) ip_addr cs
      else if length ip_addr \<le> unat index then Overrun
      else if c = 0x0D then Got (ip_addr[unat index := 0x0A], cs)
      else ipaddr_loop (index + 1) (ip_addr[unat index := c]) cs)"

text \<open>
  \<open>sscanf\<close> on the array gets the string in it; without a terminator inside the array it reads behind it.
\<close>

definition scan_octets :: "(bytes \<Rightarrow> bytes \<Rightarrow> bytes) \<Rightarrow> bytes \<Rightarrow> bytes \<Rightarrow> bytes option" where
  "scan_octets scan4 ip_addr octets =
     (if 0 \<in> set ip_addr then Some (scan4 (takeWhile (\<lambda>c. c \<noteq> 0) ip_addr) octets) else None)"

definition menu_get_ipaddr ::
  "(bytes \<Rightarrow> bytes \<Rightarrow> bytes) \<Rightarrow> bytes \<Rightarrow> bytes \<Rightarrow> bytes \<Rightarrow> (bytes \<times> bytes) uart" where
  "menu_get_ipaddr scan4 stack octets inp =
     (case ipaddr_loop 0 stack inp of
        Got (ip_addr, rest) \<Rightarrow>
          (case scan_octets scan4 ip_addr octets of None \<Rightarrow> Overrun | Some octets' \<Rightarrow> Got (octets', rest))
      | Waiting \<Rightarrow> Waiting
      | Overrun \<Rightarrow> Overrun)"

definition get_binary_input :: "u8 \<Rightarrow> u8" where
  "get_binary_input c = (if c = 0x30 then 0 else if c = 0x31 then 1 else -1)"

text \<open>
  \<open>receive_console_cmd\<close>: the two words of \<open>msg_buf\<close>, when the line scans as channel, address and
  value. The function does nothing with them.
\<close>

definition receive_console_cmd ::
  "(bytes \<Rightarrow> (u32 \<times> u32 \<times> bytes) option) \<Rightarrow> (bytes \<Rightarrow> u32) \<Rightarrow> (bytes \<Rightarrow> u32) \<Rightarrow> bytes \<Rightarrow> bytes \<Rightarrow>
     ((u32 \<times> u32) option \<times> bytes) uart" where
  "receive_console_cmd scan3 strtof strtoul stack inp =
     (case uart_read_line stack 64 inp of
        Waiting \<Rightarrow> Waiting
      | Overrun \<Rightarrow> Overrun
      | Got (line, rest) \<Rightarrow>
          Got (case scan3 line of
                 None \<Rightarrow> None
               | Some (chan, addr, val_str) \<Rightarrow>
                   let data = (if 0x2E \<in> set val_str then strtof val_str else strtoul val_str)
                   in Some (htonl addr, htonl data), rest))"

text \<open>\<open>toupper\<close> on a letter, any other character unchanged.\<close>

definition upcase :: "u8 \<Rightarrow> u8" where
  "upcase c = (if 0x61 \<le> c \<and> c \<le> 0x7A then c - 0x20 else c)"

fun run_entry :: "u8 \<Rightarrow> (u8 \<times> ('s \<Rightarrow> 's) option) list \<Rightarrow> 's \<Rightarrow> 's" where
  "run_entry choice [] s = s"
| "run_entry choice ((entryCh, entryFunc) # m) s =
     (if entryCh = choice then (case entryFunc of None \<Rightarrow> s | Some f \<Rightarrow> f s)
      else run_entry choice m s)"

text \<open>\<open>exec_menu\<close>: \<open>Inl s\<close> while it waits for a key, \<open>Inr (s, rest)\<close> when it returns.\<close>

fun exec_menu :: "(u8 \<times> ('s \<Rightarrow> 's) option) list \<Rightarrow> bytes \<Rightarrow> 's \<Rightarrow> 's + 's \<times> bytes" where
  "exec_menu m [] s = Inl s"
| "exec_menu m (c # cs) s =
     (let choice = upcase c;
          s' = run_entry choice m s
      in if choice = 0x51 then Inr (s', cs) else exec_menu m cs s')"

record console =
  keylock_val :: u8
  con_regs :: "mmio list"

datatype task_state = eRunning | eReady | eBlocked | eSuspended | eDeleted | eInvalid

record task_status =
  pcTaskName :: string
  eCurrentState :: task_state
  uxCurrentPriority :: u32
  usStackHighWaterMark :: u32
  ulRunTimeCounter :: u32

fun stateChar :: "task_state \<Rightarrow> char" where
  "stateChar eRunning = CHR ''R''"
| "stateChar eReady = CHR ''Y''"
| "stateChar eBlocked = CHR ''B''"
| "stateChar eSuspended = CHR ''S''"
| "stateChar eDeleted = CHR ''D''"
| "stateChar eInvalid = CHR ''?''"

text \<open>
  The rows \<open>printTaskStats\<close> prints: name, state, priority, free stack, run time and share of the processor.
  \<open>tasks\<close> is \<open>uxTaskGetSystemState\<close> on an array of the given size, with the total run time;
  \<open>percent c t\<close> is the float \<open>c * 100.0f / t\<close> and \<open>zero\<close> the float 0.
\<close>

definition task_rows ::
  "(nat \<Rightarrow> task_status list \<times> u32) \<Rightarrow> (u32 \<Rightarrow> u32 \<Rightarrow> 'v) \<Rightarrow> 'v \<Rightarrow> (string \<times> char \<times> u32 \<times> u32 \<times> u32 \<times> 'v) list" where
  "task_rows tasks percent zero =
     (let (taskStatusArray, totalRunTime) = tasks 16
      in map (\<lambda>t. (pcTaskName t, stateChar (eCurrentState t), uxCurrentPriority t, usStackHighWaterMark t,
                   ulRunTimeCounter t,
                   if 0 < totalRunTime then percent (ulRunTimeCounter t) totalRunTime else zero)) taskStatusArray)"

definition printTaskStats :: "console \<Rightarrow> console" where
  "printTaskStats s = s"

definition resetFaults :: "console \<Rightarrow> console" where
  "resetFaults s = s\<lparr>con_regs := con_regs s @ [Out32 LATCH_RESET 0, Delay 1000000, Out32 LATCH_RESET 1]\<rparr>"

definition AcisForceTrip :: "console \<Rightarrow> console" where
  "AcisForceTrip s = s\<lparr>con_regs := con_regs s @ [Out32 ACIS_FORCE_TRIP 0, Delay 1000000, Out32 ACIS_FORCE_TRIP 1]\<rparr>"

definition AcisKeylock :: "console \<Rightarrow> console" where
  "AcisKeylock s =
     (let k = keylock_val s XOR 1
      in s\<lparr>keylock_val := k, con_regs := con_regs s @ [Out32 ACIS_KEYLOCK (ucast k), Delay 1000]\<rparr>)"

definition menu :: "(u8 \<times> (console \<Rightarrow> console) option) list" where
  "menu = [(0x41, Some printTaskStats), (0x42, Some resetFaults), (0x43, Some AcisForceTrip),
           (0x44, Some AcisKeylock)]"

definition console_init :: console where
  "console_init = \<lparr>keylock_val = 1, con_regs = []\<rparr>"

lemma exec_menu_rest: "exec_menu m inp s = Inr (s', rest) \<Longrightarrow> length rest < length inp"
  by (induction inp arbitrary: s) (auto simp: Let_def split: if_splits intro: less_SucI)

text \<open>\<open>console_menu\<close> enters the menu again whenever it is left; the state after the keys typed so far.\<close>

function console_menu :: "bytes \<Rightarrow> console \<Rightarrow> console" where
  "console_menu inp s =
     (case exec_menu menu inp s of
        Inl s' \<Rightarrow> s'
      | Inr (s', rest) \<Rightarrow> console_menu rest s')"
  by pat_completeness auto
termination
  by (relation "measure (\<lambda>(inp, s). length inp)") (auto dest: exec_menu_rest)

declare console_menu.simps [simp del]

section \<open>Reading a line\<close>

abbreviation eol :: "u8 \<Rightarrow> bool" where "eol c \<equiv> c = 0x0D \<or> c = 0x0A"

lemma uart_read_from_line:
  assumes "max_len \<le> length buffer" "idx < max_len" "list_all (\<lambda>c. \<not> eol c) line"
    and "idx + length line < max_len - 1 \<longrightarrow> eol e" "idx + length line \<le> max_len - 1"
  shows "uart_read_from idx max_len buffer (line @ e # rest) =
     Got (buf_write buffer idx (line @ [0]), if idx + length line < max_len - 1 then rest else e # rest)"
  using assms
proof (induction line arbitrary: idx buffer)
  case Nil
  then show ?case
    by (auto simp: uart_read_from.simps [of idx] Let_def buf_write_def upd_conv_take_nth_drop)
next
  case (Cons c line)
  then have "uart_read_from idx max_len buffer ((c # line) @ e # rest) =
      uart_read_from (idx + 1) max_len (buffer[idx := c]) (line @ e # rest)"
    by (simp add: uart_read_from.simps [of idx] Let_def)
  also have "\<dots> = Got (buf_write (buffer[idx := c]) (idx + 1) (line @ [0]),
      if idx + 1 + length line < max_len - 1 then rest else e # rest)"
    using Cons.prems by (intro Cons.IH) auto
  also have "buf_write (buffer[idx := c]) (idx + 1) (line @ [0]) = buf_write buffer idx ((c # line) @ [0])"
    using Cons.prems by (simp add: buf_write_def take_Suc_conv_app_nth)
  finally show ?case by simp
qed

text \<open>
  Reading a line from the console: a line that fits is stored, terminated, and its end-of-line
  character consumed; a longer one is cut to \<open>max_len - 1\<close> characters, and nothing is written
  behind the first \<open>max_len\<close> bytes of the buffer. The console command reads at most 64 bytes into
  its buffer of 100.
\<close>

theorem uart_read_line_bounded:
  assumes "1 \<le> max_len" "max_len \<le> length buffer" "list_all (\<lambda>c. \<not> eol c) line" "eol e"
  shows "uart_read_line buffer max_len (line @ e # rest) =
     (if length line < max_len - 1
      then Got (buf_write buffer 0 (line @ [0]), rest)
      else Got (buf_write buffer 0 (take (max_len - 1) line @ [0]), drop (max_len - 1) (line @ e # rest)))"
proof (cases "length line < max_len - 1")
  case True
  with assms show ?thesis
    using uart_read_from_line [of max_len buffer 0 line e rest] by (simp add: uart_read_line_def)
next
  case False
  obtain x xs where x: "drop (max_len - 1) (line @ e # rest) = x # xs"
    using False by (cases "drop (max_len - 1) (line @ e # rest)") auto
  have "line @ e # rest = take (max_len - 1) line @ x # xs"
    using False x append_take_drop_id [of "max_len - 1" "line @ e # rest"] by simp
  moreover have "list_all (\<lambda>c. \<not> eol c) (take (max_len - 1) line)"
    using assms(3) by (auto simp: list_all_iff dest: in_set_takeD)
  ultimately show ?thesis
    using False assms(1,2) x uart_read_from_line [of max_len buffer 0 "take (max_len - 1) line" x xs]
    by (simp add: uart_read_line_def min_absorb2)
qed

theorem uart_read_line_bounded_witness:
  "uart_read_line [9, 9, 9, 9, 9] 4 [1, 2, 3, 4, 0x0D, 7] = Got ([1, 2, 3, 0, 9], [4, 0x0D, 7])"
  using uart_read_line_bounded [of 4 "[9, 9, 9, 9, 9]" "[1, 2, 3, 4]" "0x0D" "[7]"]
  by (simp add: buf_write_def)

text \<open>
  Entering an IP address is not bounded: forty characters that are neither backspace nor return
  fill the buffer, and the next key stores behind it; a backspace at the start of the line moves the
  index to \<open>0xFFFFFFFF\<close>, and the next character is stored there.
\<close>

theorem menu_get_ipaddr_overruns:
  assumes "length stack = 40" "list_all (\<lambda>c. c \<noteq> 0x08 \<and> c \<noteq> 0x0D) cs" "40 \<le> length cs" "c \<noteq> 0x08"
  shows "menu_get_ipaddr scan4 stack octets (cs @ [c]) = Overrun
     \<and> menu_get_ipaddr scan4 stack octets [0x08, c] = Overrun"
proof -
  have "ipaddr_loop (of_nat i) buf (ds @ [c]) = Overrun"
    if "length buf = 40" "list_all (\<lambda>c. c \<noteq> 0x08 \<and> c \<noteq> 0x0D) ds" "i \<le> 40" "40 \<le> i + length ds" for i buf ds
    using that
  proof (induction ds arbitrary: i buf)
    case Nil
    with assms(4) show ?case by simp
  next
    case (Cons d ds)
    have un: "unat (of_nat i :: u32) = i" using Cons.prems(3) by (simp add: unat_of_nat take_bit_nat_eq_self)
    show ?case
    proof (cases "i = 40")
      case False
      have "ipaddr_loop (of_nat (Suc i)) (buf[i := d]) (ds @ [c]) = Overrun"
        using Cons.prems False by (intro Cons.IH) auto
      with Cons.prems False un show ?thesis by (simp add: add.commute)
    qed (use Cons.prems un in simp)
  qed
  from this [of stack cs 0] assms have "ipaddr_loop 0 stack (cs @ [c]) = Overrun" by simp
  moreover have "ipaddr_loop 0 stack [0x08, c] = Overrun"
    using assms(1,4) by (simp add: unsigned_minus_1_eq_mask mask_eq_exp_minus_1)
  ultimately show ?thesis by (simp add: menu_get_ipaddr_def)
qed

theorem menu_get_ipaddr_overruns_witness:
  "menu_get_ipaddr (\<lambda>b o'. o') (replicate 40 0) [0, 0, 0, 0] (replicate 40 0x31 @ [0x0D]) = Overrun"
  using menu_get_ipaddr_overruns [of "replicate 40 0" "replicate 40 0x31" "0x0D" "\<lambda>b o'. o'" "[0, 0, 0, 0]"]
  by (simp add: list_all_length)

section \<open>The menu\<close>

text \<open>What one key does, wherever the menu is.\<close>

definition key_effect :: "u8 \<Rightarrow> console \<Rightarrow> console" where
  "key_effect c s =
     (if upcase c = 0x42 then resetFaults s
      else if upcase c = 0x43 then AcisForceTrip s
      else if upcase c = 0x44 then AcisKeylock s
      else s)"

lemma run_entry_menu: "run_entry (upcase c) menu s = key_effect c s"
  by (simp add: menu_def key_effect_def printTaskStats_def)

lemma exec_menu_fold:
  "(case exec_menu menu inp s of Inl s' \<Rightarrow> s' | Inr (s', rest) \<Rightarrow> fold key_effect rest s') = fold key_effect inp s"
  by (induction inp arbitrary: s) (simp_all add: Let_def flip: run_entry_menu)

lemma console_menu_fold: "console_menu inp s = fold key_effect inp s"
proof (induction inp s rule: console_menu.induct)
  case (1 inp s)
  show ?case
    using exec_menu_fold [of inp s] "1.IH"
    by (cases "exec_menu menu inp s") (auto simp: console_menu.simps [of inp s])
qed

text \<open>The keylock toggles: the line is high after an even number of presses.\<close>

definition keylock_after :: "bytes \<Rightarrow> u8" where
  "keylock_after inp = (if even (length (filter (\<lambda>c. upcase c = 0x44) inp)) then 1 else 0)"

lemma console_menu_state:
  assumes "keylock_val s \<in> {0, 1}"
  shows "keylock_val (fold key_effect inp s) =
           (if even (length (filter (\<lambda>c. upcase c = 0x44) inp)) then keylock_val s else 1 - keylock_val s)
     \<and> (quiescent (reg_run (con_regs s) r) \<longrightarrow> quiescent (reg_run (con_regs (fold key_effect inp s)) r))
     \<and> (reg_run (con_regs s) r ACIS_KEYLOCK = ucast (keylock_val s) \<longrightarrow>
          reg_run (con_regs (fold key_effect inp s)) r ACIS_KEYLOCK = ucast (keylock_val (fold key_effect inp s)))"
  using assms
proof (induction inp arbitrary: s)
  case (Cons c inp)
  have k: "keylock_val (key_effect c s) \<in> {0, 1}"
    "keylock_val (key_effect c s) = (if upcase c = 0x44 then 1 - keylock_val s else keylock_val s)"
    "quiescent (reg_run (con_regs s) r) \<Longrightarrow> quiescent (reg_run (con_regs (key_effect c s)) r)"
    "reg_run (con_regs s) r ACIS_KEYLOCK = ucast (keylock_val s) \<Longrightarrow>
       reg_run (con_regs (key_effect c s)) r ACIS_KEYLOCK = ucast (keylock_val (key_effect c s))"
    using Cons.prems
    by (auto simp: key_effect_def resetFaults_def AcisForceTrip_def AcisKeylock_def Let_def quiescent_def)
  from Cons.IH [OF k(1)] k Cons.prems show ?case by auto
qed simp

text \<open>
  C26. The console menu: for any sequence of keys, in either case, through any number of times the
  menu is left and entered again, the keylock output is what an even or odd number of \<open>D\<close> keys makes
  it, the register agrees with the program's copy, and the latch-reset and force-trip lines are
  back at rest.
\<close>

theorem console_menu_keys:
  assumes "quiescent r" "r ACIS_KEYLOCK = 1"
  shows "keylock_val (console_menu inp console_init) = keylock_after inp
     \<and> quiescent (reg_run (con_regs (console_menu inp console_init)) r)
     \<and> reg_run (con_regs (console_menu inp console_init)) r ACIS_KEYLOCK = ucast (keylock_after inp)"
  using console_menu_state [of console_init inp r] assms
  by (auto simp: console_menu_fold console_init_def keylock_after_def)

theorem console_menu_keys_witness:
  "keylock_val (console_menu [0x64, 0x51, 0x62, 0x44, 0x64] console_init) = 0"
proof -
  have "quiescent (\<lambda>r. if r \<in> {LATCH_RESET, ACIS_FORCE_TRIP, ACIS_KEYLOCK} then 1 else 0)"
    by (simp add: quiescent_def)
  from console_menu_keys [OF this, of "[0x64, 0x51, 0x62, 0x44, 0x64]"] show ?thesis
    by (simp add: keylock_after_def upcase_def)
qed

end
