(* ===== verification/Concurrent.thy ===== *)
theory Concurrent
  imports App Console
begin

text \<open>
  Register accesses of threads that run at the same time. The receive threads of up to four clients and
  the console task execute their handlers without a lock, so that the register block sees some
  interleaving of their accesses (\<open>merges\<close>). What a thread contributes is the list of accesses its handlers
  make: \<open>session_trace\<close> for the messages of a client, \<open>con_regs\<close> for the keys typed at the console.

  The final value of a register under an interleaving is read off the last writes of the threads
  (\<open>last_write\<close>), so that what every thread guarantees on its own for its last write holds for all of them
  together; what rests on the order of several accesses, as the three registers of one SPI frame do, does not.
\<close>

section \<open>Interleavings\<close>

fun merges :: "'a list list \<Rightarrow> 'a list set" where
  "merges [] = {[]}"
| "merges (xs # xss) = (\<Union>zs \<in> merges xss. shuffles xs zs)"

lemma set_merges: "es \<in> merges ess \<Longrightarrow> set es = \<Union> (set ` set ess)"
  by (induction ess arbitrary: es) (auto simp: set_shuffles)

primrec last_write :: "'r \<Rightarrow> 'r access list \<Rightarrow> u32 option" where
  "last_write r [] = None"
| "last_write r (e # es) =
     (case last_write r es of
        Some v \<Rightarrow> Some v
      | None \<Rightarrow> (case e of Out32 r' v \<Rightarrow> if r' = r then Some v else None | Delay n \<Rightarrow> None))"

lemma reg_run_last_write: "reg_run es s r = (case last_write r es of None \<Rightarrow> s r | Some v \<Rightarrow> v)"
  by (induction es arbitrary: s) (auto split: option.splits access.splits)

lemma last_write_shuffles:
  "zs \<in> shuffles xs ys \<Longrightarrow>
   last_write r zs = last_write r xs \<and> (last_write r xs = None \<longrightarrow> last_write r ys = None)
   \<or> last_write r zs = last_write r ys \<and> (last_write r ys = None \<longrightarrow> last_write r xs = None)"
proof (induction xs ys arbitrary: zs rule: shuffles.induct)
  case (3 x xs y ys)
  from "3.prems" consider
      (left) zs' where "zs = x # zs'" "zs' \<in> shuffles xs (y # ys)"
    | (right) zs' where "zs = y # zs'" "zs' \<in> shuffles (x # xs) ys"
    by auto
  then show ?case
  proof cases
    case left
    with "3.IH"(1) [OF left(2)] show ?thesis by (auto split: option.splits access.splits)
  next
    case right
    with "3.IH"(2) [OF right(2)] show ?thesis
      by (auto split: option.splits access.splits) metis+
  qed
qed auto

lemma last_write_merges:
  "es \<in> merges ess \<Longrightarrow> last_write r es = Some v \<Longrightarrow> \<exists>xs \<in> set ess. last_write r xs = Some v"
proof (induction ess arbitrary: es)
  case (Cons xs xss)
  then obtain zs where zs: "zs \<in> merges xss" "es \<in> shuffles xs zs" by auto
  have "last_write r xs = Some v \<or> last_write r zs = Some v"
    using last_write_shuffles [OF zs(2), of r] Cons.prems(2) by auto
  with Cons.IH [OF zs(1)] show ?case by auto
qed simp

section \<open>Lines at rest\<close>

text \<open>The lines that \<open>quiescent\<close> watches, with their levels at rest.\<close>

definition rest_levels :: "(pl_reg \<times> u32) list" where
  "rest_levels = [(ARTIX_SPI_WE, 0), (LATCH_RESET, 1), (ACIS_FORCE_TRIP, 1)]"

lemma quiescent_iff: "quiescent s \<longleftrightarrow> (\<forall>(r, v) \<in> set rest_levels. s r = v)"
  by (simp add: quiescent_def rest_levels_def)

text \<open>A thread that always leaves the lines at rest ends every line it touches at its level.\<close>

lemma last_write_at_rest:
  assumes "\<And>s. quiescent s \<Longrightarrow> quiescent (reg_run es s)" "(r, v) \<in> set rest_levels" "last_write r es = Some u"
  shows "u = v"
proof -
  have "quiescent (\<lambda>r. if r = ARTIX_SPI_WE then 0 else 1)" by (simp add: quiescent_def)
  with assms(1) have "quiescent (reg_run es (\<lambda>r. if r = ARTIX_SPI_WE then 0 else 1))" by blast
  with assms(2,3) show ?thesis
    unfolding quiescent_iff by (auto simp: reg_run_last_write dest!: bspec [of _ _ "(r, v)"])
qed

lemma merges_at_rest:
  assumes "es \<in> merges ess" "quiescent s"
    and "\<And>xs s. xs \<in> set ess \<Longrightarrow> quiescent s \<Longrightarrow> quiescent (reg_run xs s)"
  shows "quiescent (reg_run es s)"
  unfolding quiescent_iff
proof clarify
  fix r v
  assume rv: "(r, v) \<in> set rest_levels"
  show "reg_run es s r = v"
  proof (cases "last_write r es")
    case None
    with rv assms(2) show ?thesis by (auto simp: reg_run_last_write quiescent_iff)
  next
    case (Some u)
    obtain xs where "xs \<in> set ess" "last_write r xs = Some u"
      using last_write_merges [OF assms(1) Some] by blast
    then have "u = v" using last_write_at_rest [OF assms(3) rv] by blast
    with Some show ?thesis by (simp add: reg_run_last_write)
  qed
qed

section \<open>Threads of the program\<close>

text \<open>The accesses of the receive thread of one client, whose buffer is cleared when the slot is allocated.\<close>

definition session_trace :: "(u16 \<times> bytes) list \<Rightarrow> mmio list option" where
  "session_trace ms = map_option snd (deliver client_cb ms (rxbuf zero_client) [])"

lemma session_trace_restful: "\<exists>es. session_trace ms = Some es \<and> restful es"
proof -
  obtain buf' es where "deliver client_cb ms (rxbuf zero_client) [] = Some (buf', [] @ es)" "restful es"
    using deliver_client_cb [of "rxbuf zero_client" ms "[]"] by auto
  then show ?thesis by (simp add: session_trace_def)
qed

lemma session_traces: "\<exists>ess. map session_trace mss = map Some ess \<and> (\<forall>es \<in> set ess. restful es)"
proof (induction mss)
  case (Cons ms mss)
  then obtain ess where "map session_trace mss = map Some ess" "\<forall>es \<in> set ess. restful es" by blast
  moreover obtain es where "session_trace ms = Some es" "restful es"
    using session_trace_restful by blast
  ultimately show ?case by (intro exI [of _ "es # ess"]) simp
qed simp

text \<open>The accesses made for the keys of the console since it was started.\<close>

definition console_trace :: "bytes \<Rightarrow> mmio list" where
  "console_trace keys = con_regs (console_menu keys console_init)"

lemma console_trace_restful: "restful (console_trace keys)"
proof -
  have "restful (con_regs s) \<Longrightarrow> restful (con_regs (key_effect c s))" for c s
    by (auto simp: key_effect_def resetFaults_def AcisForceTrip_def AcisKeylock_def Let_def restful_def quiescent_def)
  then have "restful (con_regs s) \<Longrightarrow> restful (con_regs (fold key_effect keys s))" for s
    by (induction keys arbitrary: s) auto
  from this [of console_init] show ?thesis
    by (simp add: console_trace_def console_menu_fold console_init_def)
qed

text \<open>
  C3. Clients and console at the same time: for any messages the clients send, any keys typed at the console and
  any interleaving of the register accesses that result, only the registers meant for clients are
  written, the SPI strobe and the latch-reset and force-trip lines end at rest, and every
  register ends either unchanged or with the value one of the threads wrote to it last.
\<close>

theorem threads_leave_lines_at_rest:
  assumes "quiescent s"
  shows "\<exists>ess. map session_trace mss = map Some ess
           \<and> (\<forall>es \<in> merges (console_trace keys # ess).
                quiescent (reg_run es s)
                \<and> (\<forall>r v. Out32 r v \<in> set es \<longrightarrow> r \<in> CLIENT_REGS)
                \<and> (\<forall>r. reg_run es s r = s r
                      \<or> (\<exists>xs \<in> set (console_trace keys # ess). last_write r xs = Some (reg_run es s r))))"
proof -
  obtain ess where ess: "map session_trace mss = map Some ess" "\<forall>es \<in> set ess. restful es"
    using session_traces by blast
  let ?all = "console_trace keys # ess"
  have restful: "restful xs" if "xs \<in> set ?all" for xs
    using that ess(2) console_trace_restful by auto
  show ?thesis
  proof (intro exI [of _ ess] conjI ballI allI impI)
    fix es assume es: "es \<in> merges ?all"
    show "quiescent (reg_run es s)"
      using merges_at_rest [OF es assms] restful by (auto simp: restful_def)
    show "r \<in> CLIENT_REGS" if "Out32 r v \<in> set es" for r v
      using that set_merges [OF es] restful by (auto simp: restful_def)
    show "reg_run es s r = s r \<or> (\<exists>xs \<in> set ?all. last_write r xs = Some (reg_run es s r))" for r
      using last_write_merges [OF es, of r] by (cases "last_write r es") (auto simp: reg_run_last_write)
  qed (fact ess(1))
qed

definition demo_resting :: "pl_reg \<Rightarrow> u32" where
  "demo_resting r = (if r \<in> {LATCH_RESET, ACIS_FORCE_TRIP} then 1 else 0)"

lemma demo_resting_quiescent: "quiescent demo_resting"
  by (simp add: quiescent_def demo_resting_def)

theorem threads_leave_lines_at_rest_witness:
  "\<exists>ess. map session_trace [[(1, be32 8 @ be32 1)], [(2, be32 3 @ be32 4)], []] = map Some ess
     \<and> (\<forall>es \<in> merges (console_trace [0x42, 0x43] # ess). quiescent (reg_run es demo_resting))"
  using threads_leave_lines_at_rest [OF demo_resting_quiescent,
      of "[[(1, be32 8 @ be32 1)], [(2, be32 3 @ be32 4)], []]" "[0x42, 0x43]"] by blast

section \<open>SPI frames of two clients\<close>

lemma append_in_shuffles:
  "as \<in> shuffles xs ys \<Longrightarrow> bs \<in> shuffles us vs \<Longrightarrow> as @ bs \<in> shuffles (xs @ us) (ys @ vs)"
proof (induction as arbitrary: xs ys)
  case (Cons a as)
  from Cons.prems(1) consider
      (left) xs' where "xs = a # xs'" "as \<in> shuffles xs' ys"
    | (right) ys' where "ys = a # ys'" "as \<in> shuffles xs ys'"
    by (auto simp: Cons_in_shuffles_iff neq_Nil_conv)
  then show ?case
    using Cons.IH Cons.prems(2) by cases (auto intro: Cons_in_shuffles_leftI Cons_in_shuffles_rightI)
qed simp

lemma left_in_shuffles: "xs \<in> shuffles xs []"
  by simp

lemma right_in_shuffles: "ys \<in> shuffles [] ys"
  by simp

lemma client_msg_adc_word:
  "client_msg 3 4 (be32 w @ r) = Some (spi_write 0x60 w @ [Delay 50])"
  by (simp add: client_msg_def write_adc_table_def adc_table_loop.simps [of _ 0] adc_table_loop.simps [of _ 1]
      load32_def adc_table_entry_def be32_def)

lemma client_msg_eeprom: "client_msg 2 n (be32 a @ be32 d @ r) = Some (eeprom_store a d)"
  by (simp add: client_msg_def eeprom_settings_def load32_def be32_def)

text \<open>
  C40. Two clients at once can corrupt the front end's EEPROM: one client sends an EEPROM setting, another a table
  of one word; the three writes of an SPI frame are not protected against each other, and there is an
  interleaving in which the front end executes the word of the table as an EEPROM command. As the word is
  arbitrary, so is the command, for example a write of any byte to any address.
\<close>

theorem concurrent_clients_corrupt_eeprom:
  "\<exists>es1 es2. client_msg 3 4 (be32 w @ r1) = Some es1 \<and> client_msg 2 8 (be32 a @ be32 d @ r2) = Some es2
     \<and> (\<exists>es \<in> shuffles es1 es2. hd (eeprom_cmds 0 (spi_frames 0 0 es)) = eeprom_cmd_of w)"
proof -
  obtain X rest where "eeprom_store a d =
      [Out32 ARTIX_SPI_DATA X] @ [Out32 ARTIX_SPI_ADDR EEPROM_WRDATA, Out32 ARTIX_SPI_WE 1, Out32 ARTIX_SPI_WE 0,
       Delay 5000] @ spi_write EEPROM_TRIG 1 @ rest"
    by (simp add: eeprom_defs spi_write_def)
  then have store: "eeprom_store a d =
      [Out32 ARTIX_SPI_DATA X] @ [] @ ([Out32 ARTIX_SPI_ADDR EEPROM_WRDATA, Out32 ARTIX_SPI_WE 1, Out32 ARTIX_SPI_WE 0,
       Delay 5000] @ spi_write EEPROM_TRIG 1 @ rest) @ []"
    by simp
  have adc: "spi_write 0x60 w @ [Delay 50] =
      [] @ [Out32 ARTIX_SPI_DATA w, Out32 ARTIX_SPI_ADDR 0x60] @ [] @ [Out32 ARTIX_SPI_WE 1, Out32 ARTIX_SPI_WE 0, Delay 50]"
    by (simp add: spi_write_def)
  have mem: "[Out32 ARTIX_SPI_DATA X] @ [Out32 ARTIX_SPI_DATA w, Out32 ARTIX_SPI_ADDR 0x60]
      @ ([Out32 ARTIX_SPI_ADDR EEPROM_WRDATA, Out32 ARTIX_SPI_WE 1, Out32 ARTIX_SPI_WE 0, Delay 5000]
         @ spi_write EEPROM_TRIG 1 @ rest) @ [Out32 ARTIX_SPI_WE 1, Out32 ARTIX_SPI_WE 0, Delay 50]
    \<in> shuffles (spi_write 0x60 w @ [Delay 50]) (eeprom_store a d)"
    unfolding store adc by (intro append_in_shuffles) simp_all
  show ?thesis
    by (intro exI conjI, rule client_msg_adc_word, rule client_msg_eeprom, rule bexI [OF _ mem])
      (simp add: spi_write_def)
qed

end
