(* ===== verification/Wvfmdata.thy ===== *)
theory Wvfmdata
  imports Listener Mmio
begin

text \<open>
  The waveform thread, \<open>src/sw/src/wvfmdata.c\<close>: it waits until the FIFO of the front end holds a
  record, unpacks it into its static arrays, resets the FIFO and broadcasts the arrays as messages
  52, 53, 54, 51 and 55.

  The register block is behind the AXI bus: \<open>Xil_In32\<close> and \<open>Xil_Out32\<close> are the parameters \<open>in32\<close> and
  \<open>out32\<close> on a hardware state \<open>'h\<close>. \<open>fifo_contract\<close> states what the code relies on: the data
  register pops the FIFO, and the latched time stamp registers hold still meanwhile. The arrays are
  modelled as they stand in memory, elements already in network order. Delays and debug output
  (\<open>wvfm_debug\<close> is 0) are left out. \<open>fuel\<close> bounds the polls of one wait.
\<close>

section \<open>Definitions\<close>

type_synonym 'h in32_fn = "'h \<Rightarrow> pl_reg \<Rightarrow> u32 \<times> 'h"
type_synonym 'h out32_fn = "'h \<Rightarrow> pl_reg \<Rightarrow> u32 \<Rightarrow> 'h"

record wvfm_bufs =
  pulse_stats :: "u32 list"
  eeprom :: "u32 list"
  boow_adc :: "u16 list"
  wvfm_adc :: "u16 list"
  timestamp :: "u32 list"

definition wvfm_init :: wvfm_bufs where
  "wvfm_init = \<lparr>pulse_stats = replicate 64 0, eeprom = replicate 64 0, boow_adc = replicate 128 0,
                wvfm_adc = replicate 16000 0, timestamp = replicate 2 0\<rparr>"

fun wvfm_poll :: "nat \<Rightarrow> 'h in32_fn \<Rightarrow> 'h \<Rightarrow> (u32 \<times> 'h) option" where
  "wvfm_poll 0 in32 h = None"
| "wvfm_poll (Suc fuel) in32 h =
     (let (wordcnt, h') = in32 h FIFO_CNT_REG
      in if wordcnt < 8000 then wvfm_poll fuel in32 h' else Some (wordcnt, h'))"

text \<open>The loops over one FIFO word per element, and over one word per two packed samples.\<close>

function read32_loop :: "'h in32_fn \<Rightarrow> nat \<Rightarrow> nat \<Rightarrow> u32 list \<Rightarrow> 'h \<Rightarrow> u32 list \<times> 'h" where
  "read32_loop in32 i n arr h =
     (if i < n
      then let (rdbk, h') = in32 h FIFO_DATA_REG in read32_loop in32 (i + 1) n (arr[i := htonl rdbk]) h'
      else (arr, h))"
  by pat_completeness auto
termination
  by (relation "measure (\<lambda>(in32, i, n, arr, h). n - i)") auto

function read16_loop :: "'h in32_fn \<Rightarrow> nat \<Rightarrow> nat \<Rightarrow> u16 list \<Rightarrow> 'h \<Rightarrow> u16 list \<times> 'h" where
  "read16_loop in32 i n arr h =
     (if i < n
      then let (rdbk, h') = in32 h FIFO_DATA_REG
           in read16_loop in32 (i + 2) n
                (arr[i := htons (ucast (drop_bit 16 (rdbk AND 0xFFFF0000))),
                     i + 1 := htons (ucast (rdbk AND 0xFFFF))]) h'
      else (arr, h))"
  by pat_completeness auto
termination
  by (relation "measure (\<lambda>(in32, i, n, arr, h). n - i)") auto

declare read32_loop.simps [simp del] read16_loop.simps [simp del]

definition wvfm_read :: "'h in32_fn \<Rightarrow> wvfm_bufs \<Rightarrow> 'h \<Rightarrow> wvfm_bufs \<times> 'h" where
  "wvfm_read in32 b h =
     (let (ps, h1) = read32_loop in32 0 64 (pulse_stats b) h;
          (ee, h2) = read32_loop in32 0 64 (eeprom b) h1;
          (bo, h3) = read16_loop in32 0 128 (boow_adc b) h2;
          (wv, h4) = read16_loop in32 0 16000 (wvfm_adc b) h3;
          (ns, h5) = in32 h4 EVR_TS_NS_LAT_REG;
          (s, h6) = in32 h5 EVR_TS_S_LAT_REG
      in (\<lparr>pulse_stats = ps, eeprom = ee, boow_adc = bo, wvfm_adc = wv,
           timestamp = (timestamp b)[0 := htonl ns, 1 := htonl s]\<rparr>, h6))"

text \<open>The messages sent after a record: number, \<open>sizeof\<close> of the array, and its bytes.\<close>

definition wvfm_messages :: "wvfm_bufs \<Rightarrow> (u16 \<times> u32 \<times> bytes) list" where
  "wvfm_messages b =
     [(52, 256, concat (map put32 (eeprom b))),
      (53, 256, concat (map put16 (boow_adc b))),
      (54, 32000, concat (map put16 (wvfm_adc b))),
      (51, 256, concat (map put32 (pulse_stats b))),
      (55, 8, concat (map put32 (timestamp b)))]"

text \<open>One round of the thread's loop, up to the messages it sends.\<close>

definition wvfm_round ::
  "nat \<Rightarrow> 'h in32_fn \<Rightarrow> 'h out32_fn \<Rightarrow> wvfm_bufs \<Rightarrow> 'h \<Rightarrow> (wvfm_bufs \<times> 'h \<times> (u16 \<times> u32 \<times> bytes) list) option" where
  "wvfm_round fuel in32 out32 b h =
     (case wvfm_poll fuel in32 h of
        None \<Rightarrow> None
      | Some (wordcnt, h1) \<Rightarrow>
          (let (b', h2) = (if 8000 < wordcnt then wvfm_read in32 b h1 else (b, h1));
               h3 = out32 (out32 h2 FIFO_RST_REG 1) FIFO_RST_REG 0;
               h4 = snd (in32 h3 FIFO_CNT_REG)
           in Some (b', h4, wvfm_messages b')))"

fun psc_send_all ::
  "'w send_fn \<Rightarrow> ('w \<Rightarrow> int \<Rightarrow> 'w) \<Rightarrow> (u16 \<times> u32 \<times> bytes) list \<Rightarrow> psc_key option \<times> 'w \<Rightarrow> (psc_key option \<times> 'w) option" where
  "psc_send_all send close [] st = Some st"
| "psc_send_all send close ((msgid, msglen, msg) # ms) st =
     (case psc_send send close st msgid msglen msg of
        None \<Rightarrow> None
      | Some st' \<Rightarrow> psc_send_all send close ms st')"

text \<open>The whole round: a record and its broadcast to the clients of \<open>the_server\<close>.\<close>

definition wvfmdata_push ::
  "nat \<Rightarrow> 'h in32_fn \<Rightarrow> 'h out32_fn \<Rightarrow> 'w send_fn \<Rightarrow> ('w \<Rightarrow> int \<Rightarrow> 'w) \<Rightarrow>
     wvfm_bufs \<Rightarrow> 'h \<Rightarrow> psc_key option \<times> 'w \<Rightarrow> (wvfm_bufs \<times> 'h \<times> psc_key option \<times> 'w) option" where
  "wvfmdata_push fuel in32 out32 send close b h st =
     (case wvfm_round fuel in32 out32 b h of
        None \<Rightarrow> None
      | Some (b', h', ms) \<Rightarrow> map_option (\<lambda>st'. (b', h', st')) (psc_send_all send close ms st))"

section \<open>The FIFO\<close>

definition fifo_contract :: "'h in32_fn \<Rightarrow> ('h \<Rightarrow> u32 list) \<Rightarrow> ('h \<Rightarrow> u32 \<times> u32) \<Rightarrow> bool" where
  "fifo_contract in32 fifo stamp \<longleftrightarrow>
     (\<forall>h x xs. fifo h = x # xs \<longrightarrow> fst (in32 h FIFO_DATA_REG) = x
        \<and> fifo (snd (in32 h FIFO_DATA_REG)) = xs \<and> stamp (snd (in32 h FIFO_DATA_REG)) = stamp h)
     \<and> (\<forall>h. fst (in32 h EVR_TS_NS_LAT_REG) = fst (stamp h) \<and> stamp (snd (in32 h EVR_TS_NS_LAT_REG)) = stamp h)
     \<and> (\<forall>h. fst (in32 h EVR_TS_S_LAT_REG) = snd (stamp h))"

lemma fifo_contractD:
  assumes "fifo_contract in32 fifo stamp"
  shows "fifo h = x # xs \<Longrightarrow> \<exists>h'. in32 h FIFO_DATA_REG = (x, h') \<and> fifo h' = xs \<and> stamp h' = stamp h"
    and "\<exists>h'. in32 h EVR_TS_NS_LAT_REG = (fst (stamp h), h') \<and> stamp h' = stamp h"
    and "\<exists>h'. in32 h EVR_TS_S_LAT_REG = (snd (stamp h), h')"
proof -
  show "\<exists>h'. in32 h FIFO_DATA_REG = (x, h') \<and> fifo h' = xs \<and> stamp h' = stamp h" if "fifo h = x # xs"
    using assms that unfolding fifo_contract_def
    by (intro exI [of _ "snd (in32 h FIFO_DATA_REG)"]) (simp add: prod_eq_iff)
  show "\<exists>h'. in32 h EVR_TS_NS_LAT_REG = (fst (stamp h), h') \<and> stamp h' = stamp h"
    using assms unfolding fifo_contract_def
    by (intro exI [of _ "snd (in32 h EVR_TS_NS_LAT_REG)"]) (simp add: prod_eq_iff)
  show "\<exists>h'. in32 h EVR_TS_S_LAT_REG = (snd (stamp h), h')"
    using assms unfolding fifo_contract_def
    by (intro exI [of _ "snd (in32 h EVR_TS_S_LAT_REG)"]) (simp add: prod_eq_iff)
qed

definition bufs_wf :: "wvfm_bufs \<Rightarrow> bool" where
  "bufs_wf b \<longleftrightarrow> length (pulse_stats b) = 64 \<and> length (eeprom b) = 64 \<and> length (boow_adc b) = 128
     \<and> length (wvfm_adc b) = 16000 \<and> length (timestamp b) = 2"

lemma bufs_wf_init: "bufs_wf wvfm_init"
  by (simp add: bufs_wf_def wvfm_init_def)

lemma read32_loop_fifo:
  assumes "fifo_contract in32 fifo stamp"
    and "fifo h = ws @ rest" "i + length ws = n" "n \<le> length arr"
  shows "\<exists>h'. read32_loop in32 i n arr h = (take i arr @ map htonl ws @ drop n arr, h')
           \<and> fifo h' = rest \<and> stamp h' = stamp h"
  using assms(2-4)
proof (induction ws arbitrary: i arr h)
  case Nil
  then show ?case by (auto simp: read32_loop.simps [of in32 n n])
next
  case (Cons x ws)
  obtain h1 where h1: "in32 h FIFO_DATA_REG = (x, h1)" "fifo h1 = ws @ rest" "stamp h1 = stamp h"
    using fifo_contractD(1) [OF assms(1)] Cons.prems(1) by fastforce
  have "read32_loop in32 i n arr h = read32_loop in32 (i + 1) n (arr[i := htonl x]) h1"
    using Cons.prems(2) h1(1) by (simp add: read32_loop.simps [of in32 i])
  moreover have "take (Suc i) (arr[i := htonl x]) = take i arr @ [htonl x]"
    using Cons.prems(2,3) by (simp add: take_Suc_conv_app_nth)
  ultimately show ?case
    using Cons.IH [OF h1(2), of "i + 1" "arr[i := htonl x]"] Cons.prems(2,3) h1(3) by auto
qed

definition unpack16 :: "u32 \<Rightarrow> u16 list" where
  "unpack16 w = [htons (ucast (drop_bit 16 (w AND 0xFFFF0000))), htons (ucast (w AND 0xFFFF))]"

lemma read16_loop_fifo:
  assumes "fifo_contract in32 fifo stamp"
    and "fifo h = ws @ rest" "i + 2 * length ws = n" "n \<le> length arr"
  shows "\<exists>h'. read16_loop in32 i n arr h = (take i arr @ concat (map unpack16 ws) @ drop n arr, h')
           \<and> fifo h' = rest \<and> stamp h' = stamp h"
  using assms(2-4)
proof (induction ws arbitrary: i arr h)
  case Nil
  then show ?case by (auto simp: read16_loop.simps [of in32 n n])
next
  case (Cons x ws)
  obtain h1 where h1: "in32 h FIFO_DATA_REG = (x, h1)" "fifo h1 = ws @ rest" "stamp h1 = stamp h"
    using fifo_contractD(1) [OF assms(1)] Cons.prems(1) by fastforce
  let ?arr = "arr[i := unpack16 x ! 0, i + 1 := unpack16 x ! 1]"
  have "read16_loop in32 i n arr h = read16_loop in32 (i + 2) n ?arr h1"
    using Cons.prems(2) h1(1) by (simp add: read16_loop.simps [of in32 i] unpack16_def)
  moreover have "take (i + 2) ?arr = take i arr @ unpack16 x"
    using Cons.prems(2,3) by (simp add: take_Suc_conv_app_nth unpack16_def nth_list_update)
  ultimately show ?case
    using Cons.IH [OF h1(2), of "i + 2" ?arr] Cons.prems(2,3) h1(3) by auto
qed

text \<open>Two packed samples in network order are the bytes of the FIFO word in network order.\<close>

lemma unpack16_bytes: "concat (map put16 (unpack16 w)) = be32 w"
proof -
  have m: "(0xFFFF0000::u32) = push_bit 16 (mask 16)" "(0xFFFF::u32) = mask 16"
    by (simp_all add: mask_eq_exp_minus_1)
  have "ucast (drop_bit 16 (w AND 0xFFFF0000)) = (ucast (drop_bit 16 w) :: u16)"
    "ucast (w AND 0xFFFF) = (ucast w :: u16)"
    unfolding m by (rule bit_word_eqI; auto simp: bit_push_bit_iff bit_and_iff bit_drop_bit_eq bit_mask_iff bit_ucast_iff)+
  then have "concat (map put16 (unpack16 w)) = be16 (ucast (drop_bit 16 w)) @ be16 (ucast w)"
    by (simp add: unpack16_def be16_def)
  also have "\<dots> = be32 w"
    by (auto simp: be16_bytes be32_bytes intro!: bit_word_eqI simp: bit_simps)
  finally show ?thesis .
qed

lemma unpack16_list_bytes: "concat (map put16 (concat (map unpack16 ws))) = concat (map be32 ws)"
  by (induction ws) (auto simp: unpack16_bytes)

lemma map_put32_htonl: "concat (map put32 (map htonl ws)) = concat (map be32 ws)"
  by (induction ws) (auto simp: be32_def)

lemma wvfm_read_record:
  assumes "fifo_contract in32 fifo stamp" "bufs_wf b"
    and "fifo h = ps @ ee @ bo @ wv @ rest"
    and "length ps = 64" "length ee = 64" "length bo = 64" "length wv = 8000"
  shows "\<exists>h'. wvfm_read in32 b h =
           (\<lparr>pulse_stats = map htonl ps, eeprom = map htonl ee, boow_adc = concat (map unpack16 bo),
             wvfm_adc = concat (map unpack16 wv),
             timestamp = [htonl (fst (stamp h)), htonl (snd (stamp h))]\<rparr>, h')"
proof -
  note wf = assms(2) [unfolded bufs_wf_def]
  obtain h1 where 1: "read32_loop in32 0 64 (pulse_stats b) h = (map htonl ps, h1)"
    "fifo h1 = ee @ bo @ wv @ rest" "stamp h1 = stamp h"
    using read32_loop_fifo [OF assms(1,3), of 0 64 "pulse_stats b"] wf assms(4) by auto
  obtain h2 where 2: "read32_loop in32 0 64 (eeprom b) h1 = (map htonl ee, h2)"
    "fifo h2 = bo @ wv @ rest" "stamp h2 = stamp h"
    using read32_loop_fifo [OF assms(1) 1(2), of 0 64 "eeprom b"] wf assms(5) 1(3) by auto
  obtain h3 where 3: "read16_loop in32 0 128 (boow_adc b) h2 = (concat (map unpack16 bo), h3)"
    "fifo h3 = wv @ rest" "stamp h3 = stamp h"
    using read16_loop_fifo [OF assms(1) 2(2), of 0 128 "boow_adc b"] wf assms(6) 2(3) by auto
  obtain h4 where 4: "read16_loop in32 0 16000 (wvfm_adc b) h3 = (concat (map unpack16 wv), h4)"
    "stamp h4 = stamp h"
    using read16_loop_fifo [OF assms(1) 3(2), of 0 16000 "wvfm_adc b"] wf assms(7) 3(3) by auto
  obtain h5 where 5: "in32 h4 EVR_TS_NS_LAT_REG = (fst (stamp h), h5)" "stamp h5 = stamp h"
    using fifo_contractD(2) [OF assms(1), of h4] 4(2) by auto
  obtain h6 where 6: "in32 h5 EVR_TS_S_LAT_REG = (snd (stamp h), h6)"
    using fifo_contractD(3) [OF assms(1), of h5] 5(2) by auto
  have "length (timestamp b) = Suc (Suc 0)" using wf by simp
  then obtain t0 t1 where "timestamp b = [t0, t1]" by (auto simp: length_Suc_conv)
  with 1 2 3 4 5 6 show ?thesis by (simp add: wvfm_read_def)
qed

text \<open>
  A complete record: when the poll ends with more than 8000 words and the FIFO holds the 8192 words of
  a record, one round sends, in the order 52, 53, 54, 51, 55, the EEPROM words, the samples before the
  trigger, the waveform, the pulse statistics and the latched time stamp, each message being exactly the
  FIFO words (two samples to a word) in network byte order.
\<close>

lemma wvfm_round_record:
  assumes "fifo_contract in32 fifo stamp" "bufs_wf b"
    and "wvfm_poll fuel in32 h = Some (cnt, h1)" "8000 < cnt"
    and "fifo h1 = ps @ ee @ bo @ wv @ rest"
    and "length ps = 64" "length ee = 64" "length bo = 64" "length wv = 8000"
  shows "\<exists>b' h'. wvfm_round fuel in32 out32 b h = Some (b', h',
           [(52, 256, concat (map be32 ee)), (53, 256, concat (map be32 bo)),
            (54, 32000, concat (map be32 wv)), (51, 256, concat (map be32 ps)),
            (55, 8, be32 (fst (stamp h1)) @ be32 (snd (stamp h1)))]) \<and> bufs_wf b'"
proof -
  obtain h2 where "wvfm_read in32 b h1 =
      (\<lparr>pulse_stats = map htonl ps, eeprom = map htonl ee, boow_adc = concat (map unpack16 bo),
        wvfm_adc = concat (map unpack16 wv),
        timestamp = [htonl (fst (stamp h1)), htonl (snd (stamp h1))]\<rparr>, h2)" (is "_ = (?b', h2)")
    using wvfm_read_record [OF assms(1,2,5-9)] by blast
  moreover have "length (concat (map unpack16 ws)) = 2 * length ws" for ws
    by (induction ws) (auto simp: unpack16_def)
  then have "bufs_wf ?b'"
    using assms(6-9) by (simp add: bufs_wf_def)
  moreover have "wvfm_messages ?b' =
      [(52, 256, concat (map be32 ee)), (53, 256, concat (map be32 bo)),
       (54, 32000, concat (map be32 wv)), (51, 256, concat (map be32 ps)),
       (55, 8, be32 (fst (stamp h1)) @ be32 (snd (stamp h1)))]"
    by (simp only: wvfm_messages_def wvfm_bufs.simps unpack16_list_bytes map_put32_htonl)
      (simp add: put32_htonl_be32)
  ultimately show ?thesis
    using assms(3,4) by (simp add: wvfm_round_def)
qed

text \<open>The frames of a list of messages, as a client that keeps accepting sees them.\<close>

definition message_frames :: "(u16 \<times> u32 \<times> bytes) list \<Rightarrow> bytes" where
  "message_frames ms = concat (map (\<lambda>(msgid, msglen, msg). psc_frame msgid (take (unat msglen) msg)) ms)"

lemma psc_send_all_accepted:
  assumes "send_contract send sent" "close_contract close sent"
    and "list_all (\<lambda>(msgid, msglen, msg). unat msglen \<le> length msg) ms" "key_wf key" "distinct_socks key"
  shows "\<exists>key' w'. psc_send_all send close ms (Some key, w) = Some (Some key', w') \<and> key_wf key' \<and> distinct_socks key'
     \<and> (\<forall>i. live key i \<longrightarrow> send_accepts send (sock (clients key ! i)) \<longrightarrow>
          live key' i \<and> clients key' ! i = clients key ! i
          \<and> sent w' (sock (clients key ! i)) = sent w (sock (clients key ! i)) @ message_frames ms)
     \<and> (\<forall>s. s \<notin> live_socks key \<longrightarrow> sent w' s = sent w s)"
  using assms(3-5)
proof (induction ms arbitrary: key w)
  case Nil
  then show ?case by (simp add: message_frames_def)
next
  case (Cons m ms)
  obtain msgid msglen msg where m: "m = (msgid, msglen, msg)" by (cases m)
  then have len: "unat msglen \<le> length msg" "list_all (\<lambda>(msgid, msglen, msg). unat msglen \<le> length msg) ms"
    using Cons.prems(1) by simp_all
  obtain key1 w1 where 1: "psc_send send close (Some key, w) msgid msglen msg = Some (Some key1, w1)"
    "key_wf key1" "distinct_socks key1" "live_socks key1 \<subseteq> live_socks key"
    "\<forall>i. live key i \<and> send_accepts send (sock (clients key ! i)) \<longrightarrow>
       live key1 i \<and> clients key1 ! i = clients key ! i
       \<and> sent w1 (sock (clients key ! i)) = sent w (sock (clients key ! i)) @ psc_frame msgid (take (unat msglen) msg)"
    "\<forall>s. s \<notin> live_socks key \<longrightarrow> sent w1 s = sent w s"
    using psc_send_accepted [OF assms(1,2) len(1) Cons.prems(2,3), of w msgid] by blast
  obtain key' w' where 2: "psc_send_all send close ms (Some key1, w1) = Some (Some key', w')" "key_wf key' \<and> distinct_socks key'"
    "\<forall>i. live key1 i \<longrightarrow> send_accepts send (sock (clients key1 ! i)) \<longrightarrow>
        live key' i \<and> clients key' ! i = clients key1 ! i
        \<and> sent w' (sock (clients key1 ! i)) = sent w1 (sock (clients key1 ! i)) @ message_frames ms"
    "\<forall>s. s \<notin> live_socks key1 \<longrightarrow> sent w' s = sent w1 s"
    using Cons.IH [OF len(2) 1(2,3)] by blast
  have "psc_send_all send close (m # ms) (Some key, w) = Some (Some key', w')"
    using m 1(1) 2(1) by simp
  moreover have "live key' i \<and> clients key' ! i = clients key ! i
      \<and> sent w' (sock (clients key ! i)) = sent w (sock (clients key ! i)) @ message_frames (m # ms)"
    if "live key i" "send_accepts send (sock (clients key ! i))" for i
  proof -
    have old: "live key1 i" "clients key1 ! i = clients key ! i"
      "sent w1 (sock (clients key ! i)) = sent w (sock (clients key ! i)) @ psc_frame msgid (take (unat msglen) msg)"
      using 1(5) that by blast+
    then have "live key' i" "clients key' ! i = clients key ! i"
      "sent w' (sock (clients key ! i)) = sent w1 (sock (clients key ! i)) @ message_frames ms"
      using 2(3) that(2) by (metis, metis, metis)
    with old(3) show ?thesis by (simp add: m message_frames_def)
  qed
  moreover have "sent w' s = sent w s" if "s \<notin> live_socks key" for s
    using that 1(4,6) 2(4) by auto
  ultimately show ?case using 2(2) by blast
qed

text \<open>A FIFO for evaluation: its words and the latched time stamp (nanoseconds, seconds).\<close>

definition demo_in32 :: "(u32 list \<times> u32 \<times> u32) in32_fn" where
  "demo_in32 h r =
     (let (ws, ns, s) = h in
      if r = FIFO_CNT_REG then (of_nat (length ws), h)
      else if r = FIFO_DATA_REG then (hd (ws @ [0]), (tl ws, ns, s))
      else if r = EVR_TS_NS_LAT_REG then (ns, h)
      else if r = EVR_TS_S_LAT_REG then (s, h)
      else (0, h))"

definition demo_out32 :: "(u32 list \<times> u32 \<times> u32) out32_fn" where
  "demo_out32 h r v = (if r = FIFO_RST_REG \<and> v = 1 then ([], snd h) else h)"

lemma demo_fifo_contract: "fifo_contract demo_in32 fst snd"
  by (auto simp: fifo_contract_def demo_in32_def)

text \<open>
  C27. The wait for a record ends: if after some number of reads the FIFO count has reached 8000, that
  many rounds of polling (and any larger bound) return, with a count of at least 8000.
\<close>

theorem wvfm_poll_returns:
  assumes "8000 \<le> fst (in32 (((\<lambda>h. snd (in32 h FIFO_CNT_REG)) ^^ k) h) FIFO_CNT_REG)" "k < fuel"
  shows "\<exists>cnt h'. wvfm_poll fuel in32 h = Some (cnt, h') \<and> 8000 \<le> cnt"
  using assms
proof (induction fuel arbitrary: h k)
  case (Suc fuel)
  obtain cnt h1 where 1: "in32 h FIFO_CNT_REG = (cnt, h1)" by fastforce
  show ?case
  proof (cases "cnt < 8000")
    case True
    with Suc.prems(1) 1 obtain j where "k = Suc j" by (cases k) auto
    with Suc.prems 1 Suc.IH [of j h1] True show ?thesis by (simp add: funpow_Suc_right del: funpow.simps)
  qed (use 1 in auto)
qed simp

theorem wvfm_poll_returns_witness:
  "\<exists>cnt h'. wvfm_poll 3 (\<lambda>h r. (h, h + 5000)) 0 = Some (cnt, h') \<and> 8000 \<le> cnt"
  using wvfm_poll_returns [of "\<lambda>h r. (h, h + 5000)" "Suc (Suc 0)" 0 3] by simp

text \<open>
  At a count of exactly 8000 the wait ends but the record is not read: the round drops it with
  the FIFO reset and sends the previous record again.
\<close>

theorem wvfm_round_stale_at_threshold:
  assumes "wvfm_poll fuel in32 h = Some (8000, h1)"
  shows "\<exists>h'. wvfm_round fuel in32 out32 b h = Some (b, h', wvfm_messages b)"
  using assms by (simp add: wvfm_round_def)

theorem wvfm_round_stale_at_threshold_witness:
  "\<exists>h'. wvfm_round 1 (\<lambda>h r. (8000, h)) (\<lambda>h r v. h) wvfm_init () = Some (wvfm_init, h', wvfm_messages wvfm_init)"
  using wvfm_round_stale_at_threshold [of 1 "\<lambda>h r. (8000, h)" "()" "()" "\<lambda>h r v. h" wvfm_init]
  by (simp add: One_nat_def)

end
