(* ===== verification/Lstats.thy ===== *)
theory Lstats
  imports Prelude
begin

text \<open>
  The statistics message, \<open>src/sw/src/lstats.c\<close>, and \<open>htonf\<close> of \<open>local.h\<close>: the 21 words that
  \<open>lstats_push\<close> sends as message 101 every second, and the calls by which \<open>lstats_setup\<close> prepares the
  system monitor, when it is in the configuration table, and starts the thread.

  The values come from FreeRTOS, lwIP and the system monitor, and are arguments; a float is the
  32-bit word of its representation, as \<open>htonf\<close> sees it. \<open>link_stats\<close> and \<open>mem_stats\<close> say whether the
  build options include these counters; without them, and without a ready monitor, the fields
  stay zero.
\<close>

record link_counters =
  lk_xmit :: u32
  lk_recv :: u32
  lk_drop :: u32
  lk_chkerr :: u32
  lk_memerr :: u32
  lk_proterr :: u32
  lk_err :: u32

record mem_counters =
  mm_err :: u32
  mm_avail :: u32
  mm_used :: u32
  mm_max :: u32
  mm_illegal :: u32

record lstats_in =
  in_uptime :: u32
  in_nthread :: u32
  in_link :: link_counters
  in_mem :: mem_counters
  in_heap_avail :: u32
  in_heap_lowest :: u32
  in_heap_largest :: u32
  in_heap_allocs :: u32
  in_heap_frees :: u32
  in_mon_ready :: bool
  in_temp :: u32
  in_vccint :: u32
  in_vccaux :: u32

definition htonf :: "u32 \<Rightarrow> u32" where
  "htonf f = htonl f"

text \<open>The words of \<open>msg\<close> as they stand in memory: 7 link counters, 5 memory counters, 3 sensors, 4 heap figures.\<close>

definition lstats_words :: "bool \<Rightarrow> bool \<Rightarrow> lstats_in \<Rightarrow> u32 list" where
  "lstats_words link_stats mem_stats s =
     [htonf (in_uptime s), htonl (in_nthread s)]
     @ (if link_stats
        then map (\<lambda>mv. htonl (mv (in_link s))) [lk_xmit, lk_recv, lk_drop, lk_chkerr, lk_memerr, lk_proterr, lk_err]
        else replicate 7 0)
     @ (if mem_stats
        then map (\<lambda>mv. htonl (mv (in_mem s))) [mm_err, mm_avail, mm_used, mm_max, mm_illegal]
        else replicate 5 0)
     @ (if in_mon_ready s then [htonf (in_temp s), htonf (in_vccint s), htonf (in_vccaux s)] else [0, 0, 0])
     @ [htonl (in_heap_avail s), htonl (in_heap_largest s), htonl (in_heap_lowest s),
        htonl (in_heap_allocs s - in_heap_frees s)]"

definition lstats_push :: "bool \<Rightarrow> bool \<Rightarrow> lstats_in \<Rightarrow> u16 \<times> u32 \<times> bytes" where
  "lstats_push link_stats mem_stats s = (101, 84, concat (map put32 (lstats_words link_stats mem_stats s)))"

datatype seq_mode = SEQ_MODE_SAFE | SEQ_MODE_CONTINPASS
datatype mon_channel = SEQ_CH_TEMP

datatype lstats_step =
    Mon_cfg_initialize u32 | Mon_sequencer_mode seq_mode | Mon_avg nat
  | Mon_avg_enables "mon_channel list" | Mon_ch_enables "mon_channel list" | Mon_clk_divisor nat
  | Start_lstats_push

text \<open>\<open>conf\<close> is the base address of the monitor.\<close>

definition lstats_setup :: "u32 option \<Rightarrow> lstats_step list" where
  "lstats_setup conf =
     (case conf of
        None \<Rightarrow> []
      | Some base \<Rightarrow>
          [Mon_cfg_initialize base, Mon_sequencer_mode SEQ_MODE_SAFE, Mon_avg 256,
           Mon_avg_enables [SEQ_CH_TEMP], Mon_ch_enables [SEQ_CH_TEMP], Mon_clk_divisor 32,
           Mon_sequencer_mode SEQ_MODE_CONTINPASS])
     @ [Start_lstats_push]"

text \<open>
  C28. The layout of the statistics message: its body has the 84 bytes that are sent, and each of its 21 fields stands, in
  network byte order, at the offset the comments of the struct give it: uptime and number of threads, the seven
  link counters from 8, the five memory counters from 36, temperature and the two supply voltages at 56, 60 and
  64, and the free heap, its largest block, its lowest level and the live allocations (modulo 2^32) at 68, 72, 76
  and 80. Counters the build leaves out and the values of a monitor that is not ready are 0.
\<close>

theorem lstats_layout:
  "\<exists>body. lstats_push link_stats mem_stats s = (101, of_nat (length body), body) \<and> length body = 84
     \<and> rd32 (drop 0 body) = in_uptime s \<and> rd32 (drop 4 body) = in_nthread s
     \<and> (let lk = (\<lambda>mv. if link_stats then mv (in_link s) else 0) in
          rd32 (drop 8 body) = lk lk_xmit \<and> rd32 (drop 12 body) = lk lk_recv \<and> rd32 (drop 16 body) = lk lk_drop
          \<and> rd32 (drop 20 body) = lk lk_chkerr \<and> rd32 (drop 24 body) = lk lk_memerr
          \<and> rd32 (drop 28 body) = lk lk_proterr \<and> rd32 (drop 32 body) = lk lk_err)
     \<and> (let mm = (\<lambda>mv. if mem_stats then mv (in_mem s) else 0) in
          rd32 (drop 36 body) = mm mm_err \<and> rd32 (drop 40 body) = mm mm_avail \<and> rd32 (drop 44 body) = mm mm_used
          \<and> rd32 (drop 48 body) = mm mm_max \<and> rd32 (drop 52 body) = mm mm_illegal)
     \<and> (let mon = (\<lambda>v. if in_mon_ready s then v else 0) in
          rd32 (drop 56 body) = mon (in_temp s) \<and> rd32 (drop 60 body) = mon (in_vccint s)
          \<and> rd32 (drop 64 body) = mon (in_vccaux s))
     \<and> rd32 (drop 68 body) = in_heap_avail s \<and> rd32 (drop 72 body) = in_heap_largest s
     \<and> rd32 (drop 76 body) = in_heap_lowest s \<and> rd32 (drop 80 body) = in_heap_allocs s - in_heap_frees s"
proof -
  let ?vals = "[in_uptime s, in_nthread s]
    @ map (\<lambda>mv. if link_stats then mv (in_link s) else 0) [lk_xmit, lk_recv, lk_drop, lk_chkerr, lk_memerr, lk_proterr, lk_err]
    @ map (\<lambda>mv. if mem_stats then mv (in_mem s) else 0) [mm_err, mm_avail, mm_used, mm_max, mm_illegal]
    @ (if in_mon_ready s then [in_temp s, in_vccint s, in_vccaux s] else [0, 0, 0])
    @ [in_heap_avail s, in_heap_largest s, in_heap_lowest s, in_heap_allocs s - in_heap_frees s]"
  let ?body = "concat (map be32 ?vals)"
  have z: "htonl 0 = 0" by (simp add: htonl_def put32.simps get32.simps)
  have "lstats_words link_stats mem_stats s = map htonl ?vals"
    by (simp add: lstats_words_def htonf_def z eval_nat_numeral)
  moreover have "concat (map put32 (map htonl ws)) = concat (map be32 ws)" for ws
    by (induction ws) (auto simp: be32_def)
  ultimately have push: "lstats_push link_stats mem_stats s = (101, 84, ?body)"
    by (simp only: lstats_push_def)
  have len: "length ?vals = 21" by simp
  have body: "length ?body = 84"
    using wire32.length_enc_list [of ?vals] len by simp
  have word: "rd32 (drop (4 * i) ?body) = ?vals ! i" if "i < 21" for i
    using wire32.dec_nth_enc_list [of i ?vals "[]"] that len by simp
  obtain b where b: "b = ?body" by blast
  show ?thesis
    using push body word [of 0] word [of 1] word [of 2] word [of 3] word [of 4] word [of 5] word [of 6] word [of 7]
      word [of 8] word [of 9] word [of 10] word [of 11] word [of 12] word [of 13] word [of 14] word [of 15] word [of 16]
      word [of 17] word [of 18] word [of 19] word [of 20]
    unfolding b [symmetric]
    by (intro exI [of _ b]) (cases "in_mon_ready s"; simp add: Let_def eval_nat_numeral)
qed

end
