(* ===== verification/Outbound.thy ===== *)
theory Outbound
  imports Concurrent Wvfmdata Lstats
begin

text \<open>
  What a client is sent: the messages of the waveform thread over any number of rounds, those of the
  statistics thread and the greeting, in whatever order the mutex of the server lets them through, as one
  stream of bytes on the connection. \<open>out_length\<close> is the length each message number has, \<open>frames_of\<close> a
  receiver that knows nothing but the header.
\<close>

section \<open>Messages and their lengths\<close>

definition out_length :: "u16 \<rightharpoonup> u32" where
  "out_length = [51 \<mapsto> 256, 52 \<mapsto> 256, 53 \<mapsto> 256, 54 \<mapsto> 32000, 55 \<mapsto> 8, 101 \<mapsto> 84, 0x100 \<mapsto> 8]"

fun msg_typed :: "u16 \<times> u32 \<times> bytes \<Rightarrow> bool" where
  "msg_typed (msgid, msglen, msg) \<longleftrightarrow> out_length msgid = Some msglen \<and> length msg = unat msglen"

text \<open>The \<open>while (1)\<close> of \<open>wvfmdata_push\<close> for \<open>n\<close> rounds, and the messages they send.\<close>

fun wvfm_rounds ::
  "nat \<Rightarrow> nat \<Rightarrow> 'h in32_fn \<Rightarrow> 'h out32_fn \<Rightarrow> wvfm_bufs \<Rightarrow> 'h \<Rightarrow>
     (wvfm_bufs \<times> 'h \<times> (u16 \<times> u32 \<times> bytes) list) option" where
  "wvfm_rounds 0 fuel in32 out32 b h = Some (b, h, [])"
| "wvfm_rounds (Suc n) fuel in32 out32 b h =
     (case wvfm_round fuel in32 out32 b h of
        None \<Rightarrow> None
      | Some (b1, h1, ms) \<Rightarrow>
          map_option (\<lambda>(b2, h2, ms'). (b2, h2, ms @ ms')) (wvfm_rounds n fuel in32 out32 b1 h1))"

text \<open>Whatever the hardware answers, the arrays keep their sizes.\<close>

lemma length_read32_loop: "length (fst (read32_loop in32 i n arr h)) = length arr"
  by (induction in32 i n arr h rule: read32_loop.induct)
    (subst read32_loop.simps, simp split: prod.split)

lemma length_read16_loop: "length (fst (read16_loop in32 i n arr h)) = length arr"
  by (induction in32 i n arr h rule: read16_loop.induct)
    (subst read16_loop.simps, simp split: prod.split)

lemma bufs_wf_read: "bufs_wf b \<Longrightarrow> bufs_wf (fst (wvfm_read in32 b h))"
  by (simp add: bufs_wf_def wvfm_read_def length_read32_loop [symmetric] length_read16_loop [symmetric] split_beta)
    (simp add: length_read32_loop length_read16_loop)

lemma length_concat_put:
  "length (concat (map put32 ws)) = 4 * length ws" "length (concat (map put16 hs)) = 2 * length hs"
  by (induction ws; simp) (induction hs; simp)

lemma wvfm_messages_typed: "bufs_wf b \<Longrightarrow> list_all msg_typed (wvfm_messages b)"
  by (simp add: wvfm_messages_def bufs_wf_def length_concat_put out_length_def)

lemma wvfm_round_typed:
  assumes "wvfm_round fuel in32 out32 b h = Some (b', h', ms)" "bufs_wf b"
  shows "bufs_wf b' \<and> list_all msg_typed ms"
proof -
  obtain h1 where "b' = b \<or> b' = fst (wvfm_read in32 b h1)" and ms: "ms = wvfm_messages b'"
    using assms(1) by (auto simp: wvfm_round_def Let_def split_beta split: option.splits if_splits)
  then have "bufs_wf b'" using bufs_wf_read [OF assms(2), of in32 h1] assms(2) by auto
  with wvfm_messages_typed ms show ?thesis by simp
qed

lemma wvfm_rounds_typed:
  "wvfm_rounds n fuel in32 out32 b h = Some (b', h', ms) \<Longrightarrow> bufs_wf b \<Longrightarrow> bufs_wf b' \<and> list_all msg_typed ms"
proof (induction n arbitrary: b h ms)
  case (Suc n)
  then show ?case
    by (auto split: option.splits dest!: wvfm_round_typed) 
qed simp

lemma lstats_typed:
  "msg_typed (lstats_push link_stats mem_stats s)"
  by (simp add: lstats_push_def lstats_words_def length_concat_put out_length_def)

section \<open>The stream\<close>

function frames_of :: "bytes \<Rightarrow> (u16 \<times> bytes) list option" where
  "frames_of bs =
     (if bs = [] then Some []
      else let H = psc_header_of (take 8 bs); n = unat (ntohl (hdr_mlen H)) in
           if length bs < 8 \<or> hdr_P H \<noteq> CH_P \<or> hdr_S H \<noteq> CH_S \<or> length bs < 8 + n then None
           else map_option (Cons (ntohs (hdr_mid H), take n (drop 8 bs))) (frames_of (drop (8 + n) bs)))"
  by pat_completeness auto
termination
  by (relation "measure length") auto

declare frames_of.simps [simp del]

lemma frames_of_frame:
  assumes "length body < 2 ^ 32"
  shows "frames_of (psc_frame mid body @ rest) = map_option (Cons (mid, body)) (frames_of rest)"
proof -
  let ?bs = "psc_frame mid body @ rest"
  have "take 8 ?bs = [CH_P, CH_S] @ be16 mid @ be32 (of_nat (length body))"
    by (simp add: psc_frame_def)
  then have "psc_header_of (take 8 ?bs) =
      \<lparr>hdr_P = CH_P, hdr_S = CH_S, hdr_mid = htons mid, hdr_mlen = htonl (of_nat (length body))\<rparr>"
    by (simp only: psc_header_of_wire)
  moreover have "unat (of_nat (length body) :: u32) = length body"
    using assms by (simp add: unat_of_nat take_bit_nat_eq_self)
  moreover have "psc_frame mid body \<noteq> []" "drop 8 (psc_frame mid body) = body" by (simp_all add: psc_frame_def)
  ultimately show ?thesis
    by (simp add: frames_of.simps [of ?bs] Let_def)
qed

lemma frames_of_message_frames:
  "list_all msg_typed ms \<Longrightarrow>
   frames_of (message_frames ms @ rest) = map_option ((@) (map (\<lambda>(msgid, msglen, msg). (msgid, msg)) ms)) (frames_of rest)"
proof (induction ms)
  case Nil
  then show ?case by (simp add: message_frames_def option.map_ident)
next
  case (Cons m ms)
  obtain msgid msglen msg where m: "m = (msgid, msglen, msg)" by (cases m)
  have "length msg < 2 ^ 32"
    using Cons.prems unsigned_less [of msglen] by (simp add: m)
  then have "frames_of (psc_frame msgid msg @ message_frames ms @ rest) =
      map_option (Cons (msgid, msg)) (frames_of (message_frames ms @ rest))"
    by (rule frames_of_frame)
  with Cons show ?case
    by (simp add: m message_frames_def option.map_comp comp_def)
qed

text \<open>The greeting, on a connection that keeps accepting.\<close>

lemma greeting_accepted:
  assumes "send_contract send sent" "close_contract close sent" "live key i"
    and "send_accepts send (sock (clients key ! i))" "has_PSC (clients key ! i)"
  shows "\<exists>w'. client_event send close git_hash PSC_CONN i (key, w) = Some (key, w')
     \<and> sent w' = (sent w)(sock (clients key ! i) :=
         sent w (sock (clients key ! i)) @ message_frames [(0x100, 8, be32 git_hash @ replicate 4 0)])"
proof -
  have body: "put32 (htonl git_hash) @ put32 0 = be32 git_hash @ replicate 4 0"
    by (simp add: be32_def put32.simps eval_nat_numeral)
  have len: "unat (8 :: u32) \<le> length (be32 git_hash @ replicate 4 0)" by simp
  have sock: "sock (clients key ! i) \<noteq> -1" using assms(3) by (simp add: live_def)
  obtain w' where "psc_send_client send close 0x100 8 (be32 git_hash @ replicate 4 0) i (key, w) = Some (key, w')"
    "sent w' = (sent w)(sock (clients key ! i) := sent w (sock (clients key ! i))
       @ psc_frame 0x100 (take (unat (8 :: u32)) (be32 git_hash @ replicate 4 0)))"
    by (rule psc_send_client_live [OF assms(1,2) len sock, where msgid = "0x100" and w = w]) (use assms(4) in auto)
  then show ?thesis
    using assms(5) unfolding client_event_def psc_send_one_def body by (simp add: message_frames_def)
qed

lemma psc_send_all_typed:
  assumes "send_contract send sent" "close_contract close sent" "list_all msg_typed ms"
    and "key_wf key" "distinct_socks key" "live key i" "send_accepts send (sock (clients key ! i))"
  shows "\<exists>key' w'. psc_send_all send close ms (Some key, w) = Some (Some key', w') \<and> key_wf key' \<and> distinct_socks key'
     \<and> live key' i \<and> clients key' ! i = clients key ! i
     \<and> sent w' (sock (clients key ! i)) = sent w (sock (clients key ! i)) @ message_frames ms"
proof -
  have "list_all (\<lambda>(msgid, msglen, msg). unat msglen \<le> length msg) ms"
    using assms(3) by (induction ms) auto
  from psc_send_all_accepted [OF assms(1,2) this assms(4,5), of w] assms(6,7) show ?thesis by blast
qed

lemma message_frames_append: "message_frames (ms @ ns) = message_frames ms @ message_frames ns"
  by (simp add: message_frames_def)

text \<open>
  C7. The type of every outgoing stream: let the waveform thread run for any number of rounds, on hardware
  that answers whatever it likes, and the statistics thread send any number of messages, the two in any
  order, and let a client be greeted at any point of this. None of it reads outside a buffer, every message
  has the length its number stands for, and a client that keeps accepting receives a stream that splits
  into exactly these messages, by the headers alone.
\<close>

theorem client_stream_typed:
  assumes "wvfm_rounds n fuel in32 out32 wvfm_init h = Some (b, h', wms)"
    and "ms @ ms' \<in> merges [wms, map (lstats_push link_stats mem_stats) stats]"
    and "send_contract send sent" "close_contract close sent" "key_wf key" "distinct_socks key"
    and "live key i" "send_accepts send (sock (clients key ! i))" "sent w (sock (clients key ! i)) = []"
  shows "\<exists>key1 w1 w2 key3 w3. psc_send_all send close ms (Some key, w) = Some (Some key1, w1)
     \<and> client_event send close git_hash PSC_CONN i (key1, w1) = Some (key1, w2)
     \<and> psc_send_all send close ms' (Some key1, w2) = Some (Some key3, w3) \<and> clients key3 ! i = clients key ! i
     \<and> list_all msg_typed (ms @ [(0x100, 8, be32 git_hash @ replicate 4 0)] @ ms')
     \<and> frames_of (sent w3 (sock (clients key ! i))) =
         Some (map (\<lambda>(msgid, msglen, msg). (msgid, msg)) (ms @ [(0x100, 8, be32 git_hash @ replicate 4 0)] @ ms'))"
proof -
  let ?s = "sock (clients key ! i)" and ?hello = "(0x100, 8, be32 git_hash @ replicate 4 0) :: u16 \<times> u32 \<times> bytes"
  have "list_all msg_typed wms" using wvfm_rounds_typed [OF assms(1) bufs_wf_init] by simp
  moreover have "list_all msg_typed (map (lstats_push link_stats mem_stats) stats)"
    by (auto simp: list_all_iff intro: lstats_typed)
  ultimately have typed: "list_all msg_typed (ms @ [?hello] @ ms')"
    using set_merges [OF assms(2)] by (auto simp: list_all_iff out_length_def)
  then have parts: "list_all msg_typed ms" "list_all msg_typed ms'" by simp_all
  obtain key1 w1 where 1: "psc_send_all send close ms (Some key, w) = Some (Some key1, w1)" "key_wf key1" "distinct_socks key1"
    "live key1 i" "clients key1 ! i = clients key ! i" "sent w1 ?s = message_frames ms"
    using psc_send_all_typed [OF assms(3,4) parts(1) assms(5-8), of w] assms(9) by auto
  obtain w2 where 2: "client_event send close git_hash PSC_CONN i (key1, w1) = Some (key1, w2)"
    "sent w2 ?s = message_frames (ms @ [?hello])"
    using greeting_accepted [OF assms(3,4) 1(4), of git_hash w1] key_wfD(4) [OF 1(2), of i] 1(4-6) assms(8)
    by (auto simp: message_frames_append live_def)
  obtain key3 w3 where 3: "psc_send_all send close ms' (Some key1, w2) = Some (Some key3, w3)"
    "clients key3 ! i = clients key ! i" "sent w3 ?s = message_frames (ms @ [?hello] @ ms')"
    using psc_send_all_typed [OF assms(3,4) parts(2) 1(2-4), of w2] 1(5) 2(2) assms(8)
    by (auto simp: message_frames_def)
  have "frames_of [] = Some []" by (simp add: frames_of.simps)
  then have "frames_of (sent w3 ?s) = Some (map (\<lambda>(msgid, msglen, msg). (msgid, msg)) (ms @ [?hello] @ ms'))"
    using frames_of_message_frames [OF typed, of "[]"] 3(3) by simp
  with 1(1) 2(1) 3(1,2) typed show ?thesis by blast
qed

theorem client_stream_typed_witness:
  "\<exists>key1 w1 w2 key3 w3. psc_send_all demo_send (\<lambda>w s. w) [] (Some demo_key2, \<lambda>_. []) = Some (Some key1, w1)
     \<and> client_event demo_send (\<lambda>w s. w) 7 PSC_CONN 0 (key1, w1) = Some (key1, w2)
     \<and> psc_send_all demo_send (\<lambda>w s. w) (wvfm_messages wvfm_init) (Some key1, w2) = Some (Some key3, w3)
     \<and> map_option (map fst) (frames_of (w3 5)) = Some [0x100, 52, 53, 54, 51, 55]"
proof -
  have run: "wvfm_rounds 1 1 (\<lambda>h r. (8000, h)) (\<lambda>h r v. h) wvfm_init () = Some (wvfm_init, (), wvfm_messages wvfm_init)"
    by (simp add: wvfm_round_def One_nat_def)
  have merge: "[] @ wvfm_messages wvfm_init \<in> merges [wvfm_messages wvfm_init, map (lstats_push True True) []]"
    by simp
  have live: "live demo_key2 0" "sock (clients demo_key2 ! 0) = 5"
    using demo_key2_live by (auto simp: demo_key2_eq)
  have acc: "send_accepts demo_send (sock (clients demo_key2 ! 0))"
    by (simp add: send_accepts_def demo_send_def)
  have socks: "distinct_socks demo_key2"
    using demo_key2_wf(2) by (simp add: distinct_socks_def)
  from client_stream_typed [OF run merge demo_send_contract demo_close_contract demo_key2_wf(1) socks live(1) acc,
      where w = "\<lambda>_. []" and git_hash = 7, OF refl]
  obtain key1 w1 w2 key3 w3 where
    "psc_send_all demo_send (\<lambda>w s. w) [] (Some demo_key2, \<lambda>_. []) = Some (Some key1, w1)"
    "client_event demo_send (\<lambda>w s. w) 7 PSC_CONN 0 (key1, w1) = Some (key1, w2)"
    "psc_send_all demo_send (\<lambda>w s. w) (wvfm_messages wvfm_init) (Some key1, w2) = Some (Some key3, w3)"
    "frames_of (w3 (sock (clients demo_key2 ! 0))) =
       Some (map (\<lambda>(msgid, msglen, msg). (msgid, msg)) ([] @ [(0x100, 8, be32 7 @ replicate 4 0)] @ wvfm_messages wvfm_init))"
    by blast
  then show ?thesis
    unfolding live(2) wvfm_messages_def
    by (intro exI [of _ key1] exI [of _ w1] exI [of _ w2] exI [of _ key3] exI [of _ w3] conjI)
      (simp_all only: option.map list.map prod.case append.simps fst_conv)
qed

end
