(* ===== verification/Sockets.thy ===== *)
theory Sockets
  imports Listener
begin

text \<open>
  Who owns which socket: the server of \<open>listener.c\<close> together with the descriptors of lwIP. The state adds to the
  server what its threads hold outside it: the accepted connection whose slot is allocated but not yet filled, the
  copy of \<open>C->sock\<close> each receive thread took when it started, and the descriptors of threads that have freed
  their slot and not yet closed their socket. \<open>opens\<close> are the open descriptors; \<open>accept\<close> returns one that is not
  open.

  lwIP numbers descriptors from 0 and reuses closed ones. \<open>conn_step False\<close> are the steps when it does not
  give out a number that a thread of the server still holds as its copy, and \<open>conn_step True\<close> are all steps.
\<close>

section \<open>Definitions\<close>

record 'w server =
  srv_key :: psc_key
  srv_world :: 'w
  srv_accept :: "(nat \<times> int \<times> sockaddr) option"
  srv_threads :: "nat \<rightharpoonup> int"
  srv_closing :: "int list"

definition srv_init :: "psc_key \<Rightarrow> 'w \<Rightarrow> 'w server" where
  "srv_init key w = \<lparr>srv_key = key, srv_world = w, srv_accept = None, srv_threads = Map.empty, srv_closing = []\<rparr>"

text \<open>Sending neither opens nor closes a descriptor, closing closes one.\<close>

definition opens_contract :: "'w send_fn \<Rightarrow> ('w \<Rightarrow> int \<Rightarrow> 'w) \<Rightarrow> ('w \<Rightarrow> int set) \<Rightarrow> bool" where
  "opens_contract send close opens \<longleftrightarrow>
     (\<forall>w s b f. opens (snd (send w s b f)) = opens w) \<and> (\<forall>w s. opens (close w s) = opens w - {s})"

definition held_by_thread :: "'w server \<Rightarrow> int \<Rightarrow> bool" where
  "held_by_thread st s \<longleftrightarrow> s \<in> ran (srv_threads st) \<or> s \<in> set (srv_closing st)"

text \<open>
  The steps, each with the thread that takes it: the accepting thread has \<open>accept\<close> with \<open>psc_client_alloc\<close>, and
  the store of socket and peer; the receive thread of slot \<open>c\<close> has its start, a received message, \<open>psc_send_one\<close> and the freeing of its
  slot; having freed it, it closes its copy \<open>s\<close> of the socket; any thread may call \<open>psc_send\<close>.
\<close>

datatype actor = Accepting | Receiving nat | Leaving int | Sending

inductive conn_act ::
  "bool \<Rightarrow> 'w send_fn \<Rightarrow> ('w \<Rightarrow> int \<Rightarrow> 'w) \<Rightarrow> ('w \<Rightarrow> int set) \<Rightarrow> actor \<Rightarrow> 'w server \<Rightarrow> 'w server \<Rightarrow> bool"
  for reuse send close opens where
  act_alloc:
    "srv_accept st = None \<Longrightarrow> listen_sock (srv_key st) \<in> opens (srv_world st) \<Longrightarrow> 0 \<le> s \<Longrightarrow> s \<notin> opens (srv_world st) \<Longrightarrow>
     reuse \<or> \<not> held_by_thread st s \<Longrightarrow> opens w = insert s (opens (srv_world st)) \<Longrightarrow>
     psc_client_alloc (srv_key st) = (Some c, key) \<Longrightarrow>
     conn_act reuse send close opens Accepting st (st\<lparr>srv_key := key, srv_world := w, srv_accept := Some (c, s, caddr)\<rparr>)"
| act_drop:
    "srv_accept st = None \<Longrightarrow> listen_sock (srv_key st) \<in> opens (srv_world st) \<Longrightarrow> 0 \<le> s \<Longrightarrow> s \<notin> opens (srv_world st) \<Longrightarrow>
     opens w = insert s (opens (srv_world st)) \<Longrightarrow> psc_client_alloc (srv_key st) = (None, key) \<Longrightarrow>
     conn_act reuse send close opens Accepting st (st\<lparr>srv_key := key, srv_world := close w s\<rparr>)"
| act_store:
    "srv_accept st = Some (c, s, caddr) \<Longrightarrow>
     conn_act reuse send close opens Accepting st
       (st\<lparr>srv_key := psc_client_assign c s caddr (srv_key st), srv_accept := None\<rparr>)"
| act_start:
    "c \<in> used_slots (srv_key st) \<Longrightarrow> srv_threads st c = None \<Longrightarrow> \<forall>s a. srv_accept st \<noteq> Some (c, s, a) \<Longrightarrow>
     conn_act reuse send close opens (Receiving c) st
       (st\<lparr>srv_threads := (srv_threads st)(c \<mapsto> sock (clients (srv_key st) ! c))\<rparr>)"
| act_receive:
    "srv_threads st c = Some s \<Longrightarrow> length buf = RXBUF_SIZE \<Longrightarrow> opens w = opens (srv_world st) \<Longrightarrow>
     conn_act reuse send close opens (Receiving c) st
       (st\<lparr>srv_key := (srv_key st)\<lparr>clients := (clients (srv_key st))[c := (clients (srv_key st) ! c)\<lparr>rxbuf := buf\<rparr>]\<rparr>,
           srv_world := w\<rparr>)"
| act_send:
    "psc_send send close (Some (srv_key st), srv_world st) msgid msglen msg = Some (Some key, w) \<Longrightarrow>
     conn_act reuse send close opens Sending st (st\<lparr>srv_key := key, srv_world := w\<rparr>)"
| act_send_one:
    "srv_threads st c = Some s \<Longrightarrow> psc_send_one send close c msgid msglen msg (srv_key st, srv_world st) = Some (key, w) \<Longrightarrow>
     conn_act reuse send close opens (Receiving c) st (st\<lparr>srv_key := key, srv_world := w\<rparr>)"
| act_free:
    "srv_threads st c = Some s \<Longrightarrow>
     conn_act reuse send close opens (Receiving c) st
       (st\<lparr>srv_key := psc_client_free c (srv_key st), srv_threads := (srv_threads st)(c := None),
           srv_closing := s # srv_closing st\<rparr>)"
| act_close:
    "s \<in> set (srv_closing st) \<Longrightarrow>
     conn_act reuse send close opens (Leaving s) st
       (st\<lparr>srv_world := close (srv_world st) s, srv_closing := remove1 s (srv_closing st)\<rparr>)"

definition conn_step ::
  "bool \<Rightarrow> 'w send_fn \<Rightarrow> ('w \<Rightarrow> int \<Rightarrow> 'w) \<Rightarrow> ('w \<Rightarrow> int set) \<Rightarrow> 'w server \<Rightarrow> 'w server \<Rightarrow> bool" where
  "conn_step reuse send close opens st st' \<longleftrightarrow> (\<exists>a. conn_act reuse send close opens a st st')"

lemma conn_stepI: "conn_act reuse send close opens a st st' \<Longrightarrow> conn_step reuse send close opens st st'"
  by (auto simp: conn_step_def)

lemmas conn_alloc = act_alloc [THEN conn_stepI]
lemmas conn_store = act_store [THEN conn_stepI]
lemmas conn_start = act_start [THEN conn_stepI]
lemmas conn_send = act_send [THEN conn_stepI]
lemmas conn_send_one = act_send_one [THEN conn_stepI]
lemmas conn_free = act_free [THEN conn_stepI]
lemmas conn_close = act_close [THEN conn_stepI]

section \<open>Sending and the open descriptors\<close>

lemma opens_psc_sendall:
  "opens_contract send close opens \<Longrightarrow> psc_sendall send w s buf flags = Some (ret, w') \<Longrightarrow> opens w' = opens w"
proof (induction send w s buf flags rule: psc_sendall.induct)
  case (1 send w s buf flags)
  have first: "opens w1 = opens w" if "send w s buf flags = (r, w1)" for r w1
    using "1.prems"(1) that by (metis opens_contract_def snd_conv)
  show ?case
  proof (cases "buf = []")
    case True
    with "1.prems"(2) show ?thesis by (simp add: psc_sendall.simps [of send w s "[]"])
  next
    case False
    obtain r w1 where r: "send w s buf flags = (r, w1)" by fastforce
    show ?thesis
    proof (cases r)
      case (SFail e)
      with "1.prems"(2) False r first [OF r] show ?thesis by (simp add: psc_sendall.simps [of send w s buf])
    next
      case (SRet n)
      then consider "n = 0" "w' = w1" | "n \<noteq> 0" "\<not> length buf < n" "psc_sendall send w1 s (drop n buf) flags = Some (ret, w')"
        using "1.prems"(2) False r by (auto simp: psc_sendall.simps [of send w s buf] split: if_splits)
      then show ?thesis
        using "1.IH" [OF False r [symmetric] SRet] "1.prems"(1) first [OF r] by cases auto
    qed
  qed
qed

lemma opens_psc_sendmsg:
  assumes "opens_contract send close opens" "psc_sendmsg send w s msgid buf n flags = Some (ret, w')"
  shows "opens w' = opens w"
  using assms(2) opens_psc_sendall [OF assms(1)]
  by (fastforce simp: psc_sendmsg_def psc_sendhead_def psc_sendbody_def Let_def split: option.splits if_splits)

section \<open>The invariant\<close>

definition slot_sock :: "'w server \<Rightarrow> nat \<Rightarrow> int" where
  "slot_sock st i = sock (clients (srv_key st) ! i)"

text \<open>A slot between \<open>psc_client_alloc\<close> and the store of its socket.\<close>

definition unfilled :: "'w server \<Rightarrow> nat \<Rightarrow> bool" where
  "unfilled st i \<longleftrightarrow> (\<exists>s a. srv_accept st = Some (i, s, a))"

text \<open>Nobody sends on descriptor \<open>s\<close>.\<close>

definition unused :: "'w server \<Rightarrow> int \<Rightarrow> bool" where
  "unused st s \<longleftrightarrow> (\<forall>i. live (srv_key st) i \<longrightarrow> slot_sock st i \<noteq> s)"

definition live_inv :: "('w \<Rightarrow> int set) \<Rightarrow> 'w server \<Rightarrow> bool" where
  "live_inv opens st \<longleftrightarrow> key_wf (srv_key st) \<and> listen_sock (srv_key st) = 0
     \<and> (\<forall>i. live (srv_key st) i \<longrightarrow>
          (if unfilled st i then slot_sock st i = 0
           else slot_sock st i \<noteq> 0 \<and> slot_sock st i \<in> opens (srv_world st)))
     \<and> (\<forall>i j. live (srv_key st) i \<longrightarrow> live (srv_key st) j \<longrightarrow> slot_sock st i = slot_sock st j \<longrightarrow> i = j)"

definition accept_inv :: "('w \<Rightarrow> int set) \<Rightarrow> 'w server \<Rightarrow> bool" where
  "accept_inv opens st \<longleftrightarrow> (\<forall>c s a. srv_accept st = Some (c, s, a) \<longrightarrow>
     c \<in> used_slots (srv_key st) \<and> srv_threads st c = None \<and> s \<in> opens (srv_world st) \<and> 0 < s
     \<and> unused st s \<and> \<not> held_by_thread st s)"

definition threads_inv :: "'w server \<Rightarrow> bool" where
  "threads_inv st \<longleftrightarrow> (\<forall>c s. srv_threads st c = Some s \<longrightarrow>
     c \<in> used_slots (srv_key st) \<and> s \<noteq> 0
     \<and> (\<forall>i. live (srv_key st) i \<longrightarrow> (slot_sock st i = s \<longleftrightarrow> i = c)))"

definition closing_inv :: "'w server \<Rightarrow> bool" where
  "closing_inv st \<longleftrightarrow> (\<forall>s \<in> set (srv_closing st). s \<noteq> 0 \<and> unused st s)"

definition sock_inv :: "('w \<Rightarrow> int set) \<Rightarrow> 'w server \<Rightarrow> bool" where
  "sock_inv opens st \<longleftrightarrow> live_inv opens st \<and> accept_inv opens st \<and> threads_inv st \<and> closing_inv st"

lemma live_invI:
  assumes "key_wf (srv_key st)" "listen_sock (srv_key st) = 0"
    and "\<And>i. live (srv_key st) i \<Longrightarrow> unfilled st i \<Longrightarrow> slot_sock st i = 0"
    and "\<And>i. live (srv_key st) i \<Longrightarrow> \<not> unfilled st i \<Longrightarrow> slot_sock st i \<noteq> 0 \<and> slot_sock st i \<in> opens (srv_world st)"
    and "\<And>i j. live (srv_key st) i \<Longrightarrow> live (srv_key st) j \<Longrightarrow> slot_sock st i = slot_sock st j \<Longrightarrow> i = j"
  shows "live_inv opens st"
  unfolding live_inv_def using assms by auto

lemma live_invD:
  assumes "live_inv opens st"
  shows "key_wf (srv_key st)" "listen_sock (srv_key st) = 0"
    "live (srv_key st) i \<Longrightarrow> \<not> unfilled st i \<Longrightarrow> slot_sock st i \<noteq> 0 \<and> slot_sock st i \<in> opens (srv_world st)"
    "live (srv_key st) i \<Longrightarrow> live (srv_key st) j \<Longrightarrow> slot_sock st i = slot_sock st j \<longleftrightarrow> i = j"
  using assms unfolding live_inv_def by auto

lemma threads_invI:
  assumes "\<And>c s. srv_threads st c = Some s \<Longrightarrow> c \<in> used_slots (srv_key st) \<and> s \<noteq> 0"
    and "\<And>c s i. srv_threads st c = Some s \<Longrightarrow> live (srv_key st) i \<Longrightarrow> slot_sock st i = s \<longleftrightarrow> i = c"
  shows "threads_inv st"
  unfolding threads_inv_def using assms by blast

lemma threads_invD:
  assumes "threads_inv st" "srv_threads st c = Some s"
  shows "c \<in> used_slots (srv_key st)" "s \<noteq> 0" "live (srv_key st) i \<Longrightarrow> slot_sock st i = s \<longleftrightarrow> i = c"
  using assms unfolding threads_inv_def by blast+

text \<open>A client whose socket has failed is closed and marked.\<close>

lemma sock_inv_failed:
  assumes inv: "sock_inv opens st" and c: "live (srv_key st) c" "c < 4"
    and w: "opens w = opens (srv_world st) - {slot_sock st c}"
    and key: "key = (srv_key st)\<lparr>clients := (clients (srv_key st))[c := (clients (srv_key st) ! c)\<lparr>sock := -1\<rparr>]\<rparr>"
  shows "sock_inv opens (st\<lparr>srv_key := key, srv_world := w\<rparr>)"
proof -
  let ?st = "st\<lparr>srv_key := key, srv_world := w\<rparr>"
  have wf: "key_wf (srv_key st)" using inv by (simp add: sock_inv_def live_inv_def)
  then have wf': "key_wf key" unfolding key using c(2) by (intro key_wf_update) (auto simp: length_rxbuf)
  have slots: "live key i \<longleftrightarrow> live (srv_key st) i \<and> i \<noteq> c" "i \<noteq> c \<Longrightarrow> slot_sock ?st i = slot_sock st i"
    "used_slots key = used_slots (srv_key st)" "listen_sock key = listen_sock (srv_key st)" for i
    using c(2) key_wfD(1) [OF wf] by (auto simp: key live_def slot_sock_def used_slots_def nth_list_update)
  have apart: "slot_sock st i \<noteq> slot_sock st c" if "live (srv_key st) i" "i \<noteq> c" for i
    using inv c(1) that by (auto simp: sock_inv_def live_inv_def)
  show ?thesis
    unfolding sock_inv_def
  proof (intro conjI)
    show "live_inv opens ?st"
      using inv slots apart wf' w by (auto simp: sock_inv_def live_inv_def unfilled_def)
    show "accept_inv opens ?st"
      using inv slots apart w c(1)
      by (auto simp: sock_inv_def accept_inv_def unused_def held_by_thread_def)
    show "threads_inv ?st"
      using inv slots by (auto simp: sock_inv_def threads_inv_def)
    show "closing_inv ?st"
      using inv slots by (auto simp: sock_inv_def closing_inv_def unused_def)
  qed
qed

lemma sock_inv_world:
  assumes "sock_inv opens st" "opens w = opens (srv_world st)"
  shows "sock_inv opens (st\<lparr>srv_world := w\<rparr>)"
proof -
  have "slot_sock (st\<lparr>srv_world := w\<rparr>) i = slot_sock st i" for i by (simp add: slot_sock_def)
  with assms show ?thesis
    by (simp add: sock_inv_def live_inv_def accept_inv_def threads_inv_def closing_inv_def unused_def unfilled_def
        held_by_thread_def)
qed

lemma server_same: "srv_key st = key \<Longrightarrow> srv_world st = w \<Longrightarrow> st\<lparr>srv_key := key, srv_world := w\<rparr> = st"
  by (cases st) simp

lemma sock_inv_send_client:
  assumes "opens_contract send close opens" "sock_inv opens st" "bit (clients_used (srv_key st)) c" "c < 4"
    and "psc_send_client send close msgid msglen msg c (srv_key st, srv_world st) = Some (key, w)"
  shows "sock_inv opens (st\<lparr>srv_key := key, srv_world := w\<rparr>)"
proof (cases "sock (clients (srv_key st) ! c) = -1")
  case True
  with assms(2,5) show ?thesis by (simp add: psc_send_client_def Let_def server_same)
next
  case False
  then have live: "live (srv_key st) c" using assms(3) by (simp add: live_def)
  obtain ret w1 where send: "psc_sendmsg send (srv_world st) (sock (clients (srv_key st) ! c)) msgid msg msglen 0 = Some (ret, w1)"
    using assms(5) False by (auto simp: psc_send_client_def Let_def split: option.splits)
  have w1: "opens w1 = opens (srv_world st)" by (rule opens_psc_sendmsg [OF assms(1) send])
  show ?thesis
  proof (cases "ret = 0")
    case True
    then have "key = srv_key st" "w = w1" using assms(5) False send by (simp_all add: psc_send_client_def Let_def)
    with sock_inv_world [OF assms(2) w1] show ?thesis by (cases st) simp
  next
    case fail: False
    then have "opens w = opens (srv_world st) - {slot_sock st c}"
      "key = (srv_key st)\<lparr>clients := (clients (srv_key st))[c := (clients (srv_key st) ! c)\<lparr>sock := -1\<rparr>]\<rparr>"
      using assms(1,5) False send w1 by (auto simp: psc_send_client_def Let_def opens_contract_def slot_sock_def)
    with sock_inv_failed [OF assms(2) live assms(4)] show ?thesis by blast
  qed
qed

lemma sock_inv_send_loop:
  assumes "opens_contract send close opens"
  shows "sock_inv opens st \<Longrightarrow> set idxs \<subseteq> {..<4} \<Longrightarrow>
    psc_send_loop send close msgid msglen msg idxs (srv_key st, srv_world st) = Some (key, w) \<Longrightarrow>
    sock_inv opens (st\<lparr>srv_key := key, srv_world := w\<rparr>)"
proof (induction idxs arbitrary: st)
  case (Cons c idxs)
  show ?case
  proof (cases "bit (clients_used (srv_key st)) c")
    case False
    with Cons show ?thesis by simp
  next
    case True
    then obtain key1 w1 where 1: "psc_send_client send close msgid msglen msg c (srv_key st, srv_world st) = Some (key1, w1)"
      "psc_send_loop send close msgid msglen msg idxs (key1, w1) = Some (key, w)"
      using Cons.prems(3) by (auto split: option.splits)
    have "sock_inv opens (st\<lparr>srv_key := key1, srv_world := w1\<rparr>)"
      using sock_inv_send_client [OF assms Cons.prems(1) True _ 1(1)] Cons.prems(2) by simp
    from Cons.IH [OF this] 1(2) Cons.prems(2) show ?thesis by simp
  qed
qed (simp add: server_same)

section \<open>The steps\<close>

lemma sock_inv_alloc:
  assumes inv: "sock_inv opens st"
    and step: "srv_accept st = None" "listen_sock (srv_key st) \<in> opens (srv_world st)" "0 \<le> s" "s \<notin> opens (srv_world st)"
      "\<not> held_by_thread st s" "opens w = insert s (opens (srv_world st))"
      "psc_client_alloc (srv_key st) = (Some c, key)"
  shows "sock_inv opens (st\<lparr>srv_key := key, srv_world := w, srv_accept := Some (c, s, caddr)\<rparr>)"
proof -
  let ?st = "st\<lparr>srv_key := key, srv_world := w, srv_accept := Some (c, s, caddr)\<rparr>"
  have wf: "key_wf (srv_key st)" using inv by (simp add: sock_inv_def live_inv_def)
  note k = key_wf_alloc [OF wf step(7)] key_wfD(1) [OF wf]
  have slots: "live key i \<longleftrightarrow> live (srv_key st) i \<or> i = c" "i \<noteq> c \<Longrightarrow> slot_sock ?st i = slot_sock st i"
    "slot_sock ?st c = 0" "used_slots key = insert c (used_slots (srv_key st))" "listen_sock key = listen_sock (srv_key st)" for i
    using k by (auto simp: live_def slot_sock_def used_slots_def bit_set_slot nth_list_update)
  have new: "\<not> live (srv_key st) c" "c \<notin> used_slots (srv_key st)"
    using k(2) by (auto simp: live_def used_slots_def)
  have linv: "live_inv opens st" and thr: "threads_inv st" using inv by (simp_all add: sock_inv_def)
  have "0 < s" using step(2-4) live_invD(2) [OF linv] by (auto simp: less_le)
  have old: "slot_sock st i \<noteq> 0" "slot_sock st i \<in> opens (srv_world st)" if "live (srv_key st) i" for i
    using inv that step(1) by (auto simp: sock_inv_def live_inv_def unfilled_def)
  show ?thesis
    unfolding sock_inv_def
  proof (intro conjI)
    have zero: "slot_sock ?st i \<noteq> 0" if "live (srv_key ?st) i" "i \<noteq> c" for i
      using that slots(1,2) old(1) by simp
    show "live_inv opens ?st"
    proof (rule live_invI)
      show "i = j" if ij: "live (srv_key ?st) i" "live (srv_key ?st) j" "slot_sock ?st i = slot_sock ?st j" for i j
      proof (cases "i = c \<or> j = c")
        case True
        with zero ij slots(3) show ?thesis by metis
      next
        case False
        with ij slots(1,2) live_invD(4) [OF linv, of i j] show ?thesis by simp
      qed
      show "slot_sock ?st i \<noteq> 0 \<and> slot_sock ?st i \<in> opens (srv_world ?st)"
        if "live (srv_key ?st) i" "\<not> unfilled ?st i" for i
        using that slots(1,2) old [of i] step(6) by (auto simp: unfilled_def)
    qed (use slots k(5) live_invD(2) [OF linv] in \<open>auto simp: unfilled_def\<close>)
    have "slot_sock ?st i \<noteq> s" if "live (srv_key ?st) i" for i
      using that old(2) [of i] slots(1-3) \<open>0 < s\<close> step(4) by (cases "i = c") auto
    then have "unused ?st s" unfolding unused_def by blast
    moreover have "srv_threads st c = None"
      using new(2) threads_invD(1) [OF thr] by (cases "srv_threads st c") auto
    ultimately show "accept_inv opens ?st"
      using slots(4) \<open>0 < s\<close> step(5,6) by (auto simp: accept_inv_def held_by_thread_def)
    show "threads_inv ?st"
    proof (rule threads_invI)
      fix d t i
      assume "srv_threads ?st d = Some t"
      then have d: "srv_threads st d = Some t" by simp
      show "d \<in> used_slots (srv_key ?st) \<and> t \<noteq> 0" using threads_invD(1,2) [OF thr d] slots(4) by simp
      then show "slot_sock ?st i = t \<longleftrightarrow> i = d" if "live (srv_key ?st) i"
        using that threads_invD(1) [OF thr d] threads_invD(3) [OF thr d, of i] slots(1-3) new(2) by (cases "i = c") auto
    qed
    have "unused ?st t" if "t \<in> set (srv_closing st)" for t
      unfolding unused_def
    proof (intro allI impI)
      fix i
      assume "live (srv_key ?st) i"
      then show "slot_sock ?st i \<noteq> t"
        using that inv slots(1-3) by (cases "i = c") (auto simp: sock_inv_def closing_inv_def unused_def)
    qed
    then show "closing_inv ?st"
      using inv by (simp add: sock_inv_def closing_inv_def)
  qed
qed

lemma sock_inv_drop:
  assumes inv: "sock_inv opens st"
    and step: "s \<notin> opens (srv_world st)" "opens w = insert s (opens (srv_world st))"
      "psc_client_alloc (srv_key st) = (None, key)" "opens_contract send close opens"
  shows "sock_inv opens (st\<lparr>srv_key := key, srv_world := close w s\<rparr>)"
proof -
  have "key = srv_key st" using alloc_full(1) [OF _ step(3)] inv by (simp add: sock_inv_def live_inv_def)
  moreover have "opens (close w s) = opens (srv_world st)" using step by (auto simp: opens_contract_def)
  ultimately show ?thesis using sock_inv_world [OF inv] by (cases st) fastforce
qed

lemma sock_inv_store:
  assumes inv: "sock_inv opens st" and step: "srv_accept st = Some (c, s, caddr)"
  shows "sock_inv opens (st\<lparr>srv_key := psc_client_assign c s caddr (srv_key st), srv_accept := None\<rparr>)"
proof -
  let ?st = "st\<lparr>srv_key := psc_client_assign c s caddr (srv_key st), srv_accept := None\<rparr>"
  have wf: "key_wf (srv_key st)" using inv by (simp add: sock_inv_def live_inv_def)
  have acc: "c \<in> used_slots (srv_key st)" "srv_threads st c = None" "s \<in> opens (srv_world st)" "0 < s"
    "unused st s" "\<not> held_by_thread st s"
    using inv step by (auto simp: sock_inv_def accept_inv_def)
  have c: "bit (clients_used (srv_key st)) c" "c < length (clients (srv_key st))"
    using acc(1) key_wfD(1) [OF wf] by (auto simp: used_slots_def)
  have slots: "live (srv_key ?st) i \<longleftrightarrow> live (srv_key st) i \<or> i = c" "i \<noteq> c \<Longrightarrow> slot_sock ?st i = slot_sock st i"
    "slot_sock ?st c = s" "used_slots (srv_key ?st) = used_slots (srv_key st)" "unfilled st i \<longleftrightarrow> i = c" for i
    using c acc(4) step by (auto simp: psc_client_assign_def live_def slot_sock_def used_slots_def unfilled_def nth_list_update)
  have other: "slot_sock st i \<noteq> 0 \<and> slot_sock st i \<in> opens (srv_world st) \<and> slot_sock st i \<noteq> s"
    if "live (srv_key st) i" "i \<noteq> c" for i
    using inv that slots(5) acc(5) by (auto simp: sock_inv_def live_inv_def unused_def)
  show ?thesis
    unfolding sock_inv_def
  proof (intro conjI)
    have linv: "live_inv opens st" using inv by (simp add: sock_inv_def)
    show "live_inv opens ?st"
    proof (rule live_invI)
      show "key_wf (srv_key ?st)" "listen_sock (srv_key ?st) = 0"
        using key_wf_assign [OF wf] live_invD(2) [OF linv] by (simp_all add: psc_client_assign_def)
      show "slot_sock ?st i \<noteq> 0 \<and> slot_sock ?st i \<in> opens (srv_world ?st)" if "live (srv_key ?st) i" for i
        using that slots(1-3) other [of i] acc(3,4) by (cases "i = c") auto
      show "i = j" if ij: "live (srv_key ?st) i" "live (srv_key ?st) j" "slot_sock ?st i = slot_sock ?st j" for i j
      proof (cases "i = c \<or> j = c")
        case True
        have "slot_sock ?st k \<noteq> s" if "live (srv_key ?st) k" "k \<noteq> c" for k
          using that slots(1,2) other [of k] by simp
        with True ij slots(3) show ?thesis by metis
      next
        case False
        with ij slots(1,2) live_invD(4) [OF linv, of i j] show ?thesis by simp
      qed
    qed (simp add: unfilled_def)
    show "accept_inv opens ?st" by (simp add: accept_inv_def)
    show "threads_inv ?st"
    proof (rule threads_invI)
      fix d t i
      assume "srv_threads ?st d = Some t"
      then have d: "srv_threads st d = Some t" by simp
      have thr: "threads_inv st" using inv by (simp add: sock_inv_def)
      show "d \<in> used_slots (srv_key ?st) \<and> t \<noteq> 0" using threads_invD(1,2) [OF thr d] slots(4) by simp
      have "t \<noteq> s" "d \<noteq> c" using d acc(2,6) by (auto simp: held_by_thread_def intro: ranI)
      then show "slot_sock ?st i = t \<longleftrightarrow> i = d" if "live (srv_key ?st) i"
        using that threads_invD(3) [OF thr d, of i] slots(1-3) by (cases "i = c") auto
    qed
    have "unused ?st t" if "t \<in> set (srv_closing st)" for t
      unfolding unused_def
    proof (intro allI impI)
      fix i
      assume "live (srv_key ?st) i"
      then show "slot_sock ?st i \<noteq> t"
        using that inv acc(6) slots(1-3)
        by (cases "i = c") (auto simp: sock_inv_def closing_inv_def unused_def held_by_thread_def)
    qed
    then show "closing_inv ?st"
      using inv by (simp add: sock_inv_def closing_inv_def)
  qed
qed

lemma sock_inv_start:
  assumes inv: "sock_inv opens st"
    and step: "c \<in> used_slots (srv_key st)" "srv_threads st c = None" "\<not> unfilled st c"
  shows "sock_inv opens (st\<lparr>srv_threads := (srv_threads st)(c \<mapsto> sock (clients (srv_key st) ! c))\<rparr>)"
proof -
  let ?st = "st\<lparr>srv_threads := (srv_threads st)(c \<mapsto> sock (clients (srv_key st) ! c))\<rparr>"
  have slots: "slot_sock ?st i = slot_sock st i" "unfilled ?st i \<longleftrightarrow> unfilled st i" for i
    by (simp_all add: slot_sock_def unfilled_def)
  have c: "live (srv_key st) c \<longleftrightarrow> slot_sock st c \<noteq> -1" "sock (clients (srv_key st) ! c) = slot_sock st c"
    using step(1) by (auto simp: live_def slot_sock_def used_slots_def)
  have nz: "slot_sock st c \<noteq> 0"
    using inv step(3) c(1) by (auto simp: sock_inv_def live_inv_def)
  have held: "held_by_thread ?st s \<longleftrightarrow> held_by_thread st s \<or> s = slot_sock st c" for s
    using step(2) c(2) by (auto simp: held_by_thread_def)
  have thr: "threads_inv st" using inv by (simp add: sock_inv_def)
  have same: "slot_sock st i = slot_sock st j \<longleftrightarrow> i = j" if "live (srv_key st) i" "live (srv_key st) j" for i j
    using inv that by (auto simp: sock_inv_def live_inv_def)
  have alive: "slot_sock st i \<noteq> -1" if "live (srv_key st) i" for i
    using that by (simp add: live_def slot_sock_def)
  show ?thesis
    unfolding sock_inv_def
  proof (intro conjI)
    show "live_inv opens ?st" using inv by (simp add: sock_inv_def live_inv_def slots)
    show "accept_inv opens ?st"
      unfolding accept_inv_def
    proof (intro allI impI)
      fix d t a
      assume "srv_accept ?st = Some (d, t, a)"
      then have d: "srv_accept st = Some (d, t, a)" by simp
      then have t: "d \<in> used_slots (srv_key st) \<and> srv_threads st d = None \<and> t \<in> opens (srv_world st) \<and> 0 < t"
        "unused st t" "\<not> held_by_thread st t"
        using inv unfolding sock_inv_def accept_inv_def by blast+
      have "d \<noteq> c" using d step(3) by (auto simp: unfilled_def)
      moreover have "slot_sock st c \<noteq> t"
        using t(1,2) c(1) by (auto simp: unused_def)
      ultimately show "d \<in> used_slots (srv_key ?st) \<and> srv_threads ?st d = None \<and> t \<in> opens (srv_world ?st) \<and> 0 < t
          \<and> unused ?st t \<and> \<not> held_by_thread ?st t"
        using t unfolding held by (simp add: unused_def slots)
    qed
    show "threads_inv ?st"
    proof (rule threads_invI)
      fix d t i
      assume "srv_threads ?st d = Some t"
      then consider "d = c" "t = slot_sock st c" | "d \<noteq> c" "srv_threads st d = Some t"
        using c(2) by (auto split: if_splits)
      then show "d \<in> used_slots (srv_key ?st) \<and> t \<noteq> 0"
        using step(1) nz threads_invD(1,2) [OF thr] by cases (simp, fastforce)
      assume "live (srv_key ?st) i"
      then have i: "live (srv_key st) i" by simp
      consider "d = c" "t = slot_sock st c" | "d \<noteq> c" "srv_threads st d = Some t" by fact
      then show "slot_sock ?st i = t \<longleftrightarrow> i = d"
        unfolding slots
      proof cases
        case 1
        with same [OF i] alive [OF i] c(1) show "slot_sock st i = t \<longleftrightarrow> i = d" by metis
      next
        case 2
        with threads_invD(3) [OF thr _ i] show "slot_sock st i = t \<longleftrightarrow> i = d" by blast
      qed
    qed
    show "closing_inv ?st" using inv by (simp add: sock_inv_def closing_inv_def unused_def slots)
  qed
qed

lemma sock_inv_receive:
  assumes inv: "sock_inv opens st"
    and step: "srv_threads st c = Some s" "length buf = RXBUF_SIZE" "opens w = opens (srv_world st)"
  shows "sock_inv opens
    (st\<lparr>srv_key := (srv_key st)\<lparr>clients := (clients (srv_key st))[c := (clients (srv_key st) ! c)\<lparr>rxbuf := buf\<rparr>]\<rparr>,
        srv_world := w\<rparr>)"
proof -
  let ?key = "(srv_key st)\<lparr>clients := (clients (srv_key st))[c := (clients (srv_key st) ! c)\<lparr>rxbuf := buf\<rparr>]\<rparr>"
  let ?st = "st\<lparr>srv_key := ?key, srv_world := w\<rparr>"
  have wf: "key_wf (srv_key st)" using inv by (simp add: sock_inv_def live_inv_def)
  have wf': "key_wf ?key" using wf step(2) by (intro key_wf_update) auto
  have "sock (clients ?key ! i) = sock (clients (srv_key st) ! i)" for i
    by (cases "c < length (clients (srv_key st))") (auto simp: nth_list_update list_update_beyond)
  then have "slot_sock ?st i = slot_sock st i" "live ?key i \<longleftrightarrow> live (srv_key st) i"
    "used_slots ?key = used_slots (srv_key st)" for i
    by (auto simp: slot_sock_def live_def used_slots_def)
  with inv wf' step(3) show ?thesis
    by (simp add: sock_inv_def live_inv_def accept_inv_def threads_inv_def closing_inv_def unused_def unfilled_def
        held_by_thread_def)
qed

lemma sock_inv_free:
  assumes inv: "sock_inv opens st" and step: "srv_threads st c = Some s"
  shows "sock_inv opens (st\<lparr>srv_key := psc_client_free c (srv_key st), srv_threads := (srv_threads st)(c := None),
           srv_closing := s # srv_closing st\<rparr>)"
proof -
  let ?st = "st\<lparr>srv_key := psc_client_free c (srv_key st), srv_threads := (srv_threads st)(c := None),
           srv_closing := s # srv_closing st\<rparr>"
  have wf: "key_wf (srv_key st)" using inv by (simp add: sock_inv_def live_inv_def)
  have c: "c \<in> used_slots (srv_key st)" "s \<noteq> 0" "\<And>i. live (srv_key st) i \<Longrightarrow> slot_sock st i = s \<longleftrightarrow> i = c"
    using inv step by (auto simp: sock_inv_def threads_inv_def)
  then have bit: "bit (clients_used (srv_key st)) c" "c < 4" by (simp_all add: used_slots_def)
  note free = key_wf_free [OF wf bit(1)]
  have slots: "live (srv_key ?st) i \<longleftrightarrow> live (srv_key st) i \<and> i \<noteq> c" "i \<noteq> c \<Longrightarrow> slot_sock ?st i = slot_sock st i"
    "used_slots (srv_key ?st) = used_slots (srv_key st) - {c}" "listen_sock (srv_key ?st) = listen_sock (srv_key st)"
    "unfilled ?st i = unfilled st i" for i
    using free(2) bit(2)
    by (auto simp: live_def slot_sock_def used_slots_def bit_clear_slot unfilled_def)
      (auto simp: psc_client_free_def)
  have held: "held_by_thread ?st x \<Longrightarrow> held_by_thread st x" for x
    using step by (auto simp: held_by_thread_def ran_def split: if_splits)
  show ?thesis
    unfolding sock_inv_def
  proof (intro conjI)
    show "live_inv opens ?st"
      using inv slots free(1) unfolding sock_inv_def live_inv_def by auto
    have ne: "i \<noteq> c" if "srv_accept st = Some (i, x, a)" for i x a
      using inv step that by (auto simp: sock_inv_def accept_inv_def)
    show "accept_inv opens ?st"
      using inv slots(1,2,3) ne held unfolding sock_inv_def accept_inv_def
      by (auto simp: unused_def)
    show "threads_inv ?st"
      using inv slots(1-3) unfolding sock_inv_def threads_inv_def by (auto split: if_splits)
    show "closing_inv ?st"
      using inv slots(1,2) c(2,3) unfolding sock_inv_def closing_inv_def unused_def by auto
  qed
qed

lemma sock_inv_close:
  assumes inv: "sock_inv opens st" and step: "s \<in> set (srv_closing st)" "opens_contract send close opens"
  shows "sock_inv opens (st\<lparr>srv_world := close (srv_world st) s, srv_closing := remove1 s (srv_closing st)\<rparr>)"
proof -
  let ?st = "st\<lparr>srv_world := close (srv_world st) s, srv_closing := remove1 s (srv_closing st)\<rparr>"
  have o: "opens (close (srv_world st) s) = opens (srv_world st) - {s}" using step(2) by (simp add: opens_contract_def)
  have slots: "slot_sock ?st i = slot_sock st i" "unfilled ?st i \<longleftrightarrow> unfilled st i" for i
    by (simp_all add: slot_sock_def unfilled_def)
  have c: "\<And>i. live (srv_key st) i \<Longrightarrow> slot_sock st i \<noteq> s"
    using inv step(1) by (auto simp: sock_inv_def closing_inv_def unused_def)
  have held: "held_by_thread ?st x \<Longrightarrow> held_by_thread st x" "held_by_thread st s" for x
    using step(1) set_remove1_subset [of s "srv_closing st"] by (auto simp: held_by_thread_def)
  show ?thesis
    unfolding sock_inv_def
  proof (intro conjI)
    show "live_inv opens ?st" using inv c o by (auto simp: sock_inv_def live_inv_def slots)
    show "accept_inv opens ?st"
      using inv held o unfolding sock_inv_def accept_inv_def by (auto simp: unused_def slots)
    show "threads_inv ?st" using inv by (auto simp: sock_inv_def threads_inv_def slots)
    show "closing_inv ?st"
      using inv set_remove1_subset [of s "srv_closing st"]
      unfolding sock_inv_def closing_inv_def unused_def by (auto simp: slots)
  qed
qed

lemma sock_inv_step:
  assumes "conn_step False send close opens st st'" "sock_inv opens st" "opens_contract send close opens"
  shows "sock_inv opens st'"
proof -
  obtain a where "conn_act False send close opens a st st'" using assms(1) by (auto simp: conn_step_def)
  then show ?thesis
  proof cases
    case (act_send msgid msglen msg key w)
    then have "psc_send_loop send close msgid msglen msg [0..<PSC_MAX_CLIENTS] (srv_key st, srv_world st) = Some (key, w)"
      by (simp add: psc_send_def)
    moreover have "set [0..<PSC_MAX_CLIENTS] \<subseteq> {..<PSC_MAX_CLIENTS}" by auto
    ultimately show ?thesis using sock_inv_send_loop [OF assms(3,2)] act_send(2) by metis
  next
    case (act_send_one c s msgid msglen msg key w)
    then have "c \<in> used_slots (srv_key st)" using assms(2) by (auto simp: sock_inv_def threads_inv_def)
    with sock_inv_send_client [OF assms(3,2)] act_send_one show ?thesis
      by (auto simp: used_slots_def dest!: psc_send_oneD)
  next
    case (act_start c)
    with sock_inv_start [OF assms(2)] show ?thesis by (auto simp: unfilled_def)
  qed (use sock_inv_alloc [OF assms(2)] sock_inv_drop [OF assms(2) _ _ _ assms(3)] sock_inv_store [OF assms(2)]
      sock_inv_receive [OF assms(2)] sock_inv_free [OF assms(2)] sock_inv_close [OF assms(2) _ assms(3)] in auto)
qed

lemma sock_inv_reachable:
  assumes "psc_run_setup key_set calloc_ok mutex_ok 0 bind_ret listen_ret = Serving key0"
    and "opens_contract send close opens" "(conn_step False send close opens)\<^sup>*\<^sup>* (srv_init key0 w0) st"
  shows "sock_inv opens st"
  using assms(3)
proof (induction rule: rtranclp_induct)
  case base
  have key0: "key0 = \<lparr>listen_sock = 0, clients_used = 0, clients = replicate PSC_MAX_CLIENTS zero_client\<rparr>"
    using assms(1) by (auto simp: psc_run_setup_def split: if_splits)
  then have "key_wf key0" by (auto simp: key_wf_def list_all_length)
  moreover have "\<not> live key0 i" "listen_sock key0 = 0" for i by (simp_all add: key0 live_def)
  ultimately show ?case
    by (simp add: sock_inv_def srv_init_def live_inv_def accept_inv_def threads_inv_def closing_inv_def)
next
  case (step st st')
  then show ?case using sock_inv_step assms(2) by blast
qed

section \<open>What holds whatever numbers are given out\<close>

text \<open>The invariant that does not depend on the descriptors: the slots, the accepting thread and the receive threads.\<close>

definition slot_inv :: "'w server \<Rightarrow> bool" where
  "slot_inv st \<longleftrightarrow> key_wf (srv_key st)
     \<and> (\<forall>c s a. srv_accept st = Some (c, s, a) \<longrightarrow> c \<in> used_slots (srv_key st) \<and> srv_threads st c = None)
     \<and> dom (srv_threads st) \<subseteq> used_slots (srv_key st)"

lemma slot_inv_key:
  "slot_inv st \<Longrightarrow> key_wf key \<Longrightarrow> used_slots key = used_slots (srv_key st) \<Longrightarrow> slot_inv (st\<lparr>srv_key := key, srv_world := w\<rparr>)"
  by (simp add: slot_inv_def)

lemma used_send_client:
  "psc_send_client send close msgid msglen msg c (key, w) = Some (key', w') \<Longrightarrow> used_slots key' = used_slots key"
  by (auto simp: psc_send_client_def Let_def used_slots_def split: if_splits option.splits)

lemma used_send_loop:
  "psc_send_loop send close msgid msglen msg idxs (key, w) = Some (key', w') \<Longrightarrow> used_slots key' = used_slots key"
proof (induction idxs arbitrary: key w)
  case (Cons c idxs)
  then show ?case by (auto split: if_splits option.splits dest: used_send_client)
qed simp

lemma slot_inv_act:
  assumes "conn_act reuse send close opens a st st'" "slot_inv st"
  shows "slot_inv st'"
proof -
  have inv: "key_wf (srv_key st)" "dom (srv_threads st) \<subseteq> used_slots (srv_key st)"
    "\<And>c s a. srv_accept st = Some (c, s, a) \<Longrightarrow> c \<in> used_slots (srv_key st) \<and> srv_threads st c = None"
    using assms(2) by (auto simp: slot_inv_def)
  show ?thesis
    using assms(1)
  proof cases
    case (act_alloc s w c key caddr)
    note k = key_wf_alloc [OF inv(1) act_alloc(9)]
    have "used_slots key = insert c (used_slots (srv_key st))" "c \<notin> used_slots (srv_key st)"
      using k by (auto simp: used_slots_def bit_set_slot)
    with act_alloc k(5) inv show ?thesis by (auto simp: slot_inv_def)
  next
    case (act_drop s w key)
    with alloc_full(1) [OF inv(1) act_drop(8)] assms(2) show ?thesis by (simp add: slot_inv_def)
  next
    case (act_store c s caddr)
    with inv key_wf_assign [OF inv(1)] show ?thesis
      by (auto simp: slot_inv_def psc_client_assign_def used_slots_def)
  next
    case (act_receive c s buf w)
    have "key_wf ((srv_key st)\<lparr>clients := (clients (srv_key st))[c := (clients (srv_key st) ! c)\<lparr>rxbuf := buf\<rparr>]\<rparr>)"
      using inv(1) act_receive(4) by (intro key_wf_update) auto
    with act_receive(2) slot_inv_key [OF assms(2)] show ?thesis by (simp add: used_slots_def)
  next
    case (act_send msgid msglen msg key w)
    then have loop: "psc_send_loop send close msgid msglen msg [0..<PSC_MAX_CLIENTS] (srv_key st, srv_world st) = Some (key, w)"
      by (simp add: psc_send_def)
    have "key_wf key" by (rule key_wf_send_loop [OF inv(1) loop]) auto
    with act_send(2) slot_inv_key [OF assms(2)] used_send_loop [OF loop] show ?thesis by simp
  next
    case (act_send_one c s msgid msglen msg key w)
    have "c < PSC_MAX_CLIENTS" using act_send_one(3) inv(2) by (auto simp: used_slots_def)
    then have "key_wf key" by (rule key_wf_send_client [OF inv(1) psc_send_oneD [OF act_send_one(4)]])
    moreover have "used_slots key = used_slots (srv_key st)"
      by (rule used_send_client [OF psc_send_oneD [OF act_send_one(4)]])
    ultimately show ?thesis using act_send_one(2) slot_inv_key [OF assms(2)] by simp
  next
    case (act_free c s)
    then have "bit (clients_used (srv_key st)) c" using inv(2) by (auto simp: used_slots_def)
    then have "key_wf (psc_client_free c (srv_key st))"
      "used_slots (psc_client_free c (srv_key st)) = used_slots (srv_key st) - {c}"
      using key_wf_free [OF inv(1)] by (auto simp: used_slots_def bit_clear_slot)
    with act_free inv show ?thesis by (fastforce simp: slot_inv_def)
  qed (use inv in \<open>auto simp: slot_inv_def\<close>)
qed

lemma slot_inv_reachable:
  assumes "psc_run_setup key_set calloc_ok mutex_ok 0 bind_ret listen_ret = Serving key0"
    and "(conn_step reuse send close opens)\<^sup>*\<^sup>* (srv_init key0 w0) st"
  shows "slot_inv st"
  using assms(2)
proof (induction rule: rtranclp_induct)
  case base
  have "key0 = \<lparr>listen_sock = 0, clients_used = 0, clients = replicate PSC_MAX_CLIENTS zero_client\<rparr>"
    using assms(1) by (auto simp: psc_run_setup_def split: if_splits)
  then have "key_wf key0" by (auto simp: key_wf_def list_all_length)
  then show ?case by (simp add: slot_inv_def srv_init_def)
next
  case (step st st')
  then show ?case using slot_inv_act by (auto simp: conn_step_def)
qed

text \<open>The clients that hold socket \<open>s\<close>, and what a loop over slots does when sockets may be shared.\<close>

definition holders :: "psc_key \<Rightarrow> int \<Rightarrow> nat set" where
  "holders key s = {i. live key i \<and> sock (clients key ! i) = s}"

definition frames_for :: "psc_key \<Rightarrow> nat list \<Rightarrow> int \<Rightarrow> nat" where
  "frames_for key idxs s = length (filter (\<lambda>i. i \<in> holders key s) idxs)"

lemma send_client_shared:
  assumes "send_contract send sent" "close_contract close sent" "unat msglen \<le> length msg" "live key c"
  obtains key1 w1 where "psc_send_client send close msgid msglen msg c (key, w) = Some (key1, w1)"
    "\<And>s. s \<noteq> sock (clients key ! c) \<Longrightarrow> sent w1 s = sent w s"
    "key1 = key \<or> key1 = key\<lparr>clients := (clients key)[c := (clients key ! c)\<lparr>sock := -1\<rparr>]\<rparr>"
    "send_accepts send (sock (clients key ! c)) \<Longrightarrow> key1 = key
       \<and> sent w1 (sock (clients key ! c)) = sent w (sock (clients key ! c)) @ psc_frame msgid (take (unat msglen) msg)"
proof -
  have "sock (clients key ! c) \<noteq> -1" using assms(4) by (simp add: live_def)
  from psc_send_client_live [OF assms(1-3) this] obtain k w1 where
    "k \<le> length (psc_frame msgid (take (unat msglen) msg))"
    "sent w1 = (sent w)(sock (clients key ! c) :=
       sent w (sock (clients key ! c)) @ take k (psc_frame msgid (take (unat msglen) msg)))"
    "psc_send_client send close msgid msglen msg c (key, w) =
       Some (if k = length (psc_frame msgid (take (unat msglen) msg)) then key
             else key\<lparr>clients := (clients key)[c := (clients key ! c)\<lparr>sock := -1\<rparr>]\<rparr>, w1)"
    "send_accepts send (sock (clients key ! c)) \<Longrightarrow> k = length (psc_frame msgid (take (unat msglen) msg))"
    by blast
  note s = this
  show thesis
    by (rule that [OF s(3)]) (use s(2,4) in auto)
qed

lemma send_loop_shared:
  assumes "send_contract send sent" "close_contract close sent" "unat msglen \<le> length msg"
  shows "\<exists>key' w'. psc_send_loop send close msgid msglen msg idxs (key, w) = Some (key', w')
     \<and> (\<forall>s. send_accepts send s \<longrightarrow> sent w' s = sent w s
          @ concat (replicate (frames_for key idxs s) (psc_frame msgid (take (unat msglen) msg))))
     \<and> (\<forall>s. frames_for key idxs s = 0 \<longrightarrow> sent w' s = sent w s)
     \<and> (\<forall>i. live key i \<longrightarrow> send_accepts send (sock (clients key ! i)) \<longrightarrow> clients key' ! i = clients key ! i)
     \<and> (\<forall>i. \<not> live key i \<longrightarrow> clients key' ! i = clients key ! i)
     \<and> clients_used key' = clients_used key"
proof (induction idxs arbitrary: key w)
  case Nil
  then show ?case by (simp add: frames_for_def)
next
  case (Cons c idxs)
  let ?frame = "psc_frame msgid (take (unat msglen) msg)"
  show ?case
  proof (cases "live key c")
    case False
    then have "psc_send_loop send close msgid msglen msg (c # idxs) (key, w) = psc_send_loop send close msgid msglen msg idxs (key, w)"
      by (auto simp: live_def psc_send_client_def Let_def)
    moreover have "frames_for key (c # idxs) s = frames_for key idxs s" for s
      using False by (simp add: frames_for_def holders_def)
    ultimately show ?thesis using Cons.IH [of key w] by simp
  next
    case True
    let ?t = "sock (clients key ! c)"
    from send_client_shared [OF assms True] obtain key1 w1 where
      client: "psc_send_client send close msgid msglen msg c (key, w) = Some (key1, w1)"
      and others: "\<And>s. s \<noteq> ?t \<Longrightarrow> sent w1 s = sent w s"
      and key1: "key1 = key \<or> key1 = key\<lparr>clients := (clients key)[c := (clients key ! c)\<lparr>sock := -1\<rparr>]\<rparr>"
      and acc: "send_accepts send ?t \<Longrightarrow> key1 = key \<and> sent w1 ?t = sent w ?t @ ?frame"
      by blast
    obtain key' w' where loop: "psc_send_loop send close msgid msglen msg idxs (key1, w1) = Some (key', w')"
      and frames: "\<And>s. send_accepts send s \<Longrightarrow> sent w' s = sent w1 s @ concat (replicate (frames_for key1 idxs s) ?frame)"
      and none: "\<And>s. frames_for key1 idxs s = 0 \<Longrightarrow> sent w' s = sent w1 s"
      and kept: "\<And>i. live key1 i \<Longrightarrow> send_accepts send (sock (clients key1 ! i)) \<Longrightarrow> clients key' ! i = clients key1 ! i"
        "\<And>i. \<not> live key1 i \<Longrightarrow> clients key' ! i = clients key1 ! i" "clients_used key' = clients_used key1"
      using Cons.IH [of key1 w1] by blast
    have slots: "clients key1 ! i = clients key ! i" if "i \<noteq> c" for i using key1 that by auto
    have used: "clients_used key1 = clients_used key" using key1 by auto
    have live1: "live key1 i \<longleftrightarrow> live key i" if "i \<noteq> c" for i using slots [OF that] used by (simp add: live_def)
    have more: "holders key1 s \<subseteq> holders key s" for s
      using key1 by (cases "c < length (clients key)") (auto simp: holders_def live_def nth_list_update list_update_beyond split: if_splits)
    have same: "holders key1 s = holders key s" if "send_accepts send s" for s
    proof (cases "s = ?t")
      case True
      with acc that show ?thesis by simp
    next
      case False
      with slots live1 more show ?thesis by (fastforce simp: holders_def)
    qed
    have count: "frames_for key (c # idxs) s = (if s = ?t then 1 else 0) + frames_for key idxs s" for s
      using True by (auto simp: frames_for_def holders_def)
    have fewer: "frames_for key1 idxs s = 0" if "frames_for key idxs s = 0" for s
      using that more by (fastforce simp: frames_for_def filter_empty_conv)
    have "psc_send_loop send close msgid msglen msg (c # idxs) (key, w) = Some (key', w')"
      using True client loop by (simp add: live_def)
    moreover have "sent w' s = sent w s @ concat (replicate (frames_for key (c # idxs) s) ?frame)" if "send_accepts send s" for s
    proof (cases "s = ?t")
      case True
      then have "sent w1 s = sent w s @ ?frame" using acc that by simp
      with True frames [OF that] same [OF that] show ?thesis unfolding count by (simp add: frames_for_def)
    next
      case False
      with frames [OF that] same [OF that] others show ?thesis unfolding count by (simp add: frames_for_def)
    qed
    moreover have "sent w' s = sent w s" if "frames_for key (c # idxs) s = 0" for s
      using that none fewer others unfolding count by (simp split: if_splits)
    moreover have "clients key' ! i = clients key ! i" if "live key i" "send_accepts send (sock (clients key ! i))" for i
      using that kept(1) acc slots live1 by (cases "i = c") auto
    moreover have "clients key' ! i = clients key ! i" if "\<not> live key i" for i
    proof -
      have "i \<noteq> c" using True that by auto
      with that kept(2) slots live1 show ?thesis by simp
    qed
    ultimately show ?thesis using kept(3) used by auto
  qed
qed

lemma psc_send_shared:
  assumes "send_contract send sent" "close_contract close sent" "unat msglen \<le> length msg" "key_wf key"
  shows "\<exists>key' w'. psc_send send close (Some key, w) msgid msglen msg = Some (Some key', w')
     \<and> (\<forall>s. send_accepts send s \<longrightarrow> sent w' s = sent w s
          @ concat (replicate (card (holders key s)) (psc_frame msgid (take (unat msglen) msg))))
     \<and> (\<forall>s. s \<notin> live_socks key \<longrightarrow> sent w' s = sent w s)
     \<and> (\<forall>i. live key i \<longrightarrow> send_accepts send (sock (clients key ! i)) \<longrightarrow> clients key' ! i = clients key ! i)
     \<and> (\<forall>i. \<not> live key i \<longrightarrow> clients key' ! i = clients key ! i)
     \<and> clients_used key' = clients_used key"
proof -
  have idx: "i < PSC_MAX_CLIENTS" if "live key i" for i
    using that key_wfD [OF assms(4)] by (auto simp: live_def)
  have "{i \<in> set [0..<PSC_MAX_CLIENTS]. i \<in> holders key s} = holders key s" for s
    using idx by (auto simp: holders_def)
  then have "frames_for key [0..<PSC_MAX_CLIENTS] s = card (holders key s)" for s
    unfolding frames_for_def using distinct_card [of "filter (\<lambda>i. i \<in> holders key s) [0..<PSC_MAX_CLIENTS]"] by simp
  moreover have "card (holders key s) = 0" if "s \<notin> live_socks key" for s
  proof -
    have "holders key s = {}" using that by (auto simp: holders_def live_socks_def)
    then show ?thesis by simp
  qed
  ultimately show ?thesis
    using send_loop_shared [OF assms(1-3), where idxs = "[0..<PSC_MAX_CLIENTS]" and key = key and w = w and msgid = msgid] by (auto simp: psc_send_def)
qed

section \<open>Every reachable state\<close>

text \<open>
  C9. Ownership of sockets: let clients come and go, messages be received and sent and sends fail, in any order,
  on a network stack that does not give a descriptor number to a new connection while a thread of the
  server still holds it. Then at any time no two clients have the same socket, the socket of every
  client is open, a receive thread reads from no other client's socket, and the descriptor a
  leaving thread is about to close belongs to no client.
\<close>

theorem sockets_have_one_owner:
  assumes "psc_run_setup key_set calloc_ok mutex_ok 0 bind_ret listen_ret = Serving key0"
    and "opens_contract send close opens" "(conn_step False send close opens)\<^sup>*\<^sup>* (srv_init key0 w0) st"
  shows "distinct_socks (srv_key st)
     \<and> (\<forall>i. live (srv_key st) i \<longrightarrow> unfilled st i \<or> sock (clients (srv_key st) ! i) \<in> opens (srv_world st))
     \<and> (\<forall>c s i. srv_threads st c = Some s \<longrightarrow> live (srv_key st) i \<longrightarrow> (sock (clients (srv_key st) ! i) = s \<longleftrightarrow> i = c))
     \<and> (\<forall>s \<in> set (srv_closing st). s \<notin> live_socks (srv_key st))"
proof -
  have inv: "live_inv opens st" "threads_inv st" "closing_inv st"
    using sock_inv_reachable [OF assms] by (simp_all add: sock_inv_def)
  show ?thesis
    using live_invD(3,4) [OF inv(1)] threads_invD(3) [OF inv(2)] inv(3)
    by (auto simp: slot_sock_def closing_inv_def unused_def distinct_socks_def inj_on_def live_socks_def)
qed

text \<open>Accepting a connection for which there is a slot.\<close>

lemma conn_accept:
  assumes "srv_accept st = None" "listen_sock (srv_key st) \<in> opens (srv_world st)" "0 \<le> s" "s \<notin> opens (srv_world st)"
    and "reuse \<or> \<not> held_by_thread st s" "opens w = insert s (opens (srv_world st))"
    and "psc_client_alloc (srv_key st) = (Some c, key)"
  shows "(conn_step reuse send close opens)\<^sup>*\<^sup>* st (st\<lparr>srv_key := psc_client_assign c s caddr key, srv_world := w\<rparr>)"
proof -
  let ?st1 = "st\<lparr>srv_key := key, srv_world := w, srv_accept := Some (c, s, caddr)\<rparr>"
  have "conn_step reuse send close opens st ?st1" by (rule conn_alloc [where caddr = caddr]) fact+
  moreover have "conn_step reuse send close opens ?st1
      (?st1\<lparr>srv_key := psc_client_assign c s caddr (srv_key ?st1), srv_accept := None\<rparr>)"
    by (rule conn_store) simp
  moreover have "?st1\<lparr>srv_key := psc_client_assign c s caddr (srv_key ?st1), srv_accept := None\<rparr> =
      st\<lparr>srv_key := psc_client_assign c s caddr key, srv_world := w\<rparr>"
    using assms(1) by (cases st) simp
  ultimately show ?thesis by simp
qed

text \<open>A network for evaluation: its open descriptors, and what each socket has been sent.\<close>

definition net_send :: "(int set \<times> (int \<Rightarrow> bytes)) send_fn" where
  "net_send w s b f = (let (r, out) = demo_send (snd w) s b f in (r, (fst w, out)))"

definition net_close :: "int set \<times> (int \<Rightarrow> bytes) \<Rightarrow> int \<Rightarrow> int set \<times> (int \<Rightarrow> bytes)" where
  "net_close w s = (fst w - {s}, snd w)"

lemma net_contracts:
  "opens_contract net_send net_close fst" "send_contract net_send snd" "close_contract net_close snd" "send_accepts net_send s"
  by (auto simp: opens_contract_def send_contract_def close_contract_def send_accepts_def net_send_def net_close_def
      demo_send_def min_def)

lemma demo_key_alloc: "psc_client_alloc demo_key = (Some 0, demo_key\<lparr>clients_used := 1, clients := (clients demo_key)[0 := fresh_client 0]\<rparr>)"
  by (simp add: psc_client_alloc_def psc_client_alloc_from.simps demo_key_def fresh_client_def)

definition one_client :: "(int set \<times> (int \<Rightarrow> bytes)) server" where
  "one_client = (srv_init demo_key ({0}, \<lambda>_. []))\<lparr>srv_key := psc_client_assign 0 7 (1, 2)
      (demo_key\<lparr>clients_used := 1, clients := (clients demo_key)[0 := fresh_client 0]\<rparr>), srv_world := ({0, 7}, \<lambda>_. [])\<rparr>"

lemma demo_run: "psc_run_setup False True True 0 0 0 = Serving demo_key"
  by (simp add: psc_run_setup_def demo_key_def)

lemma one_client_reachable:
  "(conn_step False net_send net_close fst)\<^sup>*\<^sup>* (srv_init demo_key ({0}, \<lambda>_. [])) one_client"
  unfolding one_client_def
  by (rule conn_accept) (simp_all add: srv_init_def held_by_thread_def demo_key_alloc, auto simp: demo_key_def)

lemma one_client_slot: "live (srv_key one_client) 0" "sock (clients (srv_key one_client) ! 0) = 7"
  "snd (srv_world one_client) = (\<lambda>_. [])"
  by (simp_all add: one_client_def psc_client_assign_def demo_key_def live_def)

theorem sockets_have_one_owner_witness:
  "distinct_socks (srv_key one_client) \<and> live (srv_key one_client) 0"
  using sockets_have_one_owner [OF demo_run net_contracts(1) one_client_reachable] one_client_slot(1) by (simp only: simp_thms)

text \<open>
  C10. Broadcasting in every reachable state, whatever descriptor numbers the network stack gives out again:
  \<open>psc_send\<close> leaves every client whose socket keeps accepting connected and gives its socket the frame of the message, once for each connected
  slot that holds this socket; no other slot changes than those of clients whose socket fails, and no byte goes to a descriptor that no
  connected slot holds (a slot that is allocated and not yet filled holds 0, the listening socket). If no number
  is given to a new connection while a thread still holds it, every connected slot has a socket of its own, so each such client
  gets exactly the frame. With numbers given out again one socket may be in two slots and get the frame twice.
\<close>

theorem broadcast_in_every_state:
  assumes "psc_run_setup key_set calloc_ok mutex_ok 0 bind_ret listen_ret = Serving key0"
    and "opens_contract send close opens" "(conn_step reuse send close opens)\<^sup>*\<^sup>* (srv_init key0 w0) st"
    and "send_contract send sent" "close_contract close sent" "unat msglen \<le> length msg"
  shows "\<exists>key w. psc_send send close (Some (srv_key st), srv_world st) msgid msglen msg = Some (Some key, w)
     \<and> conn_step reuse send close opens st (st\<lparr>srv_key := key, srv_world := w\<rparr>)
     \<and> (\<forall>i s. live (srv_key st) i \<and> sock (clients (srv_key st) ! i) = s \<and> send_accepts send s \<longrightarrow>
          live key i \<and> clients key ! i = clients (srv_key st) ! i
          \<and> sent w s = sent (srv_world st) s
              @ concat (replicate (card (holders (srv_key st) s)) (psc_frame msgid (take (unat msglen) msg))))
     \<and> (\<forall>i. \<not> live (srv_key st) i \<longrightarrow> clients key ! i = clients (srv_key st) ! i)
     \<and> (\<forall>s. s \<notin> live_socks (srv_key st) \<longrightarrow> sent w s = sent (srv_world st) s)
     \<and> (\<not> reuse \<longrightarrow> (\<forall>i. live (srv_key st) i \<longrightarrow> holders (srv_key st) (sock (clients (srv_key st) ! i)) = {i}))"
proof -
  have "slot_inv st" by (rule slot_inv_reachable [OF assms(1,3)])
  then have wf: "key_wf (srv_key st)" by (simp add: slot_inv_def)
  from psc_send_shared [OF assms(4-6) wf, of "srv_world st" msgid] obtain key w where
    kw: "psc_send send close (Some (srv_key st), srv_world st) msgid msglen msg = Some (Some key, w)"
    and frames: "\<And>s. send_accepts send s \<Longrightarrow> sent w s = sent (srv_world st) s
      @ concat (replicate (card (holders (srv_key st) s)) (psc_frame msgid (take (unat msglen) msg)))"
    and none: "\<forall>s. s \<notin> live_socks (srv_key st) \<longrightarrow> sent w s = sent (srv_world st) s"
    and slots: "\<And>i. live (srv_key st) i \<Longrightarrow> send_accepts send (sock (clients (srv_key st) ! i)) \<Longrightarrow> clients key ! i = clients (srv_key st) ! i"
      "\<forall>i. \<not> live (srv_key st) i \<longrightarrow> clients key ! i = clients (srv_key st) ! i" "clients_used key = clients_used (srv_key st)"
    by blast
  have "live key i" if "live (srv_key st) i" "send_accepts send (sock (clients (srv_key st) ! i))" for i
    using that slots(1) [OF that] slots(3) by (simp add: live_def)
  moreover have "holders (srv_key st) (sock (clients (srv_key st) ! i)) = {i}" if "\<not> reuse" "live (srv_key st) i" for i
  proof -
    have "live_inv opens st"
      using sock_inv_reachable [OF assms(1,2)] assms(3) that(1) by (simp add: sock_inv_def)
    with that(2) show ?thesis by (auto simp: holders_def live_inv_def slot_sock_def)
  qed
  ultimately show ?thesis
    using kw conn_send [OF kw] frames none slots(1,2) by blast
qed

theorem broadcast_in_every_state_witness:
  "\<exists>key w. psc_send net_send net_close (Some (srv_key one_client), srv_world one_client) 0x20 2 [8, 9] = Some (Some key, w)
     \<and> snd w 7 = [0x50, 0x53, 0, 0x20, 0, 0, 0, 2, 8, 9]"
proof -
  have "unat (2 :: u32) \<le> length [8, 9 :: u8]" by simp
  from broadcast_in_every_state [OF demo_run net_contracts(1) one_client_reachable net_contracts(2,3) this, of "0x20"]
  obtain key w where "psc_send net_send net_close (Some (srv_key one_client), srv_world one_client) 0x20 2 [8, 9] = Some (Some key, w)"
    "snd w 7 = [] @ concat (replicate (card (holders (srv_key one_client) 7)) (psc_frame 0x20 (take (unat (2 :: u32)) [8, 9])))"
    "holders (srv_key one_client) 7 = {0}"
    using one_client_slot net_contracts(4) by metis
  then show ?thesis by (auto simp: psc_frame_def be16_bytes be32_bytes)
qed

section \<open>A receive thread and the others\<close>

text \<open>What a receive thread relies on in its slot, and what sending may change there.\<close>

definition slot_kept :: "nat \<Rightarrow> psc_key \<Rightarrow> psc_key \<Rightarrow> bool" where
  "slot_kept c key key' \<longleftrightarrow>
     (let C = clients key ! c; C' = clients key' ! c in
      (bit (clients_used key') c \<longleftrightarrow> bit (clients_used key) c) \<and> index C' = index C \<and> has_PSC C' = has_PSC C
      \<and> peeraddr C' = peeraddr C \<and> rxbuf C' = rxbuf C \<and> (sock C' = sock C \<or> sock C' = -1))"

lemma nth_update: "xs[i := x] ! j = (if i = j \<and> i < length xs then x else xs ! j)"
  by (cases "i < length xs") (auto simp: nth_list_update list_update_beyond)

lemma slot_kept_other:
  "d \<noteq> c \<Longrightarrow> (bit used c \<longleftrightarrow> bit (clients_used key) c) \<Longrightarrow>
   slot_kept c key (key\<lparr>clients_used := used, clients := (clients key)[d := C]\<rparr>)"
  by (simp add: slot_kept_def)

lemma slot_kept_refl: "slot_kept c key key"
  by (simp add: slot_kept_def Let_def)

lemma slot_kept_trans: "slot_kept c key key' \<Longrightarrow> slot_kept c key' key'' \<Longrightarrow> slot_kept c key key''"
  by (auto simp: slot_kept_def Let_def)

lemma slot_kept_send_client:
  assumes "psc_send_client send close msgid msglen msg d (key, w) = Some (key', w')"
  shows "slot_kept c key key'"
proof -
  have "slot_kept c key (key\<lparr>clients := (clients key)[d := (clients key ! d)\<lparr>sock := -1\<rparr>]\<rparr>)"
    by (auto simp: slot_kept_def Let_def nth_update)
  with assms slot_kept_refl show ?thesis
    by (auto simp: psc_send_client_def Let_def split: if_splits option.splits)
qed

lemma slot_kept_send_loop:
  "psc_send_loop send close msgid msglen msg idxs (key, w) = Some (key', w') \<Longrightarrow> slot_kept c key key'"
proof (induction idxs arbitrary: key w)
  case (Cons d idxs)
  then show ?case
    by (auto split: if_splits option.splits intro: slot_kept_trans slot_kept_send_client)
qed (simp add: slot_kept_refl)

lemma slot_kept_alloc:
  assumes "key_wf key" "psc_client_alloc key = (Some d, key')" "bit (clients_used key) c"
  shows "slot_kept c key key'"
proof -
  note k = key_wf_alloc [OF assms(1,2)]
  have "d \<noteq> c" using k(2) assms(3) by auto
  then show ?thesis unfolding k(4) by (rule slot_kept_other) (use assms(3) in \<open>simp add: bit_set_slot\<close>)
qed

lemma slot_kept_free:
  assumes "key_wf key" "bit (clients_used key) d" "d \<noteq> c"
  shows "slot_kept c key (psc_client_free d key)"
  using key_wf_free(2) [OF assms(1,2)] assms(3)
  by (auto simp: slot_kept_def bit_clear_slot) (auto simp: psc_client_free_def)

text \<open>
  C11. Threads do not disturb each other: in every reachable state, whatever descriptor numbers are given out again, and
  whatever step another thread takes, or any thread takes in \<open>psc_send\<close>, a running receive thread keeps running with the copy of the descriptor it
  took, its slot stays used, and the number, server, peer and receive buffer in the slot are unchanged; the socket in the slot stays what
  it was, or is marked as failed. If no number is given out again while a thread still holds it, moreover, the thread's
  descriptor stays open unless the slot is marked.
\<close>

theorem receive_thread_undisturbed:
  assumes "psc_run_setup key_set calloc_ok mutex_ok 0 bind_ret listen_ret = Serving key0"
    and "opens_contract send close opens" "(conn_step reuse send close opens)\<^sup>*\<^sup>* (srv_init key0 w0) st"
    and "srv_threads st c = Some s" "conn_act reuse send close opens a st st'" "a \<noteq> Receiving c"
  shows "srv_threads st' c = Some s \<and> c \<in> used_slots (srv_key st') \<and> slot_kept c (srv_key st) (srv_key st')
     \<and> (\<not> reuse \<longrightarrow> sock (clients (srv_key st') ! c) = -1
          \<or> sock (clients (srv_key st') ! c) = s \<and> s \<in> opens (srv_world st'))"
proof -
  have inv: "slot_inv st" by (rule slot_inv_reachable [OF assms(1,3)])
  then have wf: "key_wf (srv_key st)" by (simp add: slot_inv_def)
  have c: "c \<in> used_slots (srv_key st)" "bit (clients_used (srv_key st)) c"
    using inv assms(4) by (auto simp: slot_inv_def used_slots_def)
  have kept: "srv_threads st' c = Some s \<and> slot_kept c (srv_key st) (srv_key st')"
    using assms(5)
  proof cases
    case (act_alloc t w d key caddr)
    with assms(4) slot_kept_alloc [OF wf act_alloc(9) c(2)] show ?thesis by simp
  next
    case (act_drop t w key)
    with assms(4) slot_kept_refl alloc_full(1) [OF wf act_drop(8)] show ?thesis by simp
  next
    case (act_store d t caddr)
    then have "d \<noteq> c" using inv assms(4) by (auto simp: slot_inv_def)
    with act_store(2) assms(4) show ?thesis by (simp add: slot_kept_def psc_client_assign_def)
  next
    case (act_receive d t buf w)
    with assms(4,6) show ?thesis by (simp add: slot_kept_def)
  next
    case (act_send msgid msglen msg key w)
    then have "slot_kept c (srv_key st) key" by (auto simp: psc_send_def intro: slot_kept_send_loop)
    with act_send(2) assms(4) show ?thesis by simp
  next
    case (act_send_one d t msgid msglen msg key w)
    then have "slot_kept c (srv_key st) key" by (auto dest: psc_send_oneD intro: slot_kept_send_client)
    with act_send_one(2) assms(4) show ?thesis by simp
  next
    case (act_free d t)
    have "bit (clients_used (srv_key st)) d" using inv act_free(3) by (auto simp: slot_inv_def used_slots_def)
    with act_free assms(4,6) slot_kept_free [OF wf] show ?thesis by auto
  qed (use assms(4,6) slot_kept_refl in auto)
  then have used: "c \<in> used_slots (srv_key st')" using c by (auto simp: slot_kept_def Let_def used_slots_def)
  have step: "conn_step reuse send close opens st st'" using assms(5) by (rule conn_stepI)
  have "sock (clients (srv_key st') ! c) = s \<and> s \<in> opens (srv_world st')"
    if "\<not> reuse" "sock (clients (srv_key st') ! c) \<noteq> -1"
  proof -
    have inv': "live_inv opens st'" "accept_inv opens st'" "threads_inv st'"
      using sock_inv_reachable [OF assms(1,2)] rtranclp.rtrancl_into_rtrancl [OF assms(3) step] that(1)
      by (simp_all add: sock_inv_def)
    have live: "live (srv_key st') c" using used that(2) by (simp add: live_def used_slots_def)
    have "\<not> unfilled st' c" using inv'(2) kept by (auto simp: accept_inv_def unfilled_def)
    then have "slot_sock st' c \<in> opens (srv_world st')" using live_invD(3) [OF inv'(1) live] by simp
    moreover have "srv_threads st' c = Some s" using kept by simp
    then have "slot_sock st' c = s" using threads_invD(3) [OF inv'(3) _ live] by blast
    ultimately show ?thesis by (simp add: slot_sock_def)
  qed
  with kept used show ?thesis by blast
qed

theorem receive_thread_undisturbed_witness:
  "\<exists>st st'. conn_act False net_send net_close fst Accepting st st' \<and> srv_threads st 0 = Some 7
     \<and> srv_accept st' = Some (1, 8, (3, 4)) \<and> srv_threads st' 0 = Some 7 \<and> slot_kept 0 (srv_key st) (srv_key st')"
proof -
  let ?st = "one_client\<lparr>srv_threads := [0 \<mapsto> 7]\<rparr>"
  have "conn_step False net_send net_close fst one_client ?st"
    using conn_start [of 0 one_client] one_client_slot
    by (simp add: one_client_def srv_init_def used_slots_def psc_client_assign_def)
  then have reach: "(conn_step False net_send net_close fst)\<^sup>*\<^sup>* (srv_init demo_key ({0}, \<lambda>_. [])) ?st"
    using one_client_reachable by simp
  obtain key where key: "psc_client_alloc (srv_key ?st) = (Some 1, key)"
    by (simp add: one_client_def srv_init_def psc_client_assign_def demo_key_def psc_client_alloc_def
        psc_client_alloc_from.simps)
  let ?st' = "?st\<lparr>srv_key := key, srv_world := ({0, 7, 8}, \<lambda>_. []), srv_accept := Some (1, 8, (3, 4))\<rparr>"
  have step: "conn_act False net_send net_close fst Accepting ?st ?st'"
    by (rule act_alloc [OF _ _ _ _ _ _ key])
      (auto simp: one_client_def srv_init_def psc_client_assign_def demo_key_def held_by_thread_def)
  have "srv_threads ?st 0 = Some 7" by simp
  from receive_thread_undisturbed [OF demo_run net_contracts(1) reach this step] have
    "slot_kept 0 (srv_key ?st) (srv_key ?st')" by simp
  with step show ?thesis by (intro exI [of _ ?st] exI [of _ ?st']) simp
qed

section \<open>Reused descriptors\<close>

text \<open>A network on which every send fails, with its open descriptors as the state.\<close>

definition dead_send :: "int set send_fn" where
  "dead_send w s b f = (SFail ENOTCONN, w)"

definition dead_close :: "int set \<Rightarrow> int \<Rightarrow> int set" where
  "dead_close w s = w - {s}"

lemma dead_opens_contract: "opens_contract dead_send dead_close (\<lambda>w. w)"
  by (simp add: opens_contract_def dead_send_def dead_close_def)

definition demo_client :: "nat \<Rightarrow> psc_client" where
  "demo_client i = (fresh_client i)\<lparr>sock := 1, peeraddr := (1, 1)\<rparr>"

definition demo_state :: "u32 \<Rightarrow> psc_client \<Rightarrow> psc_client \<Rightarrow> int set \<Rightarrow> (nat \<rightharpoonup> int) \<Rightarrow> int list \<Rightarrow> int set server" where
  "demo_state used a b w threads closing =
     \<lparr>srv_key = \<lparr>listen_sock = 0, clients_used = used, clients = [a, b, zero_client, zero_client]\<rparr>,
      srv_world = w, srv_accept = None, srv_threads = threads, srv_closing = closing\<rparr>"

lemma dead_sendmsg: "psc_sendmsg dead_send w s msgid msg n 0 = Some (ENOTCONN, w)"
  by (simp add: psc_sendmsg_def psc_sendhead_def Let_def psc_sendall.simps psc_header_bytes_def dead_send_def)

text \<open>
  C39. With descriptors reused as lwIP does, a client can be given another's socket: a send to the first client
  fails, which closes its socket; the next connection gets the same number; the thread of the first client,
  waking up, closes this number again; and the connection after that gets it once more. Now two
  clients are connected with one and the same socket, although the network stack never gave out an open
  descriptor.
\<close>

theorem reused_socket_is_shared:
  "\<exists>(send :: int set send_fn) close opens w0 st. opens_contract send close opens
     \<and> (conn_step True send close opens)\<^sup>*\<^sup>* (srv_init demo_key w0) st
     \<and> live (srv_key st) 0 \<and> live (srv_key st) 1
     \<and> sock (clients (srv_key st) ! 0) = sock (clients (srv_key st) ! 1)
     \<and> sock (clients (srv_key st) ! 0) \<in> opens (srv_world st)"
proof -
  let ?step = "conn_step True dead_send dead_close (\<lambda>w. w)"
  let ?C = demo_client and ?D = "(demo_client 0)\<lparr>sock := -1\<rparr>" and ?z = zero_client
  have accept: "?step\<^sup>*\<^sup>* st (st\<lparr>srv_key := psc_client_assign c 1 (1, 1) key, srv_world := {0, 1}\<rparr>)"
    if "srv_accept st = None" "listen_sock (srv_key st) = 0" "srv_world st = {0}"
      "psc_client_alloc (srv_key st) = (Some c, key)" for st c key
    by (rule conn_accept) (use that in auto)
  have diff: "{0, 1} - {1 :: int} = {0}" by auto
  have 1: "?step\<^sup>*\<^sup>* (srv_init demo_key {0}) (demo_state 1 (?C 0) ?z {0, 1} Map.empty [])"
    using accept [of "srv_init demo_key {0}" 0, unfolded srv_init_def server.simps, OF refl _ refl demo_key_alloc]
    by (simp add: srv_init_def demo_state_def demo_client_def psc_client_assign_def demo_key_def eval_nat_numeral)
  have 2: "?step (demo_state 1 (?C 0) ?z {0, 1} Map.empty []) (demo_state 1 (?C 0) ?z {0, 1} [0 \<mapsto> 1] [])"
    using conn_start [of 0 "demo_state 1 (?C 0) ?z {0, 1} Map.empty []"]
    by (simp add: demo_state_def demo_client_def used_slots_def)
  have 3: "?step (demo_state 1 (?C 0) ?z {0, 1} [0 \<mapsto> 1] []) (demo_state 1 ?D ?z {0} [0 \<mapsto> 1] [])"
    using conn_send_one [of "demo_state 1 (?C 0) ?z {0, 1} [0 \<mapsto> 1] []" 0 1 dead_send dead_close 0 0 "[]"]
    by (simp add: demo_state_def demo_client_def psc_send_one_def psc_send_client_def Let_def dead_sendmsg dead_close_def diff)
  have 4: "?step\<^sup>*\<^sup>* (demo_state 1 ?D ?z {0} [0 \<mapsto> 1] []) (demo_state 3 ?D (?C 1) {0, 1} [0 \<mapsto> 1] [])"
    using accept [of "demo_state 1 ?D ?z {0} [0 \<mapsto> 1] []" 1]
    by (simp add: demo_state_def demo_client_def psc_client_alloc_def psc_client_alloc_from.simps
        fresh_client_def psc_client_assign_def)
  have 5: "?step (demo_state 3 ?D (?C 1) {0, 1} [0 \<mapsto> 1] []) (demo_state 2 ?z (?C 1) {0, 1} Map.empty [1])"
    using conn_free [of "demo_state 3 ?D (?C 1) {0, 1} [0 \<mapsto> 1] []" 0 1]
    by (simp add: demo_state_def demo_client_def psc_client_free_def)
  have 6: "?step (demo_state 2 ?z (?C 1) {0, 1} Map.empty [1]) (demo_state 2 ?z (?C 1) {0} Map.empty [])"
    using conn_close [where s = 1 and st = "demo_state 2 ?z (?C 1) {0, 1} Map.empty [1]" and close = dead_close]
    by (simp add: demo_state_def dead_close_def diff)
  have 7: "?step\<^sup>*\<^sup>* (demo_state 2 ?z (?C 1) {0} Map.empty []) (demo_state 3 (?C 0) (?C 1) {0, 1} Map.empty [])"
    using accept [of "demo_state 2 ?z (?C 1) {0} Map.empty []" 0]
    by (simp add: demo_state_def demo_client_def psc_client_alloc_def psc_client_alloc_from.simps
        fresh_client_def psc_client_assign_def)
  have "?step\<^sup>*\<^sup>* (srv_init demo_key {0}) (demo_state 3 (?C 0) (?C 1) {0, 1} Map.empty [])"
    using 1 2 3 4 5 6 7 by (meson rtranclp.rtrancl_into_rtrancl rtranclp_trans)
  moreover have "live (srv_key (demo_state 3 (?C 0) (?C 1) {0, 1} Map.empty [])) i" if "i < 2" for i
    using that by (auto simp: demo_state_def demo_client_def live_def less_2_cases_iff)
  ultimately show ?thesis
    using dead_opens_contract
    by (intro exI [of _ dead_send] exI [of _ dead_close] exI [of _ "\<lambda>w. w"] exI [of _ "{0}"]
        exI [of _ "demo_state 3 (?C 0) (?C 1) {0, 1} Map.empty []"] conjI)
      (simp_all add: demo_state_def demo_client_def)
qed

end
