(* ===== verification/Tftp.thy ===== *)
theory Tftp
  imports Prelude
begin

text \<open>
  The TFTP server, \<open>src/sw/src/tftp_server.c\<close> with the limits of \<open>tftp_opts.h\<close>: a state machine
  for one transfer at a time, driven by datagrams (\<open>tftp_recv\<close>) and by a one-second timer
  (\<open>tftp_tmr\<close>).

  The state is the static \<open>tftp_state\<close>, with two observations added: \<open>ts_timers\<close>, the number of
  pending \<open>sys_timeout\<close> entries for \<open>tftp_tmr\<close>, and \<open>ts_out\<close>, the datagrams sent so far. A pbuf is the
  list of the payloads of its chain; address 0 is \<open>any\<close>, a NULL handle is \<open>None\<close>. What is not in the
  repository is a parameter: the file operations of \<open>tftp_context\<close> and \<open>pbuf_alloc\<close>, both acting on a
  world \<open>'f\<close>, and \<open>pbuf_memfind\<close>. The timer counts seconds in an \<open>int\<close> of C, here without bound: that it overflows
  after 68 years is not modelled. \<open>None\<close> as a result is an access outside a buffer or through NULL.
\<close>

section \<open>Definitions\<close>

text \<open>C string literals as bytes.\<close>

definition str :: "string \<Rightarrow> bytes" where
  "str s = map of_char s"

type_synonym pbuf = "bytes list"
type_synonym memfind_fn = "bytes \<Rightarrow> u8 \<Rightarrow> nat \<Rightarrow> u16"

abbreviation (input) TFTP_MAX_PAYLOAD_SIZE :: nat where "TFTP_MAX_PAYLOAD_SIZE \<equiv> 512"
abbreviation (input) TFTP_HEADER_LENGTH :: nat where "TFTP_HEADER_LENGTH \<equiv> 4"
abbreviation (input) TFTP_RRQ :: u16 where "TFTP_RRQ \<equiv> 1"
abbreviation (input) TFTP_WRQ :: u16 where "TFTP_WRQ \<equiv> 2"
abbreviation (input) TFTP_DATA :: u16 where "TFTP_DATA \<equiv> 3"
abbreviation (input) TFTP_ACK :: u16 where "TFTP_ACK \<equiv> 4"
abbreviation (input) TFTP_ERROR :: u16 where "TFTP_ERROR \<equiv> 5"
abbreviation (input) TFTP_MAX_FILENAME_LEN :: nat where "TFTP_MAX_FILENAME_LEN \<equiv> 20"
abbreviation (input) TFTP_MAX_MODE_LEN :: nat where "TFTP_MAX_MODE_LEN \<equiv> 7"
abbreviation (input) TFTP_MAX_RETRIES :: u8 where "TFTP_MAX_RETRIES \<equiv> 5"
abbreviation (input) TFTP_TIMEOUT_TICKS :: int where "TFTP_TIMEOUT_TICKS \<equiv> 10000 div (10000 div 10)"

datatype tftp_error =
    TFTP_ERROR_FILE_NOT_FOUND | TFTP_ERROR_ACCESS_VIOLATION | TFTP_ERROR_DISK_FULL
  | TFTP_ERROR_ILLEGAL_OPERATION | TFTP_ERROR_UNKNOWN_TRFR_ID | TFTP_ERROR_FILE_EXISTS
  | TFTP_ERROR_NO_SUCH_USER

fun tftp_error_code :: "tftp_error \<Rightarrow> u16" where
  "tftp_error_code TFTP_ERROR_FILE_NOT_FOUND = 1"
| "tftp_error_code TFTP_ERROR_ACCESS_VIOLATION = 2"
| "tftp_error_code TFTP_ERROR_DISK_FULL = 3"
| "tftp_error_code TFTP_ERROR_ILLEGAL_OPERATION = 4"
| "tftp_error_code TFTP_ERROR_UNKNOWN_TRFR_ID = 5"
| "tftp_error_code TFTP_ERROR_FILE_EXISTS = 6"
| "tftp_error_code TFTP_ERROR_NO_SUCH_USER = 7"

text \<open>
  The callbacks: \<open>read\<close> returns its result and the bytes it has put into the buffer, \<open>write\<close> gets
  the chain of payloads.
\<close>

record ('hd, 'f) tftp_context =
  ctx_open :: "bytes \<Rightarrow> bytes \<Rightarrow> bool \<Rightarrow> 'f \<Rightarrow> 'hd option \<times> 'f"
  ctx_close :: "'hd \<Rightarrow> 'f \<Rightarrow> 'f"
  ctx_read :: "'hd \<Rightarrow> nat \<Rightarrow> 'f \<Rightarrow> int \<times> bytes \<times> 'f"
  ctx_write :: "'hd \<Rightarrow> pbuf \<Rightarrow> 'f \<Rightarrow> int \<times> 'f"

record ('hd, 'f) tftp_state =
  ts_handle :: "'hd option"
  ts_last_data :: "bytes option"
  ts_addr :: u32
  ts_port :: u16
  ts_timer :: int
  ts_last_pkt :: int
  ts_blknum :: u16
  ts_retries :: u8
  ts_mode_write :: u8
  ts_timers :: nat
  ts_out :: "(u32 \<times> u16 \<times> bytes) list"
  ts_world :: 'f

definition close_handle :: "('hd, 'f) tftp_context \<Rightarrow> ('hd, 'f) tftp_state \<Rightarrow> ('hd, 'f) tftp_state" where
  "close_handle ctx st =
     (let st1 = st\<lparr>ts_port := 0, ts_addr := 0, ts_last_data := None, ts_timers := ts_timers st - 1\<rparr>
      in case ts_handle st1 of
           None \<Rightarrow> st1
         | Some h \<Rightarrow> st1\<lparr>ts_world := ctx_close ctx h (ts_world st1), ts_handle := None\<rparr>)"

text \<open>Allocating a pbuf and sending a datagram in it; without memory nothing is sent.\<close>

definition udp_reply ::
  "('f \<Rightarrow> bool \<times> 'f) \<Rightarrow> u32 \<Rightarrow> u16 \<Rightarrow> bytes \<Rightarrow> ('hd, 'f) tftp_state \<Rightarrow> ('hd, 'f) tftp_state" where
  "udp_reply alloc addr port payload st =
     (let (ok, w) = alloc (ts_world st)
      in if ok then st\<lparr>ts_world := w, ts_out := ts_out st @ [(addr, port, payload)]\<rparr>
         else st\<lparr>ts_world := w\<rparr>)"

definition send_error ::
  "('f \<Rightarrow> bool \<times> 'f) \<Rightarrow> u32 \<Rightarrow> u16 \<Rightarrow> tftp_error \<Rightarrow> string \<Rightarrow> ('hd, 'f) tftp_state \<Rightarrow> ('hd, 'f) tftp_state" where
  "send_error alloc addr port code s st =
     udp_reply alloc addr port (put16 (htons TFTP_ERROR) @ put16 (htons (tftp_error_code code)) @ str s @ [0]) st"

definition send_ack :: "('f \<Rightarrow> bool \<times> 'f) \<Rightarrow> u16 \<Rightarrow> ('hd, 'f) tftp_state \<Rightarrow> ('hd, 'f) tftp_state" where
  "send_ack alloc blknum st =
     udp_reply alloc (ts_addr st) (ts_port st) (put16 (htons TFTP_ACK) @ put16 (htons blknum)) st"

definition resend_data :: "('f \<Rightarrow> bool \<times> 'f) \<Rightarrow> ('hd, 'f) tftp_state \<Rightarrow> ('hd, 'f) tftp_state option" where
  "resend_data alloc st =
     (case ts_last_data st of
        None \<Rightarrow> None
      | Some d \<Rightarrow> Some (udp_reply alloc (ts_addr st) (ts_port st) d st))"

definition send_data ::
  "('f \<Rightarrow> bool \<times> 'f) \<Rightarrow> ('hd, 'f) tftp_context \<Rightarrow> ('hd, 'f) tftp_state \<Rightarrow> ('hd, 'f) tftp_state option" where
  "send_data alloc ctx st =
     (case ts_handle st of
        None \<Rightarrow> None
      | Some h \<Rightarrow>
          (let (ok, w) = alloc (ts_world st) in
           if \<not> ok then Some (st\<lparr>ts_last_data := None, ts_world := w\<rparr>)
           else let (ret, d, w') = ctx_read ctx h TFTP_MAX_PAYLOAD_SIZE w;
                    hdr = put16 (htons TFTP_DATA) @ put16 (htons (ts_blknum st));
                    st' = st\<lparr>ts_last_data := Some (hdr @ take (nat ret) d), ts_world := w'\<rparr>
                in if ret < 0
                   then Some (close_handle ctx (send_error alloc (ts_addr st') (ts_port st')
                          TFTP_ERROR_ACCESS_VIOLATION ''Error occurred while reading the file.'' st'))
                   else resend_data alloc st'))"

text \<open>Copying \<open>len\<close> bytes at \<open>off\<close> into a local array of \<open>bufsize\<close> bytes, read back as a string.\<close>

definition copy_cstring :: "bytes \<Rightarrow> nat \<Rightarrow> nat \<Rightarrow> nat \<Rightarrow> bytes option" where
  "copy_cstring bs len off bufsize =
     (let d = take len (drop off bs)
      in if bufsize < len \<or> 0 \<notin> set d then None else Some (takeWhile (\<lambda>b. b \<noteq> 0) d))"

definition tftp_request ::
  "('f \<Rightarrow> bool \<times> 'f) \<Rightarrow> memfind_fn \<Rightarrow> ('hd, 'f) tftp_context \<Rightarrow> pbuf \<Rightarrow> u32 \<Rightarrow> u16 \<Rightarrow> bool \<Rightarrow>
     ('hd, 'f) tftp_state \<Rightarrow> ('hd, 'f) tftp_state option" where
  "tftp_request alloc memfind ctx p addr port wr st =
     (if ts_handle st \<noteq> None
      then Some (send_error alloc addr port TFTP_ERROR_ACCESS_VIOLATION
                   ''Only one connection at a time is supported'' st)
      else
        let st1 = st\<lparr>ts_timers := ts_timers st + 1\<rparr>;
            filename_end_offset = memfind (concat p) 0 2
        in
        if TFTP_MAX_FILENAME_LEN + 1 < unat (filename_end_offset - 1)
        then Some (send_error alloc addr port TFTP_ERROR_ACCESS_VIOLATION
                     ''Filename too long/not NULL terminated'' st1)
        else case copy_cstring (concat p) (unat (filename_end_offset - 1)) 2 (TFTP_MAX_FILENAME_LEN + 1) of
          None \<Rightarrow> None
        | Some filename \<Rightarrow>
            let mode_end_offset = memfind (concat p) 0 (unat filename_end_offset + 1) in
            if TFTP_MAX_MODE_LEN + 1 < unat (mode_end_offset - filename_end_offset)
            then Some (send_error alloc addr port TFTP_ERROR_ACCESS_VIOLATION
                         ''Mode too long/not NULL terminated'' st1)
            else case copy_cstring (concat p) (unat (mode_end_offset - filename_end_offset))
                        (unat filename_end_offset + 1) (TFTP_MAX_MODE_LEN + 1) of
              None \<Rightarrow> None
            | Some mode \<Rightarrow>
                let (h, w) = ctx_open ctx filename mode wr (ts_world st1);
                    st2 = st1\<lparr>ts_handle := h, ts_blknum := 1, ts_world := w\<rparr>
                in if h = None
                   then Some (send_error alloc addr port TFTP_ERROR_FILE_NOT_FOUND
                                ''Unable to open requested file.'' st2)
                   else let st3 = st2\<lparr>ts_addr := addr, ts_port := port\<rparr>
                        in if wr then Some (send_ack alloc 0 (st3\<lparr>ts_mode_write := 1\<rparr>))
                           else send_data alloc ctx (st3\<lparr>ts_mode_write := 0\<rparr>))"

text \<open>\<open>sbuf[i]\<close>: the 16-bit word \<open>i\<close> of the first payload of the chain.\<close>

definition sbuf :: "pbuf \<Rightarrow> nat \<Rightarrow> u16 option" where
  "sbuf p i = (case p of
     [] \<Rightarrow> None
   | d # _ \<Rightarrow> if 2 * i + 2 \<le> length d then Some (get16 (drop (2 * i) d)) else None)"

definition tftp_data ::
  "('f \<Rightarrow> bool \<times> 'f) \<Rightarrow> ('hd, 'f) tftp_context \<Rightarrow> pbuf \<Rightarrow> u32 \<Rightarrow> u16 \<Rightarrow>
     ('hd, 'f) tftp_state \<Rightarrow> ('hd, 'f) tftp_state option" where
  "tftp_data alloc ctx p addr port st =
     (case ts_handle st of
        None \<Rightarrow> Some (send_error alloc addr port TFTP_ERROR_ACCESS_VIOLATION ''No connection'' st)
      | Some h \<Rightarrow>
          if ts_mode_write st \<noteq> 1
          then Some (send_error alloc addr port TFTP_ERROR_ACCESS_VIOLATION ''Not a write connection'' st)
          else case sbuf p 1 of
            None \<Rightarrow> None
          | Some w1 \<Rightarrow>
              let blknum = ntohs w1 in
              if blknum = ts_blknum st
              then let p' = drop TFTP_HEADER_LENGTH (hd p) # tl p;
                       (ret, w) = ctx_write ctx h p' (ts_world st);
                       st1 = st\<lparr>ts_world := w\<rparr>;
                       st2 = (if ret < 0
                              then close_handle ctx (send_error alloc addr port TFTP_ERROR_ACCESS_VIOLATION
                                     ''error writing file'' st1)
                              else send_ack alloc blknum st1)
                   in Some (if length (concat p') < TFTP_MAX_PAYLOAD_SIZE then close_handle ctx st2
                            else st2\<lparr>ts_blknum := ts_blknum st2 + 1\<rparr>)
              else if blknum + 1 = ts_blknum st then Some (send_ack alloc blknum st)
              else Some (send_error alloc addr port TFTP_ERROR_UNKNOWN_TRFR_ID ''Wrong block number'' st))"

definition tftp_ack ::
  "('f \<Rightarrow> bool \<times> 'f) \<Rightarrow> ('hd, 'f) tftp_context \<Rightarrow> pbuf \<Rightarrow> u32 \<Rightarrow> u16 \<Rightarrow>
     ('hd, 'f) tftp_state \<Rightarrow> ('hd, 'f) tftp_state option" where
  "tftp_ack alloc ctx p addr port st =
     (if ts_handle st = None
      then Some (send_error alloc addr port TFTP_ERROR_ACCESS_VIOLATION ''No connection'' st)
      else if ts_mode_write st \<noteq> 0
      then Some (send_error alloc addr port TFTP_ERROR_ACCESS_VIOLATION ''Not a read connection'' st)
      else case sbuf p 1 of
        None \<Rightarrow> None
      | Some w1 \<Rightarrow>
          if ntohs w1 \<noteq> ts_blknum st
          then Some (send_error alloc addr port TFTP_ERROR_UNKNOWN_TRFR_ID ''Wrong block number'' st)
          else let lastpkt = (case ts_last_data st of
                                None \<Rightarrow> False
                              | Some d \<Rightarrow> length d \<noteq> TFTP_MAX_PAYLOAD_SIZE + TFTP_HEADER_LENGTH)
               in if \<not> lastpkt then send_data alloc ctx (st\<lparr>ts_blknum := ts_blknum st + 1\<rparr>)
                  else Some (close_handle ctx st))"

definition tftp_recv ::
  "('f \<Rightarrow> bool \<times> 'f) \<Rightarrow> memfind_fn \<Rightarrow> ('hd, 'f) tftp_context \<Rightarrow> pbuf \<Rightarrow> u32 \<Rightarrow> u16 \<Rightarrow>
     ('hd, 'f) tftp_state \<Rightarrow> ('hd, 'f) tftp_state option" where
  "tftp_recv alloc memfind ctx p addr port st =
     (if (ts_port st \<noteq> 0 \<and> port \<noteq> ts_port st) \<or> (ts_addr st \<noteq> 0 \<and> ts_addr st \<noteq> addr)
      then Some (send_error alloc addr port TFTP_ERROR_ACCESS_VIOLATION
                   ''Only one connection at a time is supported'' st)
      else case sbuf p 0 of
        None \<Rightarrow> None
      | Some opcode \<Rightarrow>
          let st1 = st\<lparr>ts_last_pkt := ts_timer st, ts_retries := 0\<rparr> in
          if opcode = htons TFTP_RRQ \<or> opcode = htons TFTP_WRQ
          then tftp_request alloc memfind ctx p addr port (opcode = htons TFTP_WRQ) st1
          else if opcode = htons TFTP_DATA then tftp_data alloc ctx p addr port st1
          else if opcode = htons TFTP_ACK then tftp_ack alloc ctx p addr port st1
          else Some (send_error alloc addr port TFTP_ERROR_ILLEGAL_OPERATION ''Unknown operation'' st1))"

text \<open>The timer callback; its own entry is no longer pending when it runs.\<close>

definition tftp_tmr ::
  "('f \<Rightarrow> bool \<times> 'f) \<Rightarrow> ('hd, 'f) tftp_context \<Rightarrow> ('hd, 'f) tftp_state \<Rightarrow> ('hd, 'f) tftp_state option" where
  "tftp_tmr alloc ctx st =
     (let st1 = st\<lparr>ts_timer := ts_timer st + 1, ts_timers := ts_timers st - 1\<rparr> in
      if ts_handle st1 = None then Some st1
      else let st2 = st1\<lparr>ts_timers := ts_timers st1 + 1\<rparr> in
           if TFTP_TIMEOUT_TICKS < ts_timer st2 - ts_last_pkt st2
           then if ts_last_data st2 \<noteq> None \<and> ts_retries st2 < TFTP_MAX_RETRIES
                then map_option (\<lambda>st3. st3\<lparr>ts_retries := ts_retries st3 + 1\<rparr>) (resend_data alloc st2)
                else Some (close_handle ctx st2)
           else Some st2)"

datatype tftp_init_ret = ERR_MEM | Bind_error int | ERR_OK

text \<open>\<open>tftp_init\<close>, for the results of \<open>udp_new\<close> and \<open>udp_bind\<close>; the fields it does not set keep the value they had.\<close>

definition tftp_init ::
  "bool \<Rightarrow> int \<Rightarrow> ('hd, 'f) tftp_state \<Rightarrow> tftp_init_ret \<times> ('hd, 'f) tftp_state" where
  "tftp_init pcb_ok bind_ret st =
     (if \<not> pcb_ok then (ERR_MEM, st)
      else if bind_ret \<noteq> 0 then (Bind_error bind_ret, st)
      else (ERR_OK, st\<lparr>ts_handle := None, ts_port := 0, ts_timer := 0, ts_last_data := None\<rparr>))"

definition tftp_cleanup :: "('hd, 'f) tftp_context \<Rightarrow> ('hd, 'f) tftp_state \<Rightarrow> ('hd, 'f) tftp_state" where
  "tftp_cleanup ctx st =
     (let st1 = close_handle ctx st
      in st1\<lparr>ts_handle := None, ts_last_data := None, ts_addr := 0, ts_port := 0, ts_timer := 0,
            ts_last_pkt := 0, ts_blknum := 0, ts_retries := 0, ts_mode_write := 0\<rparr>)"

section \<open>Invariant\<close>

text \<open>
  What holds between any two events. Without an open file the server is free for any peer and holds
  no packet; with one, the timer that will end the transfer is pending.
\<close>

definition tftp_inv :: "('hd, 'f) tftp_state \<Rightarrow> bool" where
  "tftp_inv st \<longleftrightarrow>
     (ts_handle st = None \<longrightarrow> ts_port st = 0 \<and> ts_addr st = 0 \<and> ts_last_data st = None)
     \<and> (ts_handle st \<noteq> None \<longrightarrow> 1 \<le> ts_timers st)
     \<and> ts_retries st \<le> TFTP_MAX_RETRIES \<and> ts_mode_write st \<le> 1
     \<and> (\<forall>d. ts_last_data st = Some d \<longrightarrow> 4 \<le> length d \<and> length d \<le> 516)"

text \<open>What the server relies on from \<open>read\<close>: no more bytes than asked for, and as many as it says.\<close>

definition read_contract :: "('hd, 'f) tftp_context \<Rightarrow> bool" where
  "read_contract ctx \<longleftrightarrow>
     (\<forall>h n w. case ctx_read ctx h n w of (ret, d, w') \<Rightarrow> ret \<le> int n \<and> (0 \<le> ret \<longrightarrow> length d = nat ret))"

text \<open>\<open>pbuf_memfind\<close> returns the first position of the byte from the start on, or \<open>0xFFFF\<close>.\<close>

definition memfind_contract :: "memfind_fn \<Rightarrow> bool" where
  "memfind_contract memfind \<longleftrightarrow>
     (\<forall>bs b start. memfind bs b start = 0xFFFF
        \<or> start \<le> unat (memfind bs b start) \<and> unat (memfind bs b start) < length bs
          \<and> bs ! unat (memfind bs b start) = b)"

lemma udp_reply_simps [simp]:
  "ts_handle (udp_reply alloc a q d st) = ts_handle st"
  "ts_last_data (udp_reply alloc a q d st) = ts_last_data st"
  "ts_addr (udp_reply alloc a q d st) = ts_addr st"
  "ts_port (udp_reply alloc a q d st) = ts_port st"
  "ts_timer (udp_reply alloc a q d st) = ts_timer st"
  "ts_last_pkt (udp_reply alloc a q d st) = ts_last_pkt st"
  "ts_blknum (udp_reply alloc a q d st) = ts_blknum st"
  "ts_retries (udp_reply alloc a q d st) = ts_retries st"
  "ts_mode_write (udp_reply alloc a q d st) = ts_mode_write st"
  "ts_timers (udp_reply alloc a q d st) = ts_timers st"
  by (simp_all add: udp_reply_def split: prod.split)

lemma close_handle_simps [simp]:
  "ts_handle (close_handle ctx st) = None"
  "ts_last_data (close_handle ctx st) = None"
  "ts_addr (close_handle ctx st) = 0"
  "ts_port (close_handle ctx st) = 0"
  "ts_timer (close_handle ctx st) = ts_timer st"
  "ts_last_pkt (close_handle ctx st) = ts_last_pkt st"
  "ts_blknum (close_handle ctx st) = ts_blknum st"
  "ts_retries (close_handle ctx st) = ts_retries st"
  "ts_mode_write (close_handle ctx st) = ts_mode_write st"
  "ts_timers (close_handle ctx st) = ts_timers st - 1"
  "ts_out (close_handle ctx st) = ts_out st"
  by (simp_all add: close_handle_def Let_def split: option.split)

lemmas reply_defs = send_error_def send_ack_def

lemma tftp_inv_reply [simp]: "tftp_inv (udp_reply alloc a q d st) \<longleftrightarrow> tftp_inv st"
  by (simp add: tftp_inv_def)

lemma tftp_inv_send_error [simp]: "tftp_inv (send_error alloc a q c s st) \<longleftrightarrow> tftp_inv st"
  by (simp add: send_error_def)

lemma tftp_inv_close: "tftp_inv st \<Longrightarrow> tftp_inv (close_handle ctx st)"
  by (simp add: tftp_inv_def)

lemma tftp_inv_send_data:
  assumes "read_contract ctx" "tftp_inv st" "ts_handle st = Some h"
  shows "\<exists>st'. send_data alloc ctx st = Some st' \<and> tftp_inv st'"
proof -
  obtain ok w where a: "alloc (ts_world st) = (ok, w)" by fastforce
  obtain ret d w' where r: "ctx_read ctx h 512 w = (ret, d, w')" by (cases "ctx_read ctx h 512 w")
  then have "ret \<le> 512" "0 \<le> ret \<Longrightarrow> length d = nat ret"
    using assms(1) by (auto simp: read_contract_def dest!: spec [of _ h] spec [of _ 512] spec [of _ w])
  then show ?thesis
    using assms(2,3) a r
    by (auto simp: send_data_def resend_data_def Let_def tftp_inv_def send_error_def)
qed

lemma memfind_contractD:
  assumes "memfind_contract memfind" "unat (memfind bs b start - c) \<le> 21" "unat c \<le> start" "unat c < 0x8000"
  shows "start \<le> unat (memfind bs b start)" "unat (memfind bs b start) < length bs"
    "bs ! unat (memfind bs b start) = b"
proof -
  have "memfind bs b start \<noteq> 0xFFFF"
  proof
    assume "memfind bs b start = 0xFFFF"
    then have "unat (memfind bs b start - c) = 0xFFFF - unat c"
      using assms(4) by (simp add: unat_sub word_le_nat_alt)
    with assms(2,4) show False by simp
  qed
  with assms(1) show "start \<le> unat (memfind bs b start)" "unat (memfind bs b start) < length bs"
    "bs ! unat (memfind bs b start) = b"
    by (auto simp: memfind_contract_def dest!: spec [of _ bs] spec [of _ b] spec [of _ start])
qed

text \<open>A string that ends at a zero byte of the packet is copied without leaving its buffer.\<close>

lemma copy_cstring_Some:
  assumes "off \<le> e" "e < length bs" "bs ! e = 0" "Suc e - off \<le> bufsize"
  shows "\<exists>s. copy_cstring bs (Suc e - off) off bufsize = Some s"
proof -
  have "take (Suc e - off) (drop off bs) ! (e - off) = 0" "e - off < length (take (Suc e - off) (drop off bs))"
    using assms by auto
  then have "0 \<in> set (take (Suc e - off) (drop off bs))"
    by (metis nth_mem)
  with assms(4) show ?thesis by (simp add: copy_cstring_def Let_def)
qed

lemma tftp_inv_request:
  assumes "read_contract ctx" "memfind_contract memfind" "tftp_inv st"
  shows "\<exists>st'. tftp_request alloc memfind ctx p addr port wr st = Some st' \<and> tftp_inv st'"
proof (cases "ts_handle st = None")
  case False
  then show ?thesis using assms(3) by (simp add: tftp_request_def)
next
  case True
  define bs where "bs = concat p"
  define fe where "fe = memfind bs 0 2"
  define me where "me = memfind bs 0 (Suc (unat fe))"
  let ?st1 = "st\<lparr>ts_timers := ts_timers st + 1\<rparr>"
  have inv1: "tftp_inv ?st1" using assms(3) True by (simp add: tftp_inv_def)
  note unfold = tftp_request_def Let_def True bs_def [symmetric] fe_def [symmetric] me_def [symmetric]
  show ?thesis
  proof (cases "21 < unat (fe - 1)")
    case True
    with inv1 show ?thesis by (simp add: unfold)
  next
    case short: False
    note f = memfind_contractD [OF assms(2), of bs 0 2 1, folded fe_def]
    have fe: "2 \<le> unat fe" "unat fe < length bs" "bs ! unat fe = 0" "unat (fe - 1) = Suc (unat fe) - 2" "unat fe \<le> 22"
      using f short by (auto simp: unat_sub word_le_nat_alt)
    obtain filename where fn: "copy_cstring bs (unat (fe - 1)) 2 21 = Some filename"
      using copy_cstring_Some [of 2 "unat fe" bs 21] fe short by auto
    show ?thesis
    proof (cases "8 < unat (me - fe)")
      case True
      with inv1 short fn show ?thesis by (simp add: unfold)
    next
      case mshort: False
      note m = memfind_contractD [OF assms(2), of bs 0 "Suc (unat fe)" fe, folded me_def]
      have me: "Suc (unat fe) \<le> unat me" "unat me < length bs" "bs ! unat me = 0"
        using m mshort fe(5) by auto
      then have "unat (me - fe) = Suc (unat me) - Suc (unat fe)"
        by (simp add: unat_sub word_le_nat_alt)
      then obtain mode where md: "copy_cstring bs (unat (me - fe)) (Suc (unat fe)) 8 = Some mode"
        using copy_cstring_Some [of "Suc (unat fe)" "unat me" bs 8] me mshort by auto
      obtain h w where op: "ctx_open ctx filename mode wr (ts_world st) = (h, w)" by fastforce
      show ?thesis
      proof (cases h)
        case None
        with inv1 True have "tftp_inv (?st1\<lparr>ts_handle := h, ts_blknum := 1, ts_world := w\<rparr>)"
          by (simp add: tftp_inv_def)
        with None short fn mshort md op show ?thesis by (simp add: unfold)
      next
        case (Some h')
        let ?st3 = "?st1\<lparr>ts_handle := Some h', ts_blknum := 1, ts_world := w, ts_addr := addr, ts_port := port\<rparr>"
        have "tftp_inv (?st3\<lparr>ts_mode_write := v\<rparr>)" if "v \<le> 1" for v
          using inv1 True that by (simp add: tftp_inv_def)
        then have "tftp_inv (?st3\<lparr>ts_mode_write := 1\<rparr>)" "tftp_inv (?st3\<lparr>ts_mode_write := 0\<rparr>)" by simp_all
        with Some short fn mshort md op tftp_inv_send_data [OF assms(1), of "?st3\<lparr>ts_mode_write := 0\<rparr>" h' alloc]
        show ?thesis by (simp add: unfold send_ack_def)
      qed
    qed
  qed
qed

lemma sbuf_Some: "4 \<le> length (hd p) \<Longrightarrow> p \<noteq> [] \<Longrightarrow> i < 2 \<Longrightarrow> sbuf p i = Some (get16 (drop (2 * i) (hd p)))"
  by (cases p) (auto simp: sbuf_def)

lemma tftp_inv_blknum [simp]: "tftp_inv (st\<lparr>ts_blknum := b\<rparr>) \<longleftrightarrow> tftp_inv st"
  by (simp add: tftp_inv_def)

lemma tftp_inv_world [simp]: "tftp_inv (st\<lparr>ts_world := w\<rparr>) \<longleftrightarrow> tftp_inv st"
  by (simp add: tftp_inv_def)

lemma tftp_inv_data:
  assumes "tftp_inv st" "tftp_data alloc ctx p addr port st = Some st'"
  shows "tftp_inv st'"
  using assms
  by (auto simp: tftp_data_def send_ack_def tftp_inv_close Let_def split: option.splits prod.splits if_splits)

lemma tftp_inv_ack:
  assumes "read_contract ctx" "tftp_inv st" "tftp_ack alloc ctx p addr port st = Some st'"
  shows "tftp_inv st'"
proof (cases "ts_handle st")
  case None
  with assms(2,3) show ?thesis by (auto simp: tftp_ack_def)
next
  case (Some h)
  have "tftp_inv st''" if "send_data alloc ctx (st\<lparr>ts_blknum := b\<rparr>) = Some st''" for b st''
    using tftp_inv_send_data [OF assms(1), of "st\<lparr>ts_blknum := b\<rparr>" h alloc] assms(2) Some that by auto
  with assms(2,3) Some show ?thesis
    by (auto simp: tftp_ack_def Let_def tftp_inv_close split: option.splits if_splits)
qed

text \<open>The ways a datagram is handled.\<close>

lemma tftp_recv_cases:
  assumes "tftp_recv alloc memfind ctx p addr port st = Some st'"
  obtains (busy) "st' = send_error alloc addr port TFTP_ERROR_ACCESS_VIOLATION
                    ''Only one connection at a time is supported'' st"
    | (request) wr where
      "tftp_request alloc memfind ctx p addr port wr (st\<lparr>ts_last_pkt := ts_timer st, ts_retries := 0\<rparr>) = Some st'"
    | (data) "tftp_data alloc ctx p addr port (st\<lparr>ts_last_pkt := ts_timer st, ts_retries := 0\<rparr>) = Some st'"
    | (ack) "tftp_ack alloc ctx p addr port (st\<lparr>ts_last_pkt := ts_timer st, ts_retries := 0\<rparr>) = Some st'"
    | (unknown) "st' = send_error alloc addr port TFTP_ERROR_ILLEGAL_OPERATION ''Unknown operation''
                    (st\<lparr>ts_last_pkt := ts_timer st, ts_retries := 0\<rparr>)"
proof (cases "(ts_port st \<noteq> 0 \<and> port \<noteq> ts_port st) \<or> (ts_addr st \<noteq> 0 \<and> ts_addr st \<noteq> addr)")
  case True
  with assms busy show thesis by (simp add: tftp_recv_def)
next
  case False
  then obtain opcode where op: "sbuf p 0 = Some opcode"
    using assms by (cases "sbuf p 0") (auto simp: tftp_recv_def)
  have eq: "Some st' =
      (let st1 = st\<lparr>ts_last_pkt := ts_timer st, ts_retries := 0\<rparr> in
       if opcode = htons TFTP_RRQ \<or> opcode = htons TFTP_WRQ
       then tftp_request alloc memfind ctx p addr port (opcode = htons TFTP_WRQ) st1
       else if opcode = htons TFTP_DATA then tftp_data alloc ctx p addr port st1
       else if opcode = htons TFTP_ACK then tftp_ack alloc ctx p addr port st1
       else Some (send_error alloc addr port TFTP_ERROR_ILLEGAL_OPERATION ''Unknown operation'' st1))"
    using assms unfolding tftp_recv_def if_not_P [OF False] op option.case by (rule sym)
  show thesis
  proof (cases "opcode = htons TFTP_RRQ \<or> opcode = htons TFTP_WRQ")
    case True
    with eq show thesis by (intro request) (simp add: Let_def)
  next
    case no_request: False
    show thesis
    proof (cases "opcode = htons TFTP_DATA")
      case True
      with eq no_request show thesis by (intro data) (simp add: Let_def)
    next
      case no_data: False
      show thesis
      proof (cases "opcode = htons TFTP_ACK")
        case True
        with eq no_request no_data show thesis by (intro ack) (simp add: Let_def)
      next
        case False
        with eq no_request no_data show thesis by (intro unknown) (simp add: Let_def)
      qed
    qed
  qed
qed

lemma tftp_inv_recv:
  assumes "read_contract ctx" "memfind_contract memfind" "tftp_inv st"
    and "tftp_recv alloc memfind ctx p addr port st = Some st'"
  shows "tftp_inv st'"
proof -
  let ?st1 = "st\<lparr>ts_last_pkt := ts_timer st, ts_retries := 0\<rparr>"
  have inv1: "tftp_inv ?st1" using assms(3) by (simp add: tftp_inv_def)
  from assms(4) show ?thesis
  proof (cases rule: tftp_recv_cases)
    case (request wr)
    with tftp_inv_request [OF assms(1,2) inv1, of alloc p addr port wr] show ?thesis by simp
  next
    case data
    show ?thesis by (rule tftp_inv_data [OF inv1 data])
  next
    case ack
    show ?thesis by (rule tftp_inv_ack [OF assms(1) inv1 ack])
  qed (use assms(3) inv1 in simp_all)
qed

lemma tftp_inv_tmr:
  assumes "tftp_inv st"
  shows "\<exists>st'. tftp_tmr alloc ctx st = Some st' \<and> tftp_inv st'"
proof -
  have retry: "r + 1 \<le> 5" if "r < 5" for r :: u8
    using that unat_plus_1_below [of r 5] by (simp add: word_less_nat_alt word_le_nat_alt)
  show ?thesis
    using assms retry [of "ts_retries st"]
    by (auto simp: tftp_tmr_def tftp_inv_def Let_def resend_data_def split: option.splits)
qed

lemma tftp_recv_defined:
  assumes "read_contract ctx" "memfind_contract memfind" "tftp_inv st" "p \<noteq> []" "4 \<le> length (hd p)"
  shows "\<exists>st'. tftp_recv alloc memfind ctx p addr port st = Some st'"
proof -
  let ?st1 = "st\<lparr>ts_last_pkt := ts_timer st, ts_retries := 0\<rparr>"
  have inv1: "tftp_inv ?st1" using assms(3) by (simp add: tftp_inv_def)
  have "\<exists>st'. tftp_ack alloc ctx p addr port ?st1 = Some st'"
  proof (cases "ts_handle st")
    case (Some h)
    have "\<exists>st'. send_data alloc ctx (?st1\<lparr>ts_blknum := b\<rparr>) = Some st'" for b
      using tftp_inv_send_data [OF assms(1), of "?st1\<lparr>ts_blknum := b\<rparr>" h alloc] inv1 Some by auto
    with Some sbuf_Some [OF assms(5,4), of 1] show ?thesis
      by (auto simp: tftp_ack_def Let_def)
  qed (simp add: tftp_ack_def)
  moreover have "\<exists>st'. tftp_data alloc ctx p addr port ?st1 = Some st'"
    using sbuf_Some [OF assms(5,4), of 1]
    by (auto simp: tftp_data_def Let_def split: option.split prod.split)
  moreover have "\<exists>st'. tftp_request alloc memfind ctx p addr port wr ?st1 = Some st'" for wr
    using tftp_inv_request [OF assms(1,2) inv1] by blast
  ultimately show ?thesis
    using sbuf_Some [OF assms(5,4), of 0] by (auto simp: tftp_recv_def Let_def)
qed

section \<open>Runs of the server\<close>

text \<open>Events in any order, each with its own peer and datagram.\<close>

inductive tftp_step ::
  "('f \<Rightarrow> bool \<times> 'f) \<Rightarrow> memfind_fn \<Rightarrow> ('hd, 'f) tftp_context \<Rightarrow>
     ('hd, 'f) tftp_state \<Rightarrow> ('hd, 'f) tftp_state \<Rightarrow> bool"
  for alloc memfind ctx where
  step_recv: "tftp_recv alloc memfind ctx p addr port st = Some st' \<Longrightarrow> tftp_step alloc memfind ctx st st'"
| step_tmr: "tftp_tmr alloc ctx st = Some st' \<Longrightarrow> tftp_step alloc memfind ctx st st'"
| step_cleanup: "tftp_step alloc memfind ctx st (tftp_cleanup ctx st)"

definition tftp_zero :: "'f \<Rightarrow> ('hd, 'f) tftp_state" where
  "tftp_zero w = \<lparr>ts_handle = None, ts_last_data = None, ts_addr = 0, ts_port = 0, ts_timer = 0,
     ts_last_pkt = 0, ts_blknum = 0, ts_retries = 0, ts_mode_write = 0, ts_timers = 0, ts_out = [], ts_world = w\<rparr>"

lemma tftp_inv_reachable:
  assumes "(tftp_step alloc memfind ctx)\<^sup>*\<^sup>* st0 st" "tftp_inv st0" "read_contract ctx" "memfind_contract memfind"
  shows "tftp_inv st"
  using assms(1)
proof (induction rule: rtranclp_induct)
  case (step st1 st2)
  from step(2,3) show ?case
  proof cases
    case (step_recv p addr port)
    with tftp_inv_recv [OF assms(3,4)] step.IH show ?thesis by blast
  next
    case step_tmr
    with tftp_inv_tmr [OF step.IH, of alloc ctx] show ?thesis by simp
  next
    case step_cleanup
    with step.IH show ?thesis by (simp add: tftp_cleanup_def tftp_inv_def Let_def)
  qed
qed (use assms(2) in simp)

text \<open>
  C16. In every state the TFTP server can reach, from start-up and through any sequence of datagrams
  (from any peers, with failing allocations and file errors) and timer calls: the state is well
  formed, and the next datagram of at least four bytes and the next timer call are handled
  without leaving a buffer, so the name and mode of a request never overrun their local arrays.
\<close>

theorem tftp_reachable_safe:
  assumes "(tftp_step alloc memfind ctx)\<^sup>*\<^sup>* (snd (tftp_init True 0 (tftp_zero w))) st"
    and "read_contract ctx" "memfind_contract memfind"
  shows "tftp_inv st
     \<and> (\<forall>p addr port. p \<noteq> [] \<longrightarrow> 4 \<le> length (hd p) \<longrightarrow> tftp_recv alloc memfind ctx p addr port st \<noteq> None)
     \<and> tftp_tmr alloc ctx st \<noteq> None"
proof -
  have "tftp_inv (snd (tftp_init True 0 (tftp_zero w)))"
    by (simp add: tftp_init_def tftp_zero_def tftp_inv_def)
  then have "tftp_inv st"
    using tftp_inv_reachable assms by blast
  with tftp_recv_defined [OF assms(2,3)] tftp_inv_tmr show ?thesis by fastforce
qed

text \<open>
  Files for evaluation: one file, written at its end and read from its start, and a search as
  \<open>pbuf_memfind\<close> is documented.
\<close>

definition demo_ctx :: "(unit, bytes) tftp_context" where
  "demo_ctx = \<lparr>ctx_open = (\<lambda>fname mode wr w. (Some (), w)), ctx_close = (\<lambda>h w. w),
     ctx_read = (\<lambda>h n w. (int (length (take n w)), take n w, drop n w)),
     ctx_write = (\<lambda>h p w. (0, w @ concat p))\<rparr>"

definition demo_memfind :: memfind_fn where
  "demo_memfind bs b start =
     (let e = start + length (takeWhile (\<lambda>x. x \<noteq> b) (drop start bs))
      in if e < length bs \<and> e < 0xFFFF then of_nat e else 0xFFFF)"

lemma demo_ctx_contract: "read_contract demo_ctx"
  by (simp add: read_contract_def demo_ctx_def)

lemma demo_memfind_contract: "memfind_contract demo_memfind"
  unfolding memfind_contract_def
proof (intro allI)
  fix bs :: bytes and b :: u8 and start :: nat
  define e where "e = start + length (takeWhile (\<lambda>x. x \<noteq> b) (drop start bs))"
  have "bs ! e = b" if "e < length bs"
    using nth_length_takeWhile [of "\<lambda>x. x \<noteq> b" "drop start bs"] that by (simp add: e_def)
  moreover have "unat (of_nat e :: u16) = e" if "e < 0xFFFF"
    using that by (simp add: unat_of_nat take_bit_nat_eq_self)
  moreover have "start \<le> e" by (simp add: e_def)
  moreover have "demo_memfind bs b start = (if e < length bs \<and> e < 0xFFFF then of_nat e else 0xFFFF)"
    by (simp add: demo_memfind_def Let_def flip: e_def)
  ultimately show "demo_memfind bs b start = 0xFFFF
        \<or> start \<le> unat (demo_memfind bs b start) \<and> unat (demo_memfind bs b start) < length bs
          \<and> bs ! unat (demo_memfind bs b start) = b"
    by auto
qed

definition demo_alloc :: "bytes \<Rightarrow> bool \<times> bytes" where
  "demo_alloc w = (True, w)"

theorem tftp_reachable_safe_witness:
  "tftp_tmr demo_alloc demo_ctx (tftp_zero []) \<noteq> None
   \<and> tftp_recv demo_alloc demo_memfind demo_ctx [[0, 1, 0x41, 0, 0x6F, 0]] 1 2 (tftp_zero []) \<noteq> None"
proof -
  have "snd (tftp_init True 0 (tftp_zero [])) = (tftp_zero [] :: (unit, bytes) tftp_state)"
    by (simp add: tftp_init_def tftp_zero_def)
  then have "(tftp_step demo_alloc demo_memfind demo_ctx)\<^sup>*\<^sup>* (snd (tftp_init True 0 (tftp_zero []))) (tftp_zero [])"
    by simp
  from tftp_reachable_safe [OF this demo_ctx_contract demo_memfind_contract] show ?thesis by simp
qed

section \<open>One transfer at a time\<close>

text \<open>
  While a transfer is open, a datagram from any other address or port does not disturb it: its
  sender gets one error datagram, and no field of the transfer changes, not even its timeout.
\<close>

theorem tftp_other_peer_rejected:
  assumes "ts_port st \<noteq> 0 \<and> port \<noteq> ts_port st \<or> ts_addr st \<noteq> 0 \<and> addr \<noteq> ts_addr st"
  shows "tftp_recv alloc memfind ctx p addr port st =
           Some (st\<lparr>ts_world := snd (alloc (ts_world st)),
                   ts_out := ts_out st @
                     (if fst (alloc (ts_world st))
                      then [(addr, port, be16 5 @ be16 2 @ str ''Only one connection at a time is supported'' @ [0])]
                      else [])\<rparr>)"
  using assms
  by (auto simp: tftp_recv_def send_error_def udp_reply_def be16_def split: prod.split)

theorem tftp_other_peer_rejected_witness:
  "ts_handle (the (tftp_recv demo_alloc demo_memfind demo_ctx [[0, 2]] 7 70
     (tftp_zero []\<lparr>ts_handle := Some (), ts_addr := 9, ts_port := 69\<rparr>))) = Some ()"
  using tftp_other_peer_rejected [of "tftp_zero []\<lparr>ts_handle := Some (), ts_addr := 9, ts_port := 69\<rparr>" 70 7
      demo_alloc demo_memfind demo_ctx "[[0, 2]]"]
  by simp

text \<open>
  The length of a datagram is not checked: an empty or one-byte datagram from a peer that may
  talk to the server makes it read the opcode outside the payload.
\<close>

theorem tftp_short_datagram_undefined:
  assumes "tftp_inv st" "ts_handle st = None" "length d < 2"
  shows "tftp_recv alloc memfind ctx [d] addr port st = None"
  using assms by (simp add: tftp_recv_def tftp_inv_def sbuf_def)

theorem tftp_short_datagram_undefined_witness:
  "tftp_recv demo_alloc demo_memfind demo_ctx [[0]] 7 70 (tftp_zero []) = None"
proof -
  have "tftp_inv (tftp_zero [] :: (unit, bytes) tftp_state)" "ts_handle (tftp_zero [] :: (unit, bytes) tftp_state) = None"
    by (simp_all add: tftp_zero_def tftp_inv_def)
  from tftp_short_datagram_undefined [OF this, of "[0]" demo_alloc demo_memfind demo_ctx 7 70] show ?thesis by simp
qed

section \<open>Writing a file\<close>

fun tftp_run ::
  "('f \<Rightarrow> bool \<times> 'f) \<Rightarrow> memfind_fn \<Rightarrow> ('hd, 'f) tftp_context \<Rightarrow> u32 \<Rightarrow> u16 \<Rightarrow> pbuf list \<Rightarrow>
     ('hd, 'f) tftp_state \<Rightarrow> ('hd, 'f) tftp_state option" where
  "tftp_run alloc memfind ctx addr port [] st = Some st"
| "tftp_run alloc memfind ctx addr port (p # ps) st =
     (case tftp_recv alloc memfind ctx p addr port st of
        None \<Rightarrow> None
      | Some st' \<Rightarrow> tftp_run alloc memfind ctx addr port ps st')"

lemma tftp_run_append:
  "tftp_run alloc memfind ctx addr port (ps @ qs) st =
     (case tftp_run alloc memfind ctx addr port ps st of
        None \<Rightarrow> None
      | Some st' \<Rightarrow> tftp_run alloc memfind ctx addr port qs st')"
  by (induction ps arbitrary: st) (auto split: option.split)

definition data_pkt :: "u16 \<Rightarrow> bytes \<Rightarrow> pbuf" where
  "data_pkt b d = [be16 TFTP_DATA @ be16 b @ d]"

definition ack_pkt :: "u16 \<Rightarrow> pbuf" where
  "ack_pkt b = [be16 TFTP_ACK @ be16 b]"

lemma htons_inj [simp]: "htons x = htons y \<longleftrightarrow> x = y"
  by (metis htons_htons)

lemma sbuf_pkt [simp]:
  "sbuf (data_pkt b d) 0 = Some (htons 3)" "sbuf (data_pkt b d) (Suc 0) = Some (htons b)"
  "sbuf (ack_pkt b) 0 = Some (htons 4)" "sbuf (ack_pkt b) (Suc 0) = Some (htons b)"
  by (simp_all add: sbuf_def data_pkt_def ack_pkt_def be16_def)

text \<open>The blocks of a file, each sent once and then retransmitted some number of times.\<close>

fun write_pkts :: "u16 \<Rightarrow> (bytes \<times> nat) list \<Rightarrow> pbuf list" where
  "write_pkts b [] = []"
| "write_pkts b ((d, k) # ds) = replicate (Suc k) (data_pkt b d) @ write_pkts (b + 1) ds"

text \<open>
  What writing does to the world, as a relation: \<open>wrote w d w'\<close> says that \<open>d\<close> has been written. In a world
  that is \<open>ok\<close>, \<open>write\<close> writes its payloads or fails, while \<open>close\<close> and memory allocation write nothing. What
  \<open>wrote\<close> says after a failure is left to the relation: it then holds whatever else was to be written. With \<open>write_rel\<close>
  \<open>write\<close> does not fail.
\<close>

definition write_may_fail ::
  "('f \<Rightarrow> bool \<times> 'f) \<Rightarrow> ('hd, 'f) tftp_context \<Rightarrow> ('f \<Rightarrow> bool) \<Rightarrow> ('f \<Rightarrow> bytes \<Rightarrow> 'f \<Rightarrow> bool) \<Rightarrow> bool" where
  "write_may_fail alloc ctx ok wrote \<longleftrightarrow>
     (\<forall>h p w. ok w \<longrightarrow> 0 \<le> fst (ctx_write ctx h p w) \<longrightarrow> wrote w (concat p) (snd (ctx_write ctx h p w)))
     \<and> (\<forall>h p w d. ok w \<longrightarrow> fst (ctx_write ctx h p w) < 0 \<longrightarrow> wrote w (concat p @ d) (snd (ctx_write ctx h p w)))
     \<and> (\<forall>h w. ok w \<longrightarrow> wrote w [] (ctx_close ctx h w))
     \<and> (\<forall>w. ok w \<longrightarrow> wrote w [] (snd (alloc w)))
     \<and> (\<forall>w. ok w \<longrightarrow> wrote w [] w)
     \<and> (\<forall>w d w'. ok w \<longrightarrow> wrote w d w' \<longrightarrow> ok w')
     \<and> (\<forall>w d w' d' w''. ok w \<longrightarrow> wrote w d w' \<longrightarrow> wrote w' d' w'' \<longrightarrow> wrote w (d @ d') w'')"

lemma write_may_failD:
  assumes "write_may_fail alloc ctx ok wrote" "ok w"
  shows "0 \<le> fst (ctx_write ctx h p w) \<Longrightarrow> wrote w (concat p) (snd (ctx_write ctx h p w))"
    "fst (ctx_write ctx h p w) < 0 \<Longrightarrow> wrote w (concat p @ d) (snd (ctx_write ctx h p w))"
    "wrote w [] (ctx_close ctx h w)" "wrote w [] (snd (alloc w))" "wrote w [] w"
    "wrote w d w' \<Longrightarrow> ok w'" "wrote w d w' \<Longrightarrow> wrote w' d' w'' \<Longrightarrow> wrote w (d @ d') w''"
proof -
  have keep: "\<forall>w d w'. ok w \<longrightarrow> wrote w d w' \<longrightarrow> ok w'"
    using assms(1) unfolding write_may_fail_def by (elim conjE)
  have trans: "\<forall>w d w' d' w''. ok w \<longrightarrow> wrote w d w' \<longrightarrow> wrote w' d' w'' \<longrightarrow> wrote w (d @ d') w''"
    using assms(1) unfolding write_may_fail_def by (elim conjE)
  show "wrote w d w' \<Longrightarrow> ok w'" using keep assms(2) by blast
  show "wrote w d w' \<Longrightarrow> wrote w' d' w'' \<Longrightarrow> wrote w (d @ d') w''" using trans assms(2) by blast
qed (use assms in \<open>simp_all add: write_may_fail_def\<close>)

definition write_rel ::
  "('f \<Rightarrow> bool \<times> 'f) \<Rightarrow> ('hd, 'f) tftp_context \<Rightarrow> ('f \<Rightarrow> bool) \<Rightarrow> ('f \<Rightarrow> bytes \<Rightarrow> 'f \<Rightarrow> bool) \<Rightarrow> bool" where
  "write_rel alloc ctx ok wrote \<longleftrightarrow>
     write_may_fail alloc ctx ok wrote \<and> (\<forall>h p w. ok w \<longrightarrow> 0 \<le> fst (ctx_write ctx h p w))"

lemma write_rel_may_fail: "write_rel alloc ctx ok wrote \<Longrightarrow> write_may_fail alloc ctx ok wrote"
  by (simp add: write_rel_def)

text \<open>A step that writes nothing, behind others.\<close>

lemma wrote_trans0:
  assumes "write_may_fail alloc ctx ok wrote" "ok w" "wrote w d w'" "wrote w' [] w''"
  shows "wrote w d w''"
  using write_may_failD(7) [OF assms] by simp

lemma wrote_udp_reply:
  assumes "write_may_fail alloc ctx ok wrote" "ok (ts_world st)"
  shows "wrote (ts_world st) [] (ts_world (udp_reply alloc a q d st))"
  using write_may_failD(4) [OF assms] by (simp add: udp_reply_def split: prod.split) (metis snd_conv)

lemma wrote_close_handle:
  assumes "write_may_fail alloc ctx ok wrote" "ok (ts_world st)"
  shows "wrote (ts_world st) [] (ts_world (close_handle ctx st))"
  using write_may_failD(3,5) [OF assms] by (simp add: close_handle_def Let_def split: option.split)

text \<open>An open write transfer with a peer, waiting for block \<open>b\<close>; and no transfer at all.\<close>

definition writing :: "u32 \<Rightarrow> u16 \<Rightarrow> u16 \<Rightarrow> ('hd, 'f) tftp_state \<Rightarrow> bool" where
  "writing addr port b st \<longleftrightarrow> ts_handle st \<noteq> None \<and> ts_mode_write st = 1
     \<and> ts_addr st = addr \<and> ts_port st = port \<and> ts_blknum st = b"

definition idle :: "('hd, 'f) tftp_state \<Rightarrow> bool" where
  "idle st \<longleftrightarrow> ts_handle st = None \<and> ts_addr st = 0 \<and> ts_port st = 0"

lemma tftp_recv_block:
  assumes "write_may_fail alloc ctx ok wrote" "ok (ts_world st)" "writing addr port b st"
  shows "\<exists>st'. tftp_recv alloc memfind ctx (data_pkt b d) addr port st = Some st'
           \<and> wrote (ts_world st) d (ts_world st')
           \<and> ((if length d < 512 then idle st' else writing addr port (b + 1) st')
              \<or> idle st' \<and> (\<forall>e. wrote (ts_world st) (d @ e) (ts_world st')) \<and> (\<exists>h. fst (ctx_write ctx h [d] (ts_world st)) < 0))"
proof -
  obtain h where h: "ts_handle st = Some h" using assms(3) by (auto simp: writing_def)
  obtain ret w where wr: "ctx_write ctx h [d] (ts_world st) = (ret, w)" by fastforce
  let ?st0 = "st\<lparr>ts_last_pkt := ts_timer st, ts_retries := 0, ts_world := w\<rparr>"
  have strip: "drop 4 (hd (data_pkt b d)) # tl (data_pkt b d) = [d]"
    by (simp add: data_pkt_def)
  have closed: "wrote (ts_world st) e (ts_world (close_handle ctx st1))" if "wrote (ts_world st) e (ts_world st1)" for e st1
    using wrote_trans0 [OF assms(1,2) that] wrote_close_handle [OF assms(1)] write_may_failD(6) [OF assms(1,2) that] by blast
  have replied: "wrote (ts_world st) e (ts_world (udp_reply alloc x y z ?st0))" if "wrote (ts_world st) e w" for e x y z
    using wrote_trans0 [OF assms(1,2) that] wrote_udp_reply [OF assms(1), of ?st0] write_may_failD(6) [OF assms(1,2) that] by simp
  show ?thesis
  proof (cases "0 \<le> ret")
    case True
    let ?st1 = "send_ack alloc b ?st0"
    have "wrote (ts_world st) d w" using write_may_failD(1) [OF assms(1,2), of h "[d]"] wr True by simp
    then have st1: "wrote (ts_world st) d (ts_world ?st1)" unfolding send_ack_def by (rule replied)
    have recv: "tftp_recv alloc memfind ctx (data_pkt b d) addr port st =
        Some (if length d < 512 then close_handle ctx ?st1 else ?st1\<lparr>ts_blknum := b + 1\<rparr>)"
      using assms(3) h wr True strip by (auto simp: tftp_recv_def tftp_data_def Let_def writing_def send_ack_def)
    show ?thesis
    proof (cases "length d < 512")
      case True
      with recv closed [OF st1] show ?thesis by (auto simp: idle_def)
    next
      case False
      have "writing addr port (b + 1) (?st1\<lparr>ts_blknum := b + 1\<rparr>)"
        using assms(3) h by (simp add: writing_def send_ack_def)
      with False recv st1 show ?thesis by auto
    qed
  next
    case False
    let ?st1 = "close_handle ctx (send_error alloc addr port TFTP_ERROR_ACCESS_VIOLATION ''error writing file'' ?st0)"
    have "wrote (ts_world st) (d @ e) w" for e using write_may_failD(2) [OF assms(1,2), of h "[d]" e] wr False by simp
    then have st1: "wrote (ts_world st) (d @ e) (ts_world ?st1)" for e
      unfolding send_error_def by (intro closed replied)
    note st1_0 = st1 [of "[]", unfolded append_Nil2]
    have recv: "tftp_recv alloc memfind ctx (data_pkt b d) addr port st =
        Some (if length d < 512 then close_handle ctx ?st1 else ?st1\<lparr>ts_blknum := ts_blknum ?st1 + 1\<rparr>)"
      using assms(3) h wr False strip by (auto simp: tftp_recv_def tftp_data_def Let_def writing_def)
    have "fst (ctx_write ctx h [d] (ts_world st)) < 0" using wr False by simp
    then show ?thesis
    proof (cases "length d < 512")
      case True
      with recv closed [OF st1] closed [OF st1_0] \<open>fst _ < 0\<close> show ?thesis by (auto simp: idle_def)
    next
      case big: False
      have "idle (?st1\<lparr>ts_blknum := ts_blknum ?st1 + 1\<rparr>)" by (simp add: idle_def)
      with big recv st1 st1_0 \<open>fst _ < 0\<close> show ?thesis by auto
    qed
  qed
qed

lemma tftp_recv_block_ok:
  assumes "write_rel alloc ctx ok wrote" "ok (ts_world st)" "writing addr port b st"
  shows "\<exists>st'. tftp_recv alloc memfind ctx (data_pkt b d) addr port st = Some st'
           \<and> wrote (ts_world st) d (ts_world st')
           \<and> (if length d < 512 then idle st' else writing addr port (b + 1) st')"
proof -
  have "\<not> fst (ctx_write ctx h [d] (ts_world st)) < 0" for h
    using assms(1,2) by (simp add: write_rel_def not_less)
  then show ?thesis
    using tftp_recv_block [OF write_rel_may_fail [OF assms(1)] assms(2,3), of memfind d] by auto
qed

lemma tftp_recv_duplicate:
  assumes "write_may_fail alloc ctx ok wrote" "ok (ts_world st)" "writing addr port (b + 1) st \<or> idle st"
  shows "\<exists>st'. tftp_recv alloc memfind ctx (data_pkt b d) addr port st = Some st'
           \<and> wrote (ts_world st) [] (ts_world st')
           \<and> (writing addr port (b + 1) st \<longrightarrow> writing addr port (b + 1) st') \<and> (idle st \<longrightarrow> idle st')"
proof -
  have reply: "wrote (ts_world st) [] (ts_world (udp_reply alloc x y z (st\<lparr>ts_last_pkt := t, ts_retries := 0\<rparr>)))" for x y z t
    using wrote_udp_reply [OF assms(1), of "st\<lparr>ts_last_pkt := t, ts_retries := 0\<rparr>"] assms(2) by simp
  show ?thesis
  proof (cases "ts_handle st")
    case None
    with assms(3) reply show ?thesis
      by (auto simp: tftp_recv_def tftp_data_def writing_def idle_def send_error_def Let_def)
  next
    case (Some h)
    with assms(3) reply show ?thesis
      by (auto simp: tftp_recv_def tftp_data_def writing_def idle_def send_ack_def Let_def)
  qed
qed

lemma tftp_run_duplicates:
  assumes "write_may_fail alloc ctx ok wrote" "ok (ts_world st)" "writing addr port (b + 1) st \<or> idle st"
  shows "\<exists>st'. tftp_run alloc memfind ctx addr port (replicate k (data_pkt b d)) st = Some st'
           \<and> wrote (ts_world st) [] (ts_world st')
           \<and> (writing addr port (b + 1) st \<longrightarrow> writing addr port (b + 1) st') \<and> (idle st \<longrightarrow> idle st')"
  using assms(2,3)
proof (induction k arbitrary: st)
  case 0
  then show ?case using write_may_failD(5) [OF assms(1)] by auto
next
  case (Suc k)
  obtain st1 where 1: "tftp_recv alloc memfind ctx (data_pkt b d) addr port st = Some st1"
    "wrote (ts_world st) [] (ts_world st1)"
    "writing addr port (b + 1) st \<longrightarrow> writing addr port (b + 1) st1" "idle st \<longrightarrow> idle st1"
    using tftp_recv_duplicate [OF assms(1) Suc.prems] by blast
  have "ok (ts_world st1)" using write_may_failD(6) [OF assms(1) Suc.prems(1) 1(2)] .
  moreover have "writing addr port (b + 1) st1 \<or> idle st1" using Suc.prems(2) 1 by blast
  ultimately obtain st2 where 2: "tftp_run alloc memfind ctx addr port (replicate k (data_pkt b d)) st1 = Some st2"
    "wrote (ts_world st1) [] (ts_world st2)"
    "writing addr port (b + 1) st1 \<longrightarrow> writing addr port (b + 1) st2" "idle st1 \<longrightarrow> idle st2"
    using Suc.IH by blast
  with 1 wrote_trans0 [OF assms(1) Suc.prems(1) 1(2) 2(2)] show ?case by auto
qed

text \<open>Blocks that arrive when there is no transfer.\<close>

lemma tftp_run_no_transfer:
  assumes "write_may_fail alloc ctx ok wrote" "ok (ts_world st)" "idle st"
  shows "\<exists>st'. tftp_run alloc memfind ctx addr port (write_pkts b blocks) st = Some st'
           \<and> wrote (ts_world st) [] (ts_world st') \<and> idle st'"
  using assms(2,3)
proof (induction blocks arbitrary: b st)
  case Nil
  then show ?case using write_may_failD(5) [OF assms(1)] by auto
next
  case (Cons dk blocks)
  obtain d k where dk: "dk = (d, k)" by fastforce
  obtain st1 where 1: "tftp_run alloc memfind ctx addr port (replicate (Suc k) (data_pkt b d)) st = Some st1"
    "wrote (ts_world st) [] (ts_world st1)" "idle st1"
    using tftp_run_duplicates [OF assms(1), of st addr port b memfind "Suc k" d] Cons.prems by blast
  have "ok (ts_world st1)" using write_may_failD(6) [OF assms(1) Cons.prems(1) 1(2)] .
  from Cons.IH [OF this 1(3), of "b + 1"] obtain st2 where
    "tftp_run alloc memfind ctx addr port (write_pkts (b + 1) blocks) st1 = Some st2"
    "wrote (ts_world st1) [] (ts_world st2)" "idle st2"
    by blast
  with 1(1) dk wrote_trans0 [OF assms(1) Cons.prems(1) 1(2)] show ?case
    by (auto simp: tftp_run_append simp del: replicate_Suc)
qed

lemma tftp_run_blocks:
  assumes "write_may_fail alloc ctx ok wrote" "ok (ts_world st)" "writing addr port b st"
    and "list_all (\<lambda>(d, k). length d = 512) blocks" "length last_block < 512"
  shows "\<exists>st'. tftp_run alloc memfind ctx addr port (write_pkts b (blocks @ [(last_block, n)])) st = Some st'
           \<and> wrote (ts_world st) (concat (map fst blocks) @ last_block) (ts_world st') \<and> idle st'"
  using assms(2-4)
proof (induction blocks arbitrary: b st)
  case Nil
  obtain st1 where 1: "tftp_recv alloc memfind ctx (data_pkt b last_block) addr port st = Some st1"
    "wrote (ts_world st) last_block (ts_world st1)" "idle st1"
    using tftp_recv_block [OF assms(1) Nil.prems(1,2), of memfind last_block] assms(5) by auto
  have "ok (ts_world st1)" using write_may_failD(6) [OF assms(1) Nil.prems(1) 1(2)] .
  then obtain st2 where "tftp_run alloc memfind ctx addr port (replicate n (data_pkt b last_block)) st1 = Some st2"
    "wrote (ts_world st1) [] (ts_world st2)" "idle st2"
    using tftp_run_duplicates [OF assms(1), of st1 addr port b memfind n last_block] 1(3) by blast
  with 1 wrote_trans0 [OF assms(1) Nil.prems(1) 1(2)] show ?case by auto
next
  case (Cons dk blocks)
  obtain d k where dk: "dk = (d, k)" "length d = 512" using Cons.prems(3) by (cases dk) auto
  obtain st1 where 1: "tftp_recv alloc memfind ctx (data_pkt b d) addr port st = Some st1"
    "wrote (ts_world st) d (ts_world st1)"
    "writing addr port (b + 1) st1 \<or> idle st1 \<and> (\<forall>e. wrote (ts_world st) (d @ e) (ts_world st1))"
    using tftp_recv_block [OF assms(1) Cons.prems(1,2), of memfind d] dk(2) by auto
  have "ok (ts_world st1)" using write_may_failD(6) [OF assms(1) Cons.prems(1) 1(2)] .
  then obtain st2 where 2: "tftp_run alloc memfind ctx addr port (replicate k (data_pkt b d)) st1 = Some st2"
    "wrote (ts_world st1) [] (ts_world st2)"
    "writing addr port (b + 1) st1 \<longrightarrow> writing addr port (b + 1) st2" "idle st1 \<longrightarrow> idle st2" "ok (ts_world st2)"
    using tftp_run_duplicates [OF assms(1), of st1 addr port b memfind k d] 1(3) write_may_failD(6) [OF assms(1)] by blast
  have run: "tftp_run alloc memfind ctx addr port (write_pkts b ((dk # blocks) @ [(last_block, n)])) st =
      tftp_run alloc memfind ctx addr port (write_pkts (b + 1) (blocks @ [(last_block, n)])) st2"
    using 1(1) 2(1) dk by (simp add: tftp_run_append)
  have w2: "wrote (ts_world st) e (ts_world st2)" if "wrote (ts_world st) e (ts_world st1)" for e
    by (rule wrote_trans0 [OF assms(1) Cons.prems(1) that 2(2)])
  from 1(3) show ?case
  proof
    assume "writing addr port (b + 1) st1"
    then obtain st3 where "tftp_run alloc memfind ctx addr port (write_pkts (b + 1) (blocks @ [(last_block, n)])) st2 = Some st3"
      "wrote (ts_world st2) (concat (map fst blocks) @ last_block) (ts_world st3)" "idle st3"
      using Cons.IH [OF 2(5), of "b + 1"] 2(3) Cons.prems(3) by auto
    with run dk write_may_failD(7) [OF assms(1) Cons.prems(1) w2 [OF 1(2)]] show ?case by auto
  next
    assume failed: "idle st1 \<and> (\<forall>e. wrote (ts_world st) (d @ e) (ts_world st1))"
    then have lost: "wrote (ts_world st) (concat (map fst (dk # blocks)) @ last_block) (ts_world st2)"
      using w2 [of "d @ concat (map fst blocks) @ last_block"] dk by simp
    obtain st3 where "tftp_run alloc memfind ctx addr port (write_pkts (b + 1) (blocks @ [(last_block, n)])) st2 = Some st3"
      "wrote (ts_world st2) [] (ts_world st3)" "idle st3"
      using tftp_run_no_transfer [OF assms(1) 2(5)] 2(4) failed by blast
    with run wrote_trans0 [OF assms(1) Cons.prems(1) lost] show ?case by simp
  qed
qed

text \<open>
  Files that can be written: \<open>write\<close> succeeds and appends, and neither \<open>close\<close> nor memory
  allocation changes what is in the file.
\<close>

definition write_contract :: "('f \<Rightarrow> bool \<times> 'f) \<Rightarrow> ('hd, 'f) tftp_context \<Rightarrow> ('f \<Rightarrow> bytes) \<Rightarrow> bool" where
  "write_contract alloc ctx content \<longleftrightarrow>
     (\<forall>h p w. 0 \<le> fst (ctx_write ctx h p w) \<and> content (snd (ctx_write ctx h p w)) = content w @ concat p)
     \<and> (\<forall>h w. content (ctx_close ctx h w) = content w)
     \<and> (\<forall>w. content (snd (alloc w)) = content w)"

text \<open>
  Writing a file: from an accepted write request on, any number of full blocks followed by a short
  one, each retransmitted any number of times, ends with exactly the concatenation of the blocks
  appended to the file, each block once, and the transfer closed. There is no bound on the number
  of blocks: the 16-bit block numbers of both sides wrap together.
\<close>

theorem tftp_write_transfer:
  assumes "write_contract alloc ctx content" "writing addr port b st"
    and "list_all (\<lambda>(d, k). length d = 512) blocks" "length last_block < 512"
  shows "\<exists>st'. tftp_run alloc memfind ctx addr port (write_pkts b (blocks @ [(last_block, n)])) st = Some st'
           \<and> content (ts_world st') = content (ts_world st) @ concat (map fst blocks) @ last_block \<and> idle st'"
proof -
  have "write_rel alloc ctx (\<lambda>w. True) (\<lambda>w d w'. content w' = content w @ d)"
    using assms(1) by (simp add: write_rel_def write_may_fail_def write_contract_def leD)
  from tftp_run_blocks [OF write_rel_may_fail [OF this] TrueI assms(2-4)] show ?thesis by simp
qed

lemma demo_write_contract: "write_contract demo_alloc demo_ctx (\<lambda>w. w)"
  by (simp add: write_contract_def demo_ctx_def demo_alloc_def)

theorem tftp_write_transfer_witness:
  "\<exists>st'. tftp_run demo_alloc demo_memfind demo_ctx 9 69
       (write_pkts 0xFFFF ([(replicate 512 1, 2), (replicate 512 2, 0)] @ [([3], 1)]))
       (tftp_zero []\<lparr>ts_handle := Some (), ts_mode_write := 1, ts_addr := 9, ts_port := 69, ts_blknum := 0xFFFF\<rparr>) = Some st'
     \<and> ts_world st' = replicate 512 1 @ replicate 512 2 @ [3] \<and> idle st'"
proof -
  let ?st = "tftp_zero []\<lparr>ts_handle := Some (), ts_mode_write := 1, ts_addr := 9, ts_port := 69, ts_blknum := 0xFFFF\<rparr>"
  have w: "writing 9 69 0xFFFF ?st" "ts_world ?st = []" by (simp_all add: writing_def tftp_zero_def)
  have b: "list_all (\<lambda>(d, k). length d = 512) [(replicate 512 (1::u8), 2::nat), (replicate 512 2, 0)]"
    "length [3::u8] < 512"
    by (simp_all only: list.pred_inject prod.case length_replicate simp_thms) simp
  from tftp_write_transfer [OF demo_write_contract w(1) b, of demo_memfind 1]
  show ?thesis
    unfolding w(2) by (simp only: list.map concat.simps fst_conv append_Nil append_Nil2 append_assoc)
qed

section \<open>Reading a file\<close>

text \<open>The blocks of a file: full ones, and a last one that is shorter, possibly empty.\<close>

function chunks :: "bytes \<Rightarrow> bytes list" where
  "chunks f = (if length f < 512 then [f] else take 512 f # chunks (drop 512 f))"
  by pat_completeness auto
termination
  by (relation "measure length") auto

declare chunks.simps [simp del]

lemma concat_chunks: "concat (chunks f) = f"
  by (induction f rule: chunks.induct) (subst chunks.simps, simp)

lemma chunks_Cons:
  obtains cs where "chunks f = take 512 f # cs" "concat cs = drop 512 f"
proof (cases "length f < 512")
  case True
  then show thesis by (intro that [of "[]"]) (simp_all add: chunks.simps [of f])
next
  case False
  then show thesis
    by (intro that [of "chunks (drop 512 f)"]) (simp_all add: chunks.simps [of f] concat_chunks)
qed

text \<open>
  Files that can be read: in a world that is \<open>ok\<close>, \<open>read\<close> gives the next bytes, as many as asked for while
  there are any.
\<close>

definition readable_rel ::
  "('f \<Rightarrow> bool \<times> 'f) \<Rightarrow> ('hd, 'f) tftp_context \<Rightarrow> ('f \<Rightarrow> bool) \<Rightarrow> ('f \<Rightarrow> bytes) \<Rightarrow> bool" where
  "readable_rel alloc ctx ok rest \<longleftrightarrow>
     (\<forall>w. ok w \<longrightarrow> fst (alloc w) \<and> ok (snd (alloc w)) \<and> rest (snd (alloc w)) = rest w)
     \<and> (\<forall>h n w. ok w \<longrightarrow> (\<exists>w'. ctx_read ctx h n w = (int (length (take n (rest w))), take n (rest w), w')
          \<and> ok w' \<and> rest w' = drop n (rest w)))"

lemma readable_rel_alloc:
  "readable_rel alloc ctx ok rest \<Longrightarrow> ok w \<Longrightarrow> \<exists>w'. alloc w = (True, w') \<and> ok w' \<and> rest w' = rest w"
  unfolding readable_rel_def by (intro exI [of _ "snd (alloc w)"]) (simp add: prod_eq_iff)

lemma readable_rel_read:
  "readable_rel alloc ctx ok rest \<Longrightarrow> ok w \<Longrightarrow>
   \<exists>w'. ctx_read ctx h n w = (int (length (take n (rest w))), take n (rest w), w') \<and> ok w' \<and> rest w' = drop n (rest w)"
  unfolding readable_rel_def by blast

definition reading :: "u32 \<Rightarrow> u16 \<Rightarrow> u16 \<Rightarrow> ('hd, 'f) tftp_state \<Rightarrow> bool" where
  "reading addr port b st \<longleftrightarrow> ts_handle st \<noteq> None \<and> ts_mode_write st = 0
     \<and> ts_addr st = addr \<and> ts_port st = port \<and> ts_blknum st = b"

fun data_pkts :: "u32 \<Rightarrow> u16 \<Rightarrow> u16 \<Rightarrow> bytes list \<Rightarrow> (u32 \<times> u16 \<times> bytes) list" where
  "data_pkts addr port b [] = []"
| "data_pkts addr port b (c # cs) = (addr, port, concat (data_pkt b c)) # data_pkts addr port (b + 1) cs"

fun ack_pkts :: "u16 \<Rightarrow> nat \<Rightarrow> pbuf list" where
  "ack_pkts b 0 = []"
| "ack_pkts b (Suc n) = ack_pkt b # ack_pkts (b + 1) n"

lemma send_data_readable:
  assumes "readable_rel alloc ctx ok rest" "ok (ts_world st)" "reading addr port b st"
  shows "\<exists>st'. send_data alloc ctx st = Some st' \<and> reading addr port b st' \<and> ok (ts_world st')
           \<and> ts_out st' = ts_out st @ [(addr, port, concat (data_pkt b (take 512 (rest (ts_world st)))))]
           \<and> ts_last_data st' = Some (concat (data_pkt b (take 512 (rest (ts_world st)))))
           \<and> rest (ts_world st') = drop 512 (rest (ts_world st))"
proof -
  obtain h where h: "ts_handle st = Some h" using assms(3) by (auto simp: reading_def)
  obtain w1 where a1: "alloc (ts_world st) = (True, w1)" "ok w1" "rest w1 = rest (ts_world st)"
    using readable_rel_alloc [OF assms(1,2)] by blast
  obtain w2 where r: "ctx_read ctx h 512 w1 = (int (length (take 512 (rest w1))), take 512 (rest w1), w2)"
    "ok w2" "rest w2 = drop 512 (rest w1)"
    using readable_rel_read [OF assms(1) a1(2)] by blast
  obtain w3 where a3: "alloc w2 = (True, w3)" "ok w3" "rest w3 = rest w2"
    using readable_rel_alloc [OF assms(1) r(2)] by blast
  show ?thesis
    using assms(3) h a1 r a3
    by (auto simp: send_data_def resend_data_def udp_reply_def reading_def Let_def data_pkt_def be16_def min_def)
qed

lemma tftp_run_acks:
  assumes "readable_rel alloc ctx ok rest" "ok (ts_world st)" "reading addr port b st"
    and "ts_last_data st = Some (concat (data_pkt b c))" "chunks f = c # cs" "rest (ts_world st) = concat cs"
  shows "\<exists>st'. tftp_run alloc memfind ctx addr port (ack_pkts b (length (c # cs))) st = Some st'
           \<and> ts_out st' = ts_out st @ data_pkts addr port (b + 1) cs \<and> idle st'"
  using assms(2-6)
proof (induction f arbitrary: b c cs st rule: chunks.induct)
  case (1 f)
  let ?st1 = "st\<lparr>ts_last_pkt := ts_timer st, ts_retries := 0\<rparr>"
  have recv: "tftp_recv alloc memfind ctx (ack_pkt b) addr port st =
      (if length c = 512 then send_data alloc ctx (?st1\<lparr>ts_blknum := b + 1\<rparr>) else Some (close_handle ctx ?st1))"
    using "1.prems"(2,3) by (auto simp: tftp_recv_def tftp_ack_def reading_def Let_def data_pkt_def)
  show ?case
  proof (cases "length f < 512")
    case True
    then have "c = f" "cs = []" using "1.prems"(4) by (simp_all add: chunks.simps [of f])
    with True recv show ?thesis by (simp add: idle_def)
  next
    case False
    then have c: "c = take 512 f" "cs = chunks (drop 512 f)"
      using "1.prems"(4) by (simp_all add: chunks.simps [of f])
    then have len: "length c = 512" using False by simp
    have rest: "rest (ts_world st) = drop 512 f" using "1.prems"(5) c concat_chunks by simp
    have "reading addr port (b + 1) (?st1\<lparr>ts_blknum := b + 1\<rparr>)"
      using "1.prems"(2) by (simp add: reading_def)
    moreover have "ok (ts_world (?st1\<lparr>ts_blknum := b + 1\<rparr>))"
      using "1.prems"(1) by simp
    ultimately obtain st2 where
      2: "tftp_recv alloc memfind ctx (ack_pkt b) addr port st = Some st2" "reading addr port (b + 1) st2"
      "ts_out st2 = ts_out st @ [(addr, port, concat (data_pkt (b + 1) (take 512 (drop 512 f))))]"
      "ts_last_data st2 = Some (concat (data_pkt (b + 1) (take 512 (drop 512 f))))"
      "rest (ts_world st2) = drop 512 (drop 512 f)"
      "ok (ts_world st2)"
      using send_data_readable [OF assms(1)] recv len rest by fastforce
    obtain ds where ds: "chunks (drop 512 f) = take 512 (drop 512 f) # ds" "concat ds = drop 512 (drop 512 f)"
      by (rule chunks_Cons)
    from "1.IH" [OF False 2(6,2,4) ds(1)] 2(1,3,5) ds c(2) show ?thesis
      by auto
  qed
qed

lemma tftp_run_read:
  assumes "readable_rel alloc ctx ok rest" "ok (ts_world st)" "reading addr port b st"
  shows "\<exists>st1 st'. send_data alloc ctx st = Some st1
           \<and> tftp_run alloc memfind ctx addr port (ack_pkts b (length (chunks (rest (ts_world st))))) st1 = Some st'
           \<and> ts_out st' = ts_out st @ data_pkts addr port b (chunks (rest (ts_world st))) \<and> idle st'"
proof -
  let ?f = "rest (ts_world st)"
  obtain st1 where 1: "send_data alloc ctx st = Some st1" "reading addr port b st1"
    "ts_out st1 = ts_out st @ [(addr, port, concat (data_pkt b (take 512 ?f)))]"
    "ts_last_data st1 = Some (concat (data_pkt b (take 512 ?f)))" "rest (ts_world st1) = drop 512 ?f" "ok (ts_world st1)"
    using send_data_readable [OF assms] by blast
  obtain cs where cs: "chunks ?f = take 512 ?f # cs" "concat cs = drop 512 ?f"
    by (rule chunks_Cons)
  from tftp_run_acks [OF assms(1) 1(6,2,4) cs(1), of memfind] 1(1,3,5) cs
  show ?thesis by auto
qed

definition readable :: "('f \<Rightarrow> bool \<times> 'f) \<Rightarrow> ('hd, 'f) tftp_context \<Rightarrow> ('f \<Rightarrow> bytes) \<Rightarrow> bool" where
  "readable alloc ctx rest \<longleftrightarrow> readable_rel alloc ctx (\<lambda>w. True) rest"

text \<open>
  Reading a file: once a read transfer is open, its first data packet and the packets sent for
  the acknowledgements of the client, in order, carry exactly the blocks of the file, numbered
  upwards with wrap-around; after the acknowledgement of the last, short block the transfer is
  closed. The file is the concatenation of the blocks sent.
\<close>

theorem tftp_read_transfer:
  assumes "readable alloc ctx rest" "reading addr port b st"
  shows "\<exists>st1 st'. send_data alloc ctx st = Some st1
           \<and> tftp_run alloc memfind ctx addr port (ack_pkts b (length (chunks (rest (ts_world st))))) st1 = Some st'
           \<and> ts_out st' = ts_out st @ data_pkts addr port b (chunks (rest (ts_world st))) \<and> idle st'
           \<and> concat (chunks (rest (ts_world st))) = rest (ts_world st)"
  using tftp_run_read [OF assms(1) [unfolded readable_def] TrueI assms(2), of memfind] concat_chunks
  by auto

lemma demo_readable: "readable demo_alloc demo_ctx (\<lambda>w. w)"
  by (simp add: readable_def readable_rel_def demo_alloc_def demo_ctx_def)

theorem tftp_read_transfer_witness:
  "\<exists>st1 st'. send_data demo_alloc demo_ctx (tftp_zero [1, 2, 3]\<lparr>ts_handle := Some (), ts_addr := 9, ts_port := 69, ts_blknum := 1\<rparr>) = Some st1
     \<and> tftp_run demo_alloc demo_memfind demo_ctx 9 69 [ack_pkt 1] st1 = Some st'
     \<and> ts_out st' = [(9, 69, [0, 3, 0, 1, 1, 2, 3])] \<and> idle st'"
proof -
  let ?st = "tftp_zero [1, 2, 3]\<lparr>ts_handle := Some (), ts_addr := 9, ts_port := 69, ts_blknum := 1\<rparr>"
  have "reading 9 69 1 ?st" by (simp add: reading_def tftp_zero_def)
  from tftp_read_transfer [OF demo_readable this, of demo_memfind] show ?thesis
    by (simp add: tftp_zero_def chunks.simps data_pkt_def be16_bytes)
qed

section \<open>Timeouts\<close>

fun tftp_ticks ::
  "nat \<Rightarrow> ('f \<Rightarrow> bool \<times> 'f) \<Rightarrow> ('hd, 'f) tftp_context \<Rightarrow> ('hd, 'f) tftp_state \<Rightarrow> ('hd, 'f) tftp_state option" where
  "tftp_ticks 0 alloc ctx st = Some st"
| "tftp_ticks (Suc n) alloc ctx st =
     (case tftp_tmr alloc ctx st of None \<Rightarrow> None | Some st' \<Rightarrow> tftp_ticks n alloc ctx st')"

text \<open>The timer calls a transfer has left, and the retransmissions among them.\<close>

definition ticks_left :: "('hd, 'f) tftp_state \<Rightarrow> nat" where
  "ticks_left st =
     (if ts_handle st = None then 0
      else nat (10 - (ts_timer st - ts_last_pkt st)) + (5 - unat (ts_retries st)) + 1)"

lemma udp_reply_out: "length (ts_out (udp_reply alloc a q d st)) \<le> Suc (length (ts_out st))"
  by (simp add: udp_reply_def split: prod.split)

lemma tftp_tmr_progress:
  assumes "tftp_inv st"
  shows "\<exists>st'. tftp_tmr alloc ctx st = Some st' \<and> tftp_inv st' \<and> ticks_left st' \<le> ticks_left st - 1
           \<and> length (ts_out st') + (5 - unat (ts_retries st')) \<le> length (ts_out st) + (5 - unat (ts_retries st))"
proof -
  obtain st' where st': "tftp_tmr alloc ctx st = Some st'" "tftp_inv st'"
    using tftp_inv_tmr [OF assms] by blast
  have retry: "unat (r + 1) = Suc (unat r) \<and> unat r < 5" if "r < 5" for r :: u8
    using that unat_plus_1_below [of r 5] by (simp add: word_less_nat_alt)
  consider (none) "ts_handle st = None" "st' = st\<lparr>ts_timer := ts_timer st + 1, ts_timers := ts_timers st - 1\<rparr>"
    | (wait) "ts_handle st \<noteq> None" "ts_timer st + 1 - ts_last_pkt st \<le> 10"
        "st' = st\<lparr>ts_timer := ts_timer st + 1, ts_timers := ts_timers st - 1 + 1\<rparr>"
    | (resend) d where "ts_handle st \<noteq> None" "10 < ts_timer st + 1 - ts_last_pkt st" "ts_retries st < 5"
        "st' = (udp_reply alloc (ts_addr st) (ts_port st) d
           (st\<lparr>ts_timer := ts_timer st + 1, ts_timers := ts_timers st - 1 + 1\<rparr>))\<lparr>ts_retries := ts_retries st + 1\<rparr>"
    | (close) "ts_handle st' = None" "ts_out st' = ts_out st" "ts_retries st' = ts_retries st"
    using st'(1) by (auto simp: tftp_tmr_def resend_data_def Let_def split: if_splits option.splits)
  then have "ticks_left st' \<le> ticks_left st - 1
       \<and> length (ts_out st') + (5 - unat (ts_retries st')) \<le> length (ts_out st) + (5 - unat (ts_retries st))"
  proof cases
    case (resend d)
    let ?s = "st\<lparr>ts_timer := ts_timer st + 1, ts_timers := ts_timers st - 1 + 1\<rparr>"
    have "unat (ts_retries st') = Suc (unat (ts_retries st))" "unat (ts_retries st) < 5"
      using retry [OF resend(3)] resend(4) by simp_all
    moreover have "length (ts_out st') \<le> Suc (length (ts_out st))"
      using udp_reply_out [of alloc "ts_addr st" "ts_port st" d ?s] resend(4) by simp
    moreover have "ticks_left st' = 5 - unat (ts_retries st') + 1" "ticks_left st = 5 - unat (ts_retries st) + 1"
      using resend(1,2,4) by (simp_all add: ticks_left_def)
    ultimately show ?thesis by (intro conjI) linarith+
  qed (auto simp: ticks_left_def)
  with st' show ?thesis by blast
qed

lemma tftp_ticks_progress:
  assumes "tftp_inv st"
  shows "\<exists>st'. tftp_ticks n alloc ctx st = Some st' \<and> ticks_left st' \<le> ticks_left st - n
           \<and> length (ts_out st') + (5 - unat (ts_retries st')) \<le> length (ts_out st) + (5 - unat (ts_retries st))"
  using assms
proof (induction n arbitrary: st)
  case (Suc n)
  obtain st1 where 1: "tftp_tmr alloc ctx st = Some st1" "tftp_inv st1" "ticks_left st1 \<le> ticks_left st - 1"
    "length (ts_out st1) + (5 - unat (ts_retries st1)) \<le> length (ts_out st) + (5 - unat (ts_retries st))"
    using tftp_tmr_progress [OF Suc.prems] by blast
  from Suc.IH [OF 1(2)] obtain st' where "tftp_ticks n alloc ctx st1 = Some st'" "ticks_left st' \<le> ticks_left st1 - n"
    "length (ts_out st') + (5 - unat (ts_retries st')) \<le> length (ts_out st1) + (5 - unat (ts_retries st1))" by blast
  with 1 show ?case by (intro exI [of _ st']) simp
qed simp

text \<open>
  C25. A silent peer: with no datagrams, 16 calls of the timer end any transfer, after at most five
  retransmissions of the last data packet.
\<close>

theorem tftp_silent_peer:
  assumes "tftp_inv st" "ts_last_pkt st \<le> ts_timer st"
  shows "\<exists>st'. tftp_ticks 16 alloc ctx st = Some st' \<and> ts_handle st' = None
           \<and> length (ts_out st') \<le> length (ts_out st) + 5"
proof -
  have "nat (10 - (ts_timer st - ts_last_pkt st)) \<le> 10" "5 - unat (ts_retries st) \<le> 5"
    using assms(2) by auto
  then have "nat (10 - (ts_timer st - ts_last_pkt st)) + (5 - unat (ts_retries st)) + 1 \<le> 16" by linarith
  then have "ticks_left st \<le> 16" by (cases "ts_handle st = None") (simp_all only: ticks_left_def simp_thms if_True if_False le0)
  with tftp_ticks_progress [OF assms(1), of 16 alloc ctx] obtain st' where
    st': "tftp_ticks 16 alloc ctx st = Some st'" "ticks_left st' = 0"
    "length (ts_out st') + (5 - unat (ts_retries st')) \<le> length (ts_out st) + (5 - unat (ts_retries st))" by auto
  then have "ts_handle st' = None" by (auto simp: ticks_left_def split: if_splits)
  with st' show ?thesis by (intro exI [of _ st']) simp
qed

theorem tftp_silent_peer_witness:
  "\<exists>st'. tftp_ticks 16 demo_alloc demo_ctx (tftp_zero []\<lparr>ts_handle := Some (), ts_timers := 1,
       ts_last_data := Some [0, 3, 0, 1], ts_addr := 9, ts_port := 69\<rparr>) = Some st' \<and> ts_handle st' = None"
  using tftp_silent_peer [of "tftp_zero []\<lparr>ts_handle := Some (), ts_timers := 1,
       ts_last_data := Some [0, 3, 0, 1], ts_addr := 9, ts_port := 69\<rparr>" demo_alloc demo_ctx]
  by (auto simp: tftp_inv_def tftp_zero_def)

text \<open>
  The timer is armed before a request is checked: requests with an unterminated file name leave
  one pending timer each, and a transfer opened after them runs with all of these timers, each of
  which rearms itself, so its ten-second timeout counts that many times too fast.
\<close>

theorem tftp_bad_requests_pile_up_timers:
  assumes "idle st" "memfind (be16 1 @ d) 0 2 = 0xFFFF"
  shows "\<exists>st'. tftp_run alloc memfind ctx addr port (replicate n [be16 1 @ d]) st = Some st'
           \<and> idle st' \<and> ts_timers st' = ts_timers st + n"
  using assms(1)
proof (induction n arbitrary: st)
  case (Suc n)
  let ?st1 = "send_error alloc addr port TFTP_ERROR_ACCESS_VIOLATION ''Filename too long/not NULL terminated''
      (st\<lparr>ts_last_pkt := ts_timer st, ts_retries := 0, ts_timers := ts_timers st + 1\<rparr>)"
  have "sbuf [be16 1 @ d] 0 = Some (htons 1)" by (simp add: sbuf_def be16_def)
  then have "tftp_recv alloc memfind ctx [be16 1 @ d] addr port st = Some ?st1"
    using Suc.prems assms(2) by (simp add: tftp_recv_def tftp_request_def idle_def Let_def)
  moreover have "idle ?st1" "ts_timers ?st1 = Suc (ts_timers st)"
    using Suc.prems by (simp_all add: idle_def send_error_def)
  ultimately show ?case using Suc.IH [of ?st1] by auto
qed simp

theorem tftp_bad_requests_pile_up_timers_witness:
  "\<exists>st'. tftp_run demo_alloc demo_memfind demo_ctx 9 69 (replicate 3 [be16 1 @ [0x41]]) (tftp_zero []) = Some st'
     \<and> idle st' \<and> ts_timers st' = 3"
proof -
  have "demo_memfind (be16 1 @ [0x41]) 0 2 = 0xFFFF" "idle (tftp_zero [] :: (unit, bytes) tftp_state)"
    by (simp_all add: demo_memfind_def Let_def be16_bytes idle_def tftp_zero_def)
  then show ?thesis
    using tftp_bad_requests_pile_up_timers [of "tftp_zero []" demo_memfind "[0x41]" demo_alloc demo_ctx 9 69 3]
    by (simp add: tftp_zero_def)
qed

end
