(* ===== verification/Tftp_Handler.thy ===== *)
theory Tftp_Handler
  imports Tftp
begin

text \<open>
  The file callbacks of the TFTP server on the SD card, \<open>src/sw/src/tftp_handler.c\<close>. The FatFs calls
  are parameters on a disk state \<open>'d\<close>; the one static \<open>FIL\<close> is part of it, so a handle is \<open>unit\<close>. A
  result 0 is \<open>FR_OK\<close>. \<open>fread_contract\<close> and \<open>fwrite_contract\<close> state what is documented for an open file: its contents and
  the position of the pointer, reads and writes at the pointer, and \<open>FA_OPEN_ALWAYS\<close> opening an existing
  file at position 0 without truncating it.
\<close>

section \<open>Definitions\<close>

datatype fa_mode = FA_OPEN_ALWAYS_WRITE | FA_OPEN_EXISTING_READ

type_synonym 'd f_open_fn = "bytes \<Rightarrow> fa_mode \<Rightarrow> 'd \<Rightarrow> int \<times> 'd"
type_synonym 'd f_close_fn = "'d \<Rightarrow> int \<times> 'd"
type_synonym 'd f_read_fn = "nat \<Rightarrow> 'd \<Rightarrow> int \<times> bytes \<times> 'd"
type_synonym 'd f_write_fn = "bytes \<Rightarrow> 'd \<Rightarrow> int \<times> nat \<times> 'd"

definition tftp_sdcard_open :: "'d f_open_fn \<Rightarrow> bytes \<Rightarrow> bytes \<Rightarrow> bool \<Rightarrow> 'd \<Rightarrow> unit option \<times> 'd" where
  "tftp_sdcard_open f_open fname mode wr d =
     (if mode \<noteq> str ''octet'' then (None, d)
      else let (res, d') = f_open fname (if wr then FA_OPEN_ALWAYS_WRITE else FA_OPEN_EXISTING_READ) d
           in (if res = 0 then Some () else None, d'))"

definition tftp_sdcard_close :: "'d f_close_fn \<Rightarrow> unit \<Rightarrow> 'd \<Rightarrow> 'd" where
  "tftp_sdcard_close f_close h d = snd (f_close d)"

definition tftp_sdcard_read :: "'d f_read_fn \<Rightarrow> unit \<Rightarrow> nat \<Rightarrow> 'd \<Rightarrow> int \<times> bytes \<times> 'd" where
  "tftp_sdcard_read f_read h bytes d =
     (let (res, buf, d') = f_read bytes d
      in if res \<noteq> 0 then (-1, buf, d') else (int (length buf), buf, d'))"

fun tftp_sdcard_write :: "'d f_write_fn \<Rightarrow> 'h \<Rightarrow> pbuf \<Rightarrow> 'd \<Rightarrow> int \<times> 'd" where
  "tftp_sdcard_write f_write h [] d = (0, d)"
| "tftp_sdcard_write f_write h (payload # p) d =
     (if length (concat (payload # p)) = 0 then (0, d)
      else if length payload = 0 then tftp_sdcard_write f_write h p d
      else let (res, n, d') = f_write payload d
           in if res \<noteq> 0 then (-1, d')
              else if n \<noteq> length payload then (-1, d')
              else tftp_sdcard_write f_write h p d')"

definition ctxt ::
  "'d f_open_fn \<Rightarrow> 'd f_close_fn \<Rightarrow> 'd f_read_fn \<Rightarrow> 'd f_write_fn \<Rightarrow> (unit, 'd) tftp_context" where
  "ctxt f_open f_close f_read f_write =
     \<lparr>ctx_open = tftp_sdcard_open f_open, ctx_close = tftp_sdcard_close f_close,
      ctx_read = tftp_sdcard_read f_read, ctx_write = tftp_sdcard_write f_write\<rparr>"

text \<open>
  \<open>tftp_setup\<close> runs \<open>tftp_prepare\<close> in the thread of lwIP, unless \<open>tcpip_callback\<close> refuses; what \<open>tftp_init\<close> returns
  is ignored.
\<close>

definition tftp_prepare :: "bool \<Rightarrow> int \<Rightarrow> ('hd, 'f) tftp_state \<Rightarrow> ('hd, 'f) tftp_state" where
  "tftp_prepare pcb_ok bind_ret st = snd (tftp_init pcb_ok bind_ret st)"

definition tftp_setup :: "int \<Rightarrow> bool \<Rightarrow> int \<Rightarrow> ('hd, 'f) tftp_state \<Rightarrow> ('hd, 'f) tftp_state" where
  "tftp_setup callback_err pcb_ok bind_ret st =
     (if callback_err = 0 then tftp_prepare pcb_ok bind_ret st else st)"

lemma tftp_setup_idle: "idle (tftp_setup callback_err pcb_ok bind_ret (tftp_zero d))"
  by (simp add: tftp_setup_def tftp_prepare_def tftp_init_def idle_def tftp_zero_def)

section \<open>FatFs\<close>

definition fread_contract :: "'d f_read_fn \<Rightarrow> bool" where
  "fread_contract f_read \<longleftrightarrow> (\<forall>n d. length (fst (snd (f_read n d))) \<le> n)"

text \<open>A disk with room: writes succeed, at the pointer, over what is there.\<close>

definition fwrite_contract :: "'d f_write_fn \<Rightarrow> ('d \<Rightarrow> bytes) \<Rightarrow> ('d \<Rightarrow> nat) \<Rightarrow> bool" where
  "fwrite_contract f_write file pos \<longleftrightarrow>
     (\<forall>d. pos d \<le> length (file d))
     \<and> (\<forall>b d. \<exists>d'. f_write b d = (0, length b, d')
          \<and> file d' = take (pos d) (file d) @ b @ drop (pos d + length b) (file d)
          \<and> pos d' = pos d + length b)"

lemma sdcard_write_file:
  assumes "fwrite_contract f_write file pos"
  shows "\<exists>d'. tftp_sdcard_write f_write h p d = (0, d')
           \<and> file d' = take (pos d) (file d) @ concat p @ drop (pos d + length (concat p)) (file d)
           \<and> pos d' = pos d + length (concat p)"
proof (induction p arbitrary: d)
  case Nil
  then show ?case by simp
next
  case (Cons b p)
  have le: "pos d \<le> length (file d)" using assms by (simp add: fwrite_contract_def)
  obtain d1 where 1: "f_write b d = (0, length b, d1)"
    "file d1 = take (pos d) (file d) @ b @ drop (pos d + length b) (file d)" "pos d1 = pos d + length b"
    using assms unfolding fwrite_contract_def by blast
  consider (empty) "concat (b # p) = []" | (skip) "concat (b # p) \<noteq> []" "b = []" | (store) "b \<noteq> []" by blast
  then show ?case
  proof cases
    case empty
    then show ?thesis by (simp del: concat.simps concat_eq_Nil_conv)
  next
    case skip
    with Cons.IH [of d] show ?thesis by auto
  next
    case store
    obtain d' where "tftp_sdcard_write f_write h p d1 = (0, d')"
      "file d' = take (pos d1) (file d1) @ concat p @ drop (pos d1 + length (concat p)) (file d1)"
      "pos d' = pos d1 + length (concat p)"
      using Cons.IH [of d1] by blast
    with 1 le store show ?thesis by (auto simp: ac_simps)
  qed
qed

text \<open>
  The SD-card callbacks keep the promises the TFTP server relies on: whatever FatFs does, \<open>read\<close>
  never reports more bytes than asked for; on a disk with room, \<open>write\<close> appends the whole chain of
  payloads behind what the transfer has written so far; and no mode but \<open>octet\<close> opens a file.
\<close>

theorem sdcard_ctx_contracts:
  assumes "fread_contract f_read" "fwrite_contract f_write file pos"
    and "\<And>d. file (snd (f_close d)) = file d \<and> pos (snd (f_close d)) = pos d"
    and "\<And>d. file (snd (alloc d)) = file d \<and> pos (snd (alloc d)) = pos d"
  shows "read_contract (ctxt f_open f_close f_read f_write)
     \<and> write_contract alloc (ctxt f_open f_close f_read f_write) (\<lambda>d. take (pos d) (file d))
     \<and> (mode \<noteq> str ''octet'' \<longrightarrow> ctx_open (ctxt f_open f_close f_read f_write) fname mode wr d = (None, d))"
proof (intro conjI impI)
  show "read_contract (ctxt f_open f_close f_read f_write)"
    using assms(1)
    by (auto simp: read_contract_def ctxt_def tftp_sdcard_read_def fread_contract_def split: prod.split)
      (metis fst_conv snd_conv)
  have "0 \<le> fst (tftp_sdcard_write f_write h p d)
      \<and> take (pos (snd (tftp_sdcard_write f_write h p d))) (file (snd (tftp_sdcard_write f_write h p d))) =
        take (pos d) (file d) @ concat p" for h :: unit and p d
  proof -
    have "pos d \<le> length (file d)" using assms(2) by (simp add: fwrite_contract_def)
    with sdcard_write_file [OF assms(2), of h p d] show ?thesis by auto
  qed
  then show "write_contract alloc (ctxt f_open f_close f_read f_write) (\<lambda>d. take (pos d) (file d))"
    using assms(3,4) by (simp add: write_contract_def ctxt_def tftp_sdcard_close_def)
qed (simp add: ctxt_def tftp_sdcard_open_def)

text \<open>A disk with one file, for evaluation: its contents and the pointer.\<close>

type_synonym demo_disk = "bytes \<times> nat"

definition demo_file :: "demo_disk \<Rightarrow> bytes" where
  "demo_file d = fst d @ replicate (snd d - length (fst d)) 0"

definition demo_fwrite :: "demo_disk f_write_fn" where
  "demo_fwrite b d =
     (0, length b, (take (snd d) (demo_file d) @ b @ drop (snd d + length b) (demo_file d), snd d + length b))"

definition demo_fread :: "demo_disk f_read_fn" where
  "demo_fread n d = (0, take n (drop (snd d) (demo_file d)), (fst d, snd d + n))"

definition demo_fopen :: "demo_disk f_open_fn" where
  "demo_fopen fname m d = (0, (fst d, 0))"

lemma demo_fread_contract: "fread_contract demo_fread"
  by (simp add: fread_contract_def demo_fread_def)

lemma demo_fwrite_contract: "fwrite_contract demo_fwrite demo_file snd"
  by (auto simp: fwrite_contract_def demo_fwrite_def demo_file_def)

theorem sdcard_ctx_contracts_witness:
  "read_contract (ctxt demo_fopen (\<lambda>d. (0, d)) demo_fread demo_fwrite)
   \<and> ctx_open (ctxt demo_fopen (\<lambda>d. (0, d)) demo_fread demo_fwrite) (str ''F'') (str ''netascii'') True ([], 0) = (None, ([], 0))"
  using sdcard_ctx_contracts [OF demo_fread_contract demo_fwrite_contract, of "\<lambda>d. (0, d)" "\<lambda>d. (True, d)"
      demo_fopen "str ''netascii''" "str ''F''" True "([], 0)"]
  by (simp add: str_def)

text \<open>
  An existing file is opened for writing without being truncated: after a shorter file has been
  written over it, the rest of the old file is still behind the new contents.
\<close>

theorem sdcard_write_keeps_old_tail:
  assumes "fwrite_contract f_write file pos" "pos d = 0"
  shows "\<exists>d'. tftp_sdcard_write f_write () p d = (0, d') \<and> file d' = concat p @ drop (length (concat p)) (file d)"
  using sdcard_write_file [OF assms(1), of "()" p d] assms(2) by auto

theorem sdcard_write_keeps_old_tail_witness:
  "\<exists>d'. tftp_sdcard_write demo_fwrite () [[1, 2], [], [3]] ([9, 9, 9, 8, 7], 0) = (0, d') \<and> demo_file d' = [1, 2, 3, 8, 7]"
  using sdcard_write_keeps_old_tail [OF demo_fwrite_contract, of "([9, 9, 9, 8, 7], 0)" "[[1, 2], [], [3]]"]
  by (simp add: demo_file_def)

end
