(* ===== verification/Tftp_Session.thy ===== *)
theory Tftp_Session
  imports Tftp_Handler
begin

text \<open>
  The TFTP server on the SD card: the state machine of \<open>Tftp\<close> with the callbacks of \<open>Tftp_Handler\<close>, from the
  request packet to the contents of the card and back.

  \<open>disk_contract\<close> is what FatFs documents for the calls used, on a card whose failing calls leave other files alone. A card is seen through a \<open>disk_view\<close>: a name is looked up
  to a directory entry (\<open>entry\<close>; FatFs ignores the case of letters, and a file may have two names, so several names may
  have one entry), an entry has contents (\<open>files\<close>), and the one static file object has the entry it was last opened on, a position
  and the mode it is open in (\<open>cur\<close>, \<open>pos\<close>, \<open>how\<close>; no entry after an open that failed, no mode after that or a close). A file opened for
  writing cannot be read, nor the other way round. Every call may fail, a write may fall short, and closing may fail too;
  \<open>faults\<close> counts the calls that did, and the allocations of \<open>pbuf_alloc\<close> that did. \<open>disk_works\<close> is a card with room for
  the file, on which no call fails that uses the file object as it was opened.
  \<open>memfind_finds\<close> is what lwIP documents for \<open>pbuf_memfind\<close>.
\<close>

section \<open>Requests\<close>

definition req_pkt :: "u16 \<Rightarrow> bytes \<Rightarrow> pbuf" where
  "req_pkt opcode fname = [be16 opcode @ fname @ [0] @ str ''octet'' @ [0]]"

definition name_ok :: "bytes \<Rightarrow> bool" where
  "name_ok fname \<longleftrightarrow> 0 \<notin> set fname \<and> length fname \<le> TFTP_MAX_FILENAME_LEN"

definition memfind_finds :: "memfind_fn \<Rightarrow> bool" where
  "memfind_finds memfind \<longleftrightarrow>
     (\<forall>pre mid b rest. b \<notin> set mid \<longrightarrow> length pre + length mid < 0xFFFF \<longrightarrow>
        memfind (pre @ mid @ b # rest) b (length pre) = of_nat (length pre + length mid))"

lemma copy_cstring_word:
  assumes "0 \<notin> set s" "length s < bufsize"
  shows "copy_cstring (pre @ s @ 0 # rest) (Suc (length s)) (length pre) bufsize = Some s"
proof -
  have "take (Suc (length s)) (s @ 0 # rest) = s @ [0]" by simp
  moreover have "takeWhile (\<lambda>b. b \<noteq> 0) (s @ [0]) = s"
    using assms(1) by (induction s) auto
  ultimately show ?thesis using assms(2) by (simp add: copy_cstring_def)
qed

text \<open>A well-formed request, by what opening the file returns.\<close>

lemma tftp_request_opens:
  assumes "memfind_finds memfind" "name_ok fname" "ts_handle st = None"
    and "ctx_open ctx fname (str ''octet'') wr (ts_world st) = (h, w)"
  shows "tftp_request alloc memfind ctx (req_pkt opcode fname) addr port wr st =
     (let st2 = st\<lparr>ts_timers := ts_timers st + 1, ts_handle := h, ts_blknum := 1, ts_world := w\<rparr>;
          st3 = st2\<lparr>ts_addr := addr, ts_port := port\<rparr>
      in if h = None
         then Some (send_error alloc addr port TFTP_ERROR_FILE_NOT_FOUND ''Unable to open requested file.'' st2)
         else if wr then Some (send_ack alloc 0 (st3\<lparr>ts_mode_write := 1\<rparr>))
         else send_data alloc ctx (st3\<lparr>ts_mode_write := 0\<rparr>))"
proof -
  let ?mode = "str ''octet''" and ?n = "length fname"
  let ?bs = "be16 opcode @ fname @ [0] @ ?mode @ [0]"
  have n: "0 \<notin> set fname" "?n \<le> 20" using assms(2) by (simp_all add: name_ok_def)
  have mode: "0 \<notin> set ?mode" "length ?mode = 5" by (simp_all add: str_def)
  have end1: "memfind ?bs 0 2 = of_nat (?n + 2)"
    using assms(1) [unfolded memfind_finds_def, rule_format, of 0 fname "be16 opcode" "?mode @ [0]"] n
    by (simp add: add.commute)
  have small: "unat (of_nat k :: u16) = k" if "k < 100" for k
    using that by (simp add: unat_of_nat take_bit_nat_eq_self)
  have sub: "of_nat (?n + 2) - 1 = (of_nat (Suc ?n) :: u16)" "of_nat (?n + 8) - of_nat (?n + 2) = (6 :: u16)"
    by simp_all
  have u: "unat (of_nat (Suc ?n) :: u16) = Suc ?n" "unat (of_nat (?n + 2) :: u16) = ?n + 2"
    using small [of "Suc ?n"] small [of "?n + 2"] n(2) by simp_all
  have end2: "memfind ?bs 0 (?n + 2 + 1) = of_nat (?n + 8)"
    using assms(1) [unfolded memfind_finds_def, rule_format, of 0 ?mode "be16 opcode @ fname @ [0]" "[]"] n mode
    by (simp add: add.commute)
  have name: "copy_cstring ?bs (Suc ?n) 2 (TFTP_MAX_FILENAME_LEN + 1) = Some fname"
    using copy_cstring_word [of fname 21 "be16 opcode" "?mode @ [0]"] n by simp
  have six: "unat (6 :: u16) = 6" by simp
  have modes: "copy_cstring ?bs (unat (6 :: u16)) (?n + 2 + 1) (TFTP_MAX_MODE_LEN + 1) = Some ?mode"
    using copy_cstring_word [of ?mode 8 "be16 opcode @ fname @ [0]" "[]"] mode unfolding six by simp
  show ?thesis
    unfolding tftp_request_def req_pkt_def Let_def concat.simps append_Nil2 end1 sub u
    using assms(3,4) n(2) by (simp only: end2 sub u name modes option.case) simp
qed

section \<open>The card\<close>

record ('d, 'k) disk_view =
  entry :: "'d \<Rightarrow> bytes \<Rightarrow> 'k option"
  files :: "'d \<Rightarrow> 'k \<Rightarrow> bytes option"
  cur :: "'d \<Rightarrow> 'k option"
  pos :: "'d \<Rightarrow> nat"
  how :: "'d \<Rightarrow> fa_mode option"
  faults :: "'d \<Rightarrow> nat"

definition disk_lookup :: "('d, 'k) disk_view \<Rightarrow> 'd \<Rightarrow> bytes \<Rightarrow> bytes option" where
  "disk_lookup V d n = (case entry V d n of None \<Rightarrow> None | Some k \<Rightarrow> files V d k)"

text \<open>What no call does: it changes no file but the current one, and an existing name keeps its entry.\<close>

definition others_kept :: "('d, 'k) disk_view \<Rightarrow> 'd \<Rightarrow> 'd \<Rightarrow> bool" where
  "others_kept V d d' \<longleftrightarrow> cur V d' = cur V d \<and> (\<forall>n k. entry V d n = Some k \<longrightarrow> entry V d' n = Some k)
     \<and> (\<forall>k. cur V d \<noteq> Some k \<longrightarrow> files V d' k = files V d k) \<and> faults V d \<le> faults V d'"

definition open_contract :: "'d f_open_fn \<Rightarrow> ('d, 'k) disk_view \<Rightarrow> bool" where
  "open_contract f_open V \<longleftrightarrow> (\<forall>n m d res d'. f_open n m d = (res, d') \<longrightarrow>
     (\<forall>x k. entry V d x = Some k \<longrightarrow> entry V d' x = Some k)
     \<and> (\<forall>k \<in> dom (files V d). entry V d n \<noteq> Some k \<longrightarrow> files V d' k = files V d k)
     \<and> (m = FA_OPEN_EXISTING_READ \<longrightarrow> files V d' = files V d)
     \<and> faults V d' = faults V d + (if res = 0 then 0 else 1)
     \<and> how V d' = (if res = 0 then Some m else None) \<and> (res \<noteq> 0 \<longrightarrow> cur V d' = None)
     \<and> (res = 0 \<longrightarrow> (\<exists>k. cur V d' = Some k \<and> entry V d' n = Some k \<and> pos V d' = 0
          \<and> (entry V d n = Some k \<or> entry V d n = None \<and> m = FA_OPEN_ALWAYS_WRITE \<and> k \<notin> dom (files V d))
          \<and> files V d' k = Some (case disk_lookup V d n of None \<Rightarrow> [] | Some c \<Rightarrow> c))))"

definition write_contract_disk :: "'d f_write_fn \<Rightarrow> ('d, 'k) disk_view \<Rightarrow> bool" where
  "write_contract_disk f_write V \<longleftrightarrow> (\<forall>b d res n d'. f_write b d = (res, n, d') \<longrightarrow>
     others_kept V d d' \<and> how V d' = how V d \<and> (res = 0 \<longrightarrow> how V d = Some FA_OPEN_ALWAYS_WRITE)
     \<and> faults V d' = faults V d + (if res = 0 \<and> n = length b then 0 else 1)
     \<and> (res = 0 \<and> n = length b \<longrightarrow> pos V d' = pos V d + length b)
     \<and> (\<forall>k c. res = 0 \<and> n = length b \<and> cur V d = Some k \<and> files V d k = Some c \<and> pos V d \<le> length c \<longrightarrow>
          files V d' k = Some (take (pos V d) c @ b @ drop (pos V d + length b) c)))"

definition read_contract_disk :: "'d f_read_fn \<Rightarrow> ('d, 'k) disk_view \<Rightarrow> bool" where
  "read_contract_disk f_read V \<longleftrightarrow> (\<forall>n d res buf d'. f_read n d = (res, buf, d') \<longrightarrow>
     others_kept V d d' \<and> how V d' = how V d \<and> (res = 0 \<longrightarrow> how V d = Some FA_OPEN_EXISTING_READ)
     \<and> files V d' = files V d \<and> length buf \<le> n
     \<and> faults V d' = faults V d + (if res = 0 then 0 else 1)
     \<and> (\<forall>k c. res = 0 \<and> cur V d = Some k \<and> files V d k = Some c \<and> pos V d \<le> length c \<longrightarrow>
          buf = take n (drop (pos V d) c) \<and> pos V d' = min (length c) (pos V d + n)))"

definition close_contract_disk :: "'d f_close_fn \<Rightarrow> ('d, 'k) disk_view \<Rightarrow> bool" where
  "close_contract_disk f_close V \<longleftrightarrow> (\<forall>d res d'. f_close d = (res, d') \<longrightarrow>
     others_kept V d d' \<and> pos V d' = pos V d \<and> faults V d' = faults V d + (if res = 0 then 0 else 1)
     \<and> (res = 0 \<longrightarrow> how V d' = None \<and> files V d' = files V d))"

definition alloc_contract_disk :: "('d \<Rightarrow> bool \<times> 'd) \<Rightarrow> ('d, 'k) disk_view \<Rightarrow> bool" where
  "alloc_contract_disk alloc V \<longleftrightarrow> (\<forall>d ok d'. alloc d = (ok, d') \<longrightarrow>
     others_kept V d d' \<and> files V d' = files V d \<and> pos V d' = pos V d \<and> how V d' = how V d
     \<and> faults V d' = faults V d + (if ok then 0 else 1))"

definition disk_contract ::
  "('d \<Rightarrow> bool \<times> 'd) \<Rightarrow> 'd f_open_fn \<Rightarrow> 'd f_close_fn \<Rightarrow> 'd f_read_fn \<Rightarrow> 'd f_write_fn \<Rightarrow> ('d, 'k) disk_view \<Rightarrow> bool" where
  "disk_contract alloc f_open f_close f_read f_write V \<longleftrightarrow>
     open_contract f_open V \<and> close_contract_disk f_close V \<and> read_contract_disk f_read V
     \<and> write_contract_disk f_write V \<and> alloc_contract_disk alloc V"

lemma others_kept_refl: "others_kept V d d"
  by (simp add: others_kept_def)

lemma others_kept_trans: "others_kept V d d' \<Longrightarrow> others_kept V d' d'' \<Longrightarrow> others_kept V d d''"
  by (simp add: others_kept_def)

lemma others_kept_faults: "others_kept V d d' \<Longrightarrow> faults V d \<le> faults V d'"
  by (simp add: others_kept_def)

lemma disk_contract_openD:
  assumes "disk_contract alloc f_open f_close f_read f_write V" "f_open n m d = (res, d')"
  shows "\<And>x k. entry V d x = Some k \<Longrightarrow> entry V d' x = Some k"
    "\<And>k. k \<in> dom (files V d) \<Longrightarrow> entry V d n \<noteq> Some k \<Longrightarrow> files V d' k = files V d k"
    "m = FA_OPEN_EXISTING_READ \<Longrightarrow> files V d' = files V d"
    "faults V d' = faults V d + (if res = 0 then 0 else 1)" "res \<noteq> 0 \<Longrightarrow> cur V d' = None"
    "res = 0 \<Longrightarrow> how V d' = Some m"
    "res = 0 \<Longrightarrow> \<exists>k. cur V d' = Some k \<and> entry V d' n = Some k \<and> pos V d' = 0
          \<and> (entry V d n = Some k \<or> entry V d n = None \<and> m = FA_OPEN_ALWAYS_WRITE \<and> k \<notin> dom (files V d))
          \<and> files V d' k = Some (case disk_lookup V d n of None \<Rightarrow> [] | Some c \<Rightarrow> c)"
proof -
  note * = assms(1) [unfolded disk_contract_def open_contract_def, THEN conjunct1, rule_format, OF assms(2)]
  show "\<And>x k. entry V d x = Some k \<Longrightarrow> entry V d' x = Some k"
    "\<And>k. k \<in> dom (files V d) \<Longrightarrow> entry V d n \<noteq> Some k \<Longrightarrow> files V d' k = files V d k"
    "m = FA_OPEN_EXISTING_READ \<Longrightarrow> files V d' = files V d"
    "faults V d' = faults V d + (if res = 0 then 0 else 1)" "res \<noteq> 0 \<Longrightarrow> cur V d' = None"
    "res = 0 \<Longrightarrow> how V d' = Some m"
    using * by simp_all
  show "\<exists>k. cur V d' = Some k \<and> entry V d' n = Some k \<and> pos V d' = 0
          \<and> (entry V d n = Some k \<or> entry V d n = None \<and> m = FA_OPEN_ALWAYS_WRITE \<and> k \<notin> dom (files V d))
          \<and> files V d' k = Some (case disk_lookup V d n of None \<Rightarrow> [] | Some c \<Rightarrow> c)" if "res = 0"
    using * that by blast
qed

lemma disk_contract_calls:
  assumes "disk_contract alloc f_open f_close f_read f_write V"
  shows "f_write b d = (res, m, d') \<Longrightarrow> others_kept V d d' \<and> faults V d' = faults V d + (if res = 0 \<and> m = length b then 0 else 1)
     \<and> (\<forall>k c. res = 0 \<and> m = length b \<and> cur V d = Some k \<and> files V d k = Some c \<and> pos V d \<le> length c \<longrightarrow>
          pos V d' = pos V d + length b \<and> files V d' k = Some (take (pos V d) c @ b @ drop (pos V d + length b) c))"
    and "f_read n d = (res, buf, d') \<Longrightarrow> others_kept V d d' \<and> files V d' = files V d
     \<and> faults V d' = faults V d + (if res = 0 then 0 else 1)
     \<and> (\<forall>k c. res = 0 \<and> cur V d = Some k \<and> files V d k = Some c \<and> pos V d \<le> length c \<longrightarrow>
          buf = take n (drop (pos V d) c) \<and> pos V d' = min (length c) (pos V d + n))"
    and "f_close d = (res, d') \<Longrightarrow> others_kept V d d' \<and> pos V d' = pos V d
     \<and> faults V d' = faults V d + (if res = 0 then 0 else 1) \<and> (res = 0 \<longrightarrow> files V d' = files V d)"
    and "alloc d = (ok, d') \<Longrightarrow> others_kept V d d' \<and> files V d' = files V d \<and> pos V d' = pos V d
     \<and> faults V d' = faults V d + (if ok then 0 else 1)"
proof -
  have *: "write_contract_disk f_write V" "read_contract_disk f_read V" "close_contract_disk f_close V" "alloc_contract_disk alloc V"
    using assms by (simp_all add: disk_contract_def)
  show "f_write b d = (res, m, d') \<Longrightarrow> others_kept V d d' \<and> faults V d' = faults V d + (if res = 0 \<and> m = length b then 0 else 1)
     \<and> (\<forall>k c. res = 0 \<and> m = length b \<and> cur V d = Some k \<and> files V d k = Some c \<and> pos V d \<le> length c \<longrightarrow>
          pos V d' = pos V d + length b \<and> files V d' k = Some (take (pos V d) c @ b @ drop (pos V d + length b) c))"
    using *(1) [unfolded write_contract_disk_def, rule_format, of b d res m d'] by simp
  show "f_read n d = (res, buf, d') \<Longrightarrow> others_kept V d d' \<and> files V d' = files V d
     \<and> faults V d' = faults V d + (if res = 0 then 0 else 1)
     \<and> (\<forall>k c. res = 0 \<and> cur V d = Some k \<and> files V d k = Some c \<and> pos V d \<le> length c \<longrightarrow>
          buf = take n (drop (pos V d) c) \<and> pos V d' = min (length c) (pos V d + n))"
    using *(2) unfolding read_contract_disk_def by blast
  show "f_close d = (res, d') \<Longrightarrow> others_kept V d d' \<and> pos V d' = pos V d
     \<and> faults V d' = faults V d + (if res = 0 then 0 else 1) \<and> (res = 0 \<longrightarrow> files V d' = files V d)"
    using *(3) [unfolded close_contract_disk_def, rule_format, of d res d'] by simp
  show "alloc d = (ok, d') \<Longrightarrow> others_kept V d d' \<and> files V d' = files V d \<and> pos V d' = pos V d
     \<and> faults V d' = faults V d + (if ok then 0 else 1)"
    using *(4) [unfolded alloc_contract_disk_def, rule_format, of d ok d'] by simp
qed

lemma disk_contract_modes:
  assumes "disk_contract alloc f_open f_close f_read f_write V"
  shows "f_write b d = (res, m, d') \<Longrightarrow> how V d' = how V d \<and> (res = 0 \<and> m = length b \<longrightarrow> pos V d' = pos V d + length b)"
    "f_read n d = (res, buf, d') \<Longrightarrow> how V d' = how V d" "alloc d = (ok, d') \<Longrightarrow> how V d' = how V d"
  using assms by (simp_all add: disk_contract_def write_contract_disk_def read_contract_disk_def alloc_contract_disk_def)

lemma others_kept_calls:
  assumes "disk_contract alloc f_open f_close f_read f_write V"
  shows "others_kept V d (snd (f_close d))" "others_kept V d (snd (alloc d))"
    "f_read n d = (res, buf, d') \<Longrightarrow> others_kept V d d'"
  using disk_contract_calls(3) [OF assms, of d "fst (f_close d)" "snd (f_close d)"]
    disk_contract_calls(4) [OF assms, of d "fst (alloc d)" "snd (alloc d)"]
    disk_contract_calls(2) [OF assms, of n d res buf d'] by simp_all

section \<open>Writing\<close>

text \<open>No other file has changed, and unless a call failed, \<open>b\<close> is in the current file behind the position.\<close>

definition disk_wrote :: "('d, 'k) disk_view \<Rightarrow> 'd \<Rightarrow> bytes \<Rightarrow> 'd \<Rightarrow> bool" where
  "disk_wrote V d b d' \<longleftrightarrow> others_kept V d d'
     \<and> (\<forall>k c. faults V d' = faults V d \<and> cur V d = Some k \<and> files V d k = Some c \<and> pos V d \<le> length c \<longrightarrow>
          pos V d' = pos V d + length b \<and> files V d' k = Some (take (pos V d) c @ b @ drop (pos V d + length b) c))"

lemma disk_wrote_nothing:
  "others_kept V d d' \<Longrightarrow> (faults V d' = faults V d \<Longrightarrow> files V d' = files V d \<and> pos V d' = pos V d) \<Longrightarrow> disk_wrote V d [] d'"
  by (auto simp: disk_wrote_def)

lemma disk_wrote_fault: "others_kept V d d' \<Longrightarrow> faults V d < faults V d' \<Longrightarrow> disk_wrote V d b d'"
  by (auto simp: disk_wrote_def)

lemma disk_wrote_kept: "disk_wrote V d b d' \<Longrightarrow> others_kept V d d'"
  by (simp add: disk_wrote_def)

lemma disk_wrote_trans:
  assumes "disk_wrote V d a d'" "disk_wrote V d' b d''"
  shows "disk_wrote V d (a @ b) d''"
  unfolding disk_wrote_def
proof (intro conjI allI impI)
  show "others_kept V d d''" using assms others_kept_trans disk_wrote_kept by metis
  fix k c
  assume c: "faults V d'' = faults V d \<and> cur V d = Some k \<and> files V d k = Some c \<and> pos V d \<le> length c"
  then have f: "faults V d' = faults V d" "faults V d'' = faults V d'" "cur V d' = Some k"
    using assms by (auto simp: disk_wrote_def others_kept_def)
  then have "pos V d' = pos V d + length a" "files V d' k = Some (take (pos V d) c @ a @ drop (pos V d + length a) c)"
    using assms(1) c by (auto simp: disk_wrote_def)
  then have "pos V d'' = pos V d' + length b"
    "files V d'' k = Some (take (pos V d) c @ a @ b @ drop (pos V d + length a + length b) c)"
    using assms(2) f(2,3) c by (auto simp: disk_wrote_def min_def ac_simps)
  then show "pos V d'' = pos V d + length (a @ b)"
    "files V d'' k = Some (take (pos V d) c @ (a @ b) @ drop (pos V d + length (a @ b)) c)"
    using \<open>pos V d' = _\<close> by (simp_all add: ac_simps)
qed

lemma sdcard_write_disk:
  assumes "disk_contract alloc f_open f_close f_read f_write V"
  shows "tftp_sdcard_write f_write h p d = (ret, d') \<Longrightarrow>
     (0 \<le> ret \<longrightarrow> disk_wrote V d (concat p) d') \<and> (ret < 0 \<longrightarrow> others_kept V d d' \<and> faults V d < faults V d')"
proof (induction p arbitrary: d)
  case Nil
  then show ?case by (auto simp: disk_wrote_nothing others_kept_refl)
next
  case (Cons b p)
  obtain res m d1 where 1: "f_write b d = (res, m, d1)" by (metis prod.collapse)
  note call = disk_contract_calls(1) [OF assms 1]
  consider (empty) "concat (b # p) = []" | (skip) "concat (b # p) \<noteq> []" "b = []"
    | (failed) "b \<noteq> []" "\<not> (res = 0 \<and> m = length b)" | (store) "b \<noteq> []" "res = 0" "m = length b" by blast
  then show ?case
  proof cases
    case empty
    with Cons.prems show ?thesis
      by (auto simp: disk_wrote_nothing others_kept_refl simp del: concat.simps concat_eq_Nil_conv)
  next
    case skip
    then have "tftp_sdcard_write f_write h p d = (ret, d')"
      using Cons.prems by (simp add: skip(2) del: concat_eq_Nil_conv split: if_splits)
    from Cons.IH [OF this] skip show ?thesis by simp
  next
    case failed
    with Cons.prems 1 call show ?thesis by (auto split: if_splits)
  next
    case store
    have wrote: "disk_wrote V d b d1" "faults V d1 = faults V d" using call store by (auto simp: disk_wrote_def)
    have "tftp_sdcard_write f_write h p d1 = (ret, d')" using Cons.prems 1 store by simp
    from Cons.IH [OF this] wrote disk_wrote_trans [OF wrote(1)] others_kept_trans [OF disk_wrote_kept [OF wrote(1)]]
    show ?thesis by auto
  qed
qed

lemma disk_write_may_fail:
  assumes "disk_contract alloc f_open f_close f_read f_write V"
  shows "write_may_fail alloc (ctxt f_open f_close f_read f_write) (\<lambda>d. True) (disk_wrote V)"
  unfolding write_may_fail_def
proof (intro conjI allI impI)
  let ?ctx = "ctxt f_open f_close f_read f_write"
  fix h p d
  note w = sdcard_write_disk [OF assms, of h p d "fst (ctx_write ?ctx h p d)" "snd (ctx_write ?ctx h p d)"]
  show "disk_wrote V d (concat p) (snd (ctx_write ?ctx h p d))" if "0 \<le> fst (ctx_write ?ctx h p d)"
    using w that by (simp add: ctxt_def)
  show "disk_wrote V d (concat p @ b) (snd (ctx_write ?ctx h p d))" if "fst (ctx_write ?ctx h p d) < 0" for b
    using w that by (simp add: ctxt_def disk_wrote_fault)
next
  fix h d
  have "disk_wrote V d [] (snd (f_close d))"
    using disk_contract_calls(3) [OF assms, of d "fst (f_close d)" "snd (f_close d)"]
    by (intro disk_wrote_nothing) (auto split: if_splits)
  then show "disk_wrote V d [] (ctx_close (ctxt f_open f_close f_read f_write) h d)"
    by (simp add: ctxt_def tftp_sdcard_close_def)
next
  fix d
  show "disk_wrote V d [] (snd (alloc d))"
    using disk_contract_calls(4) [OF assms, of d "fst (alloc d)" "snd (alloc d)"]
    by (intro disk_wrote_nothing) auto
  show "disk_wrote V d [] d" by (simp add: disk_wrote_nothing others_kept_refl)
qed (auto intro: disk_wrote_trans)

section \<open>Reading\<close>

text \<open>The current file is open, and what is left of it.\<close>

definition opened :: "('d, 'k) disk_view \<Rightarrow> 'd \<Rightarrow> bytes \<Rightarrow> bool" where
  "opened V d rest \<longleftrightarrow> (\<exists>k c. cur V d = Some k \<and> files V d k = Some c \<and> pos V d \<le> length c \<and> rest = drop (pos V d) c)"

lemma opened_alloc:
  "disk_contract alloc f_open f_close f_read f_write V \<Longrightarrow> alloc d = (ok, d') \<Longrightarrow> opened V d' rest \<longleftrightarrow> opened V d rest"
  using disk_contract_calls(4) [of alloc f_open f_close f_read f_write V d ok d'] by (simp add: opened_def others_kept_def)

lemma opened_read:
  assumes "disk_contract alloc f_open f_close f_read f_write V" "f_read n d = (res, buf, d')" "res = 0" "opened V d rest"
  shows "buf = take n rest" "opened V d' (drop n rest)"
proof -
  obtain k c where kc: "cur V d = Some k" "files V d k = Some c" "pos V d \<le> length c" "rest = drop (pos V d) c"
    using assms(4) by (auto simp: opened_def)
  note call = disk_contract_calls(2) [OF assms(1,2)]
  show "buf = take n rest" using call assms(3) kc by blast
  have "pos V d' = min (length c) (pos V d + n)" "cur V d' = Some k" "files V d' k = Some c"
    using call assms(3) kc by (auto simp: others_kept_def)
  then show "opened V d' (drop n rest)" using kc(4) by (auto simp: opened_def min_def add.commute)
qed

lemma kept_udp_reply:
  "disk_contract alloc f_open f_close f_read f_write V \<Longrightarrow> others_kept V (ts_world st) (ts_world (udp_reply alloc a q b st))"
  using others_kept_calls(2) [of alloc f_open f_close f_read f_write V "ts_world st"]
  by (simp add: udp_reply_def split: prod.split) (metis snd_conv)

lemma kept_close_handle:
  "disk_contract alloc f_open f_close f_read f_write V \<Longrightarrow>
   others_kept V (ts_world st) (ts_world (close_handle (ctxt f_open f_close f_read f_write) st))"
  using others_kept_calls(1) [of alloc f_open f_close f_read f_write V]
  by (simp add: close_handle_def Let_def ctxt_def tftp_sdcard_close_def others_kept_refl split: option.split)

section \<open>Transfers\<close>

lemma tftp_recv_req:
  assumes "idle st" "opcode = TFTP_RRQ \<or> opcode = TFTP_WRQ"
  shows "tftp_recv alloc memfind ctx (req_pkt opcode fname) addr port st =
     tftp_request alloc memfind ctx (req_pkt opcode fname) addr port (opcode = TFTP_WRQ)
       (st\<lparr>ts_last_pkt := ts_timer st, ts_retries := 0\<rparr>)"
proof -
  have "sbuf (req_pkt opcode fname) 0 = Some (htons opcode)" by (simp add: req_pkt_def sbuf_def be16_def)
  with assms show ?thesis by (auto simp: tftp_recv_def idle_def Let_def)
qed

text \<open>The contents of a file after \<open>data\<close> has been written over it from its start.\<close>

definition overwrite :: "bytes option \<Rightarrow> bytes \<Rightarrow> bytes" where
  "overwrite c data = data @ drop (length data) (case c of None \<Rightarrow> [] | Some old \<Rightarrow> old)"

lemma kept_send_data:
  assumes "disk_contract alloc f_open f_close f_read f_write V" "ts_handle st \<noteq> None"
  shows "\<exists>st'. send_data alloc (ctxt f_open f_close f_read f_write) st = Some st' \<and> others_kept V (ts_world st) (ts_world st')"
proof -
  let ?ctx = "ctxt f_open f_close f_read f_write"
  obtain h where h: "ts_handle st = Some h" using assms(2) by blast
  obtain ok w where a: "alloc (ts_world st) = (ok, w)" by fastforce
  obtain res buf w' where r: "f_read 512 w = (res, buf, w')" by (metis prod.collapse)
  have w: "others_kept V (ts_world st) w" using others_kept_calls(2) [OF assms(1), of "ts_world st"] a by simp
  have w': "others_kept V (ts_world st) w'" using others_kept_trans [OF w others_kept_calls(3) [OF assms(1) r]] .
  have reply: "others_kept V (ts_world st) (ts_world (udp_reply alloc x y z (st\<lparr>ts_last_data := l, ts_world := w'\<rparr>)))" for x y z l
    using others_kept_trans [OF w'] kept_udp_reply [OF assms(1), of "st\<lparr>ts_last_data := l, ts_world := w'\<rparr>"] by simp
  have "others_kept V (ts_world st) (ts_world (close_handle ?ctx (udp_reply alloc x y z (st\<lparr>ts_last_data := l, ts_world := w'\<rparr>))))"
    for x y z l
    using others_kept_trans [OF reply kept_close_handle [OF assms(1)]] .
  then show ?thesis
    using h a r w reply
    by (auto simp: send_data_def resend_data_def send_error_def tftp_sdcard_read_def Let_def ctxt_def [of f_open])
qed

text \<open>Acknowledgements, in whatever state they arrive.\<close>

lemma kept_recv_ack:
  assumes "disk_contract alloc f_open f_close f_read f_write V"
  shows "\<exists>st'. tftp_recv alloc memfind (ctxt f_open f_close f_read f_write) (ack_pkt b) addr port st = Some st'
     \<and> others_kept V (ts_world st) (ts_world st')"
proof -
  let ?ctx = "ctxt f_open f_close f_read f_write" and ?st1 = "st\<lparr>ts_last_pkt := ts_timer st, ts_retries := 0\<rparr>"
  have reply: "others_kept V (ts_world st) (ts_world (udp_reply alloc x y z st))"
    "others_kept V (ts_world st) (ts_world (udp_reply alloc x y z ?st1))" for x y z
    using kept_udp_reply [OF assms, of st] kept_udp_reply [OF assms, of ?st1] by simp_all
  have close: "others_kept V (ts_world st) (ts_world (close_handle ?ctx ?st1))"
    using kept_close_handle [OF assms, of ?st1] by simp
  have data: "\<exists>st'. send_data alloc ?ctx (?st1\<lparr>ts_blknum := x\<rparr>) = Some st' \<and> others_kept V (ts_world st) (ts_world st')"
    if "ts_handle st \<noteq> None" for x
    using kept_send_data [OF assms, of "?st1\<lparr>ts_blknum := x\<rparr>"] that by simp
  show ?thesis
    using reply close data by (auto simp: tftp_recv_def tftp_ack_def send_error_def Let_def)
qed

lemma kept_run_acks:
  assumes "disk_contract alloc f_open f_close f_read f_write V"
  shows "\<exists>st'. tftp_run alloc memfind (ctxt f_open f_close f_read f_write) addr port (ack_pkts b n) st = Some st'
     \<and> others_kept V (ts_world st) (ts_world st')"
proof (induction n arbitrary: b st)
  case 0
  show ?case by (simp add: others_kept_refl)
next
  case (Suc n)
  obtain st1 where 1: "tftp_recv alloc memfind (ctxt f_open f_close f_read f_write) (ack_pkt b) addr port st = Some st1"
    "others_kept V (ts_world st) (ts_world st1)"
    using kept_recv_ack [OF assms] by blast
  from Suc.IH [of "b + 1" st1] 1 others_kept_trans [OF 1(2)] show ?case by auto
qed

text \<open>The next block, unless a call fails.\<close>

lemma send_data_opened:
  assumes "disk_contract alloc f_open f_close f_read f_write V" "reading addr port b st" "opened V (ts_world st) rest"
    and "send_data alloc (ctxt f_open f_close f_read f_write) st = Some st'" "faults V (ts_world st') = faults V (ts_world st)"
  shows "reading addr port b st'" "opened V (ts_world st') (drop 512 rest)"
    "ts_out st' = ts_out st @ [(addr, port, concat (data_pkt b (take 512 rest)))]"
    "ts_last_data st' = Some (concat (data_pkt b (take 512 rest)))"
proof -
  let ?ctx = "ctxt f_open f_close f_read f_write"
  obtain h where h: "ts_handle st = Some h" using assms(2) by (auto simp: reading_def)
  obtain ok w1 where a1: "alloc (ts_world st) = (ok, w1)" by fastforce
  obtain res buf w2 where r: "f_read 512 w1 = (res, buf, w2)" by (metis prod.collapse)
  obtain ok3 w3 where a3: "alloc w2 = (ok3, w3)" by fastforce
  note c1 = disk_contract_calls(4) [OF assms(1) a1] and c2 = disk_contract_calls(2) [OF assms(1) r]
    and c3 = disk_contract_calls(4) [OF assms(1) a3]
  have ok1: "ok"
  proof (rule ccontr)
    assume "\<not> ok"
    then have "ts_world st' = w1" using assms(4) h a1 by (auto simp: send_data_def)
    with \<open>\<not> ok\<close> c1 assms(5) show False by simp
  qed
  have res0: "res = 0"
  proof (rule ccontr)
    let ?st0 = "st\<lparr>ts_last_data := Some ((put16 (htons TFTP_DATA) @ put16 (htons (ts_blknum st))) @ take (nat (-1)) buf), ts_world := w2\<rparr>"
    let ?err = "udp_reply alloc (ts_addr st) (ts_port st) (put16 (htons TFTP_ERROR) @ put16 (htons (tftp_error_code TFTP_ERROR_ACCESS_VIOLATION))
      @ str ''Error occurred while reading the file.'' @ [0]) ?st0"
    assume "res \<noteq> 0"
    then have "st' = close_handle ?ctx ?err"
      using assms(4) h a1 r ok1 by (simp add: send_data_def ctxt_def tftp_sdcard_read_def send_error_def)
    then have "others_kept V w2 (ts_world st')"
      using others_kept_trans [OF _ kept_close_handle [OF assms(1), of ?err], of w2] kept_udp_reply [OF assms(1), of ?st0]
      by simp
    then have "faults V w2 \<le> faults V (ts_world st')" by (rule others_kept_faults)
    with \<open>res \<noteq> 0\<close> c1 c2 assms(5) ok1 show False by simp
  qed
  have open1: "opened V w1 rest" using assms(3) opened_alloc [OF assms(1) a1] by simp
  note rd = opened_read [OF assms(1) r res0 open1]
  have len: "take (length buf) buf = buf" by simp
  have st': "st' = udp_reply alloc (ts_addr st) (ts_port st) (concat (data_pkt b buf))
      (st\<lparr>ts_last_data := Some (concat (data_pkt b buf)), ts_world := w2\<rparr>)"
    using assms(2,4) h a1 r ok1 res0
    by (simp add: send_data_def resend_data_def ctxt_def tftp_sdcard_read_def reading_def data_pkt_def be16_def)
  have "ok3"
  proof (rule ccontr)
    assume "\<not> ok3"
    then have "ts_world st' = w3" using st' a3 by (simp add: udp_reply_def)
    with \<open>\<not> ok3\<close> c1 c2 c3 assms(5) show False by (simp split: if_splits)
  qed
  then have out: "st' = st\<lparr>ts_last_data := Some (concat (data_pkt b buf)), ts_world := w3,
      ts_out := ts_out st @ [(ts_addr st, ts_port st, concat (data_pkt b buf))]\<rparr>"
    using st' a3 by (simp add: udp_reply_def)
  show "reading addr port b st'" "opened V (ts_world st') (drop 512 rest)"
    "ts_out st' = ts_out st @ [(addr, port, concat (data_pkt b (take 512 rest)))]"
    "ts_last_data st' = Some (concat (data_pkt b (take 512 rest)))"
    using out assms(2) rd opened_alloc [OF assms(1) a3] by (simp_all add: reading_def)
qed

lemma run_acks_opened:
  assumes "disk_contract alloc f_open f_close f_read f_write V"
  shows "reading addr port b st \<Longrightarrow> opened V (ts_world st) (concat cs) \<Longrightarrow> ts_last_data st = Some (concat (data_pkt b c)) \<Longrightarrow>
    chunks f = c # cs \<Longrightarrow>
    tftp_run alloc memfind (ctxt f_open f_close f_read f_write) addr port (ack_pkts b (length (c # cs))) st = Some st' \<Longrightarrow>
    faults V (ts_world st') = faults V (ts_world st) \<Longrightarrow>
    ts_out st' = ts_out st @ data_pkts addr port (b + 1) cs \<and> idle st'"
proof (induction f arbitrary: b c cs st rule: chunks.induct)
  case (1 f)
  let ?ctx = "ctxt f_open f_close f_read f_write"
  let ?st1 = "st\<lparr>ts_last_pkt := ts_timer st, ts_retries := 0\<rparr>"
  have recv: "tftp_recv alloc memfind ?ctx (ack_pkt b) addr port st =
      (if length c = 512 then send_data alloc ?ctx (?st1\<lparr>ts_blknum := b + 1\<rparr>) else Some (close_handle ?ctx ?st1))"
    using "1.prems"(1,3) by (auto simp: tftp_recv_def tftp_ack_def reading_def Let_def data_pkt_def)
  show ?case
  proof (cases "length f < 512")
    case True
    then have "c = f" "cs = []" using "1.prems"(4) by (simp_all add: chunks.simps [of f])
    with True recv "1.prems"(5) show ?thesis by (auto simp: idle_def)
  next
    case False
    then have c: "c = take 512 f" "cs = chunks (drop 512 f)"
      using "1.prems"(4) by (simp_all add: chunks.simps [of f])
    have len: "length c = 512" using c(1) False by simp
    let ?st2 = "?st1\<lparr>ts_blknum := b + 1\<rparr>"
    obtain st2 where 2: "send_data alloc ?ctx ?st2 = Some st2" "others_kept V (ts_world ?st2) (ts_world st2)"
      using kept_send_data [OF assms, of ?st2] "1.prems"(1) by (auto simp: reading_def)
    have run: "tftp_run alloc memfind ?ctx addr port (ack_pkts (b + 1) (length cs)) st2 = Some st'"
      using "1.prems"(5) recv len 2(1) by simp
    have "others_kept V (ts_world st2) (ts_world st')"
      using kept_run_acks [OF assms, of memfind addr port "b + 1" "length cs" st2] run by simp
    then have f: "faults V (ts_world st2) = faults V (ts_world ?st2)" "faults V (ts_world st') = faults V (ts_world st2)"
      using 2(2) "1.prems"(6) by (simp_all add: others_kept_def)
    have r2: "reading addr port (b + 1) ?st2" "opened V (ts_world ?st2) (drop 512 f)"
      using "1.prems"(1,2) c(2) concat_chunks by (simp_all add: reading_def)
    obtain ds where ds: "chunks (drop 512 f) = take 512 (drop 512 f) # ds" "concat ds = drop 512 (drop 512 f)"
      by (rule chunks_Cons)
    note next_block = send_data_opened [OF assms r2 2(1) f(1)]
    have "ts_out st' = ts_out st2 @ data_pkts addr port (b + 1 + 1) ds \<and> idle st'"
      using "1.IH" [OF False next_block(1) _ next_block(4) ds(1) _ f(2)] next_block(2) ds run c(2) by simp
    then show ?thesis using next_block(3) ds c(2) by simp
  qed
qed

section \<open>A card on which nothing fails\<close>

text \<open>
  The card has room for the entry of the file and for \<open>cap\<close> bytes in it, and memory does not run out. The file object
  is used as it was opened, and not after it was closed: FatFs refuses anything else.
\<close>

definition disk_works ::
  "('d \<Rightarrow> bool \<times> 'd) \<Rightarrow> 'd f_open_fn \<Rightarrow> 'd f_close_fn \<Rightarrow> 'd f_read_fn \<Rightarrow> 'd f_write_fn \<Rightarrow> ('d, 'k) disk_view \<Rightarrow>
     bytes \<Rightarrow> nat \<Rightarrow> bool" where
  "disk_works alloc f_open f_close f_read f_write V fname cap \<longleftrightarrow>
     (\<forall>d. fst (alloc d))
     \<and> (\<forall>m d. m = FA_OPEN_ALWAYS_WRITE \<or> entry V d fname \<noteq> None \<longrightarrow> fst (f_open fname m d) = 0)
     \<and> (\<forall>d. cur V d \<noteq> None \<and> how V d \<noteq> None \<longrightarrow> fst (f_close d) = 0)
     \<and> (\<forall>n d. cur V d \<noteq> None \<and> how V d = Some FA_OPEN_EXISTING_READ \<longrightarrow> fst (f_read n d) = 0)
     \<and> (\<forall>b d. cur V d \<noteq> None \<and> how V d = Some FA_OPEN_ALWAYS_WRITE \<and> pos V d + length b \<le> cap \<longrightarrow>
          (\<exists>d'. f_write b d = (0, length b, d')))"

text \<open>The file object is open in a mode, at a position.\<close>

definition in_mode :: "('d, 'k) disk_view \<Rightarrow> fa_mode \<Rightarrow> nat \<Rightarrow> nat \<Rightarrow> 'd \<Rightarrow> bool" where
  "in_mode V m p f d \<longleftrightarrow> cur V d \<noteq> None \<and> how V d = Some m \<and> (m = FA_OPEN_ALWAYS_WRITE \<longrightarrow> pos V d = p) \<and> faults V d = f"

lemma works_reply:
  assumes "disk_contract alloc f_open f_close f_read f_write V" "disk_works alloc f_open f_close f_read f_write V fname cap"
  shows "in_mode V m p f (ts_world st) \<Longrightarrow> in_mode V m p f (ts_world (udp_reply alloc a q b st))"
    "faults V (ts_world (udp_reply alloc a q b st)) = faults V (ts_world st)"
proof -
  obtain ok w where a: "alloc (ts_world st) = (ok, w)" by fastforce
  have "ok" using assms(2) a by (auto simp: disk_works_def dest: spec [of _ "ts_world st"])
  then show "in_mode V m p f (ts_world st) \<Longrightarrow> in_mode V m p f (ts_world (udp_reply alloc a q b st))"
    "faults V (ts_world (udp_reply alloc a q b st)) = faults V (ts_world st)"
    using a disk_contract_calls(4) [OF assms(1) a] disk_contract_modes(3) [OF assms(1) a]
    by (simp_all add: udp_reply_def in_mode_def others_kept_def)
qed

lemma works_close_handle:
  assumes "disk_contract alloc f_open f_close f_read f_write V" "disk_works alloc f_open f_close f_read f_write V fname cap"
    and "in_mode V m p f (ts_world st)"
  shows "faults V (ts_world (close_handle (ctxt f_open f_close f_read f_write) st)) = f"
proof -
  obtain res d' where c: "f_close (ts_world st) = (res, d')" by fastforce
  have "fst (f_close (ts_world st)) = 0"
    using assms(2,3) unfolding disk_works_def in_mode_def by simp
  then have "res = 0" using c by simp
  then show ?thesis
    using assms(3) c disk_contract_calls(3) [OF assms(1) c]
    by (simp add: close_handle_def Let_def ctxt_def tftp_sdcard_close_def in_mode_def split: option.split)
qed

lemma works_write:
  assumes "disk_contract alloc f_open f_close f_read f_write V" "disk_works alloc f_open f_close f_read f_write V fname cap"
    and "in_mode V FA_OPEN_ALWAYS_WRITE p f d" "p + length b \<le> cap"
  shows "\<exists>d'. ctx_write (ctxt f_open f_close f_read f_write) h [b] d = (0, d') \<and> in_mode V FA_OPEN_ALWAYS_WRITE (p + length b) f d'"
proof (cases "b = []")
  case True
  with assms(3) show ?thesis by (simp add: ctxt_def)
next
  case False
  have "\<exists>d'. f_write b d = (0, length b, d')"
    using assms(2-4) unfolding disk_works_def in_mode_def by (elim conjE) simp
  then obtain d' where w: "f_write b d = (0, length b, d')" by blast
  have "in_mode V FA_OPEN_ALWAYS_WRITE (p + length b) f d'"
    using assms(3) disk_contract_calls(1) [OF assms(1) w] disk_contract_modes(1) [OF assms(1) w]
    by (simp add: in_mode_def others_kept_def)
  with w False show ?thesis by (simp add: ctxt_def)
qed

lemma works_recv_block:
  assumes "disk_contract alloc f_open f_close f_read f_write V" "disk_works alloc f_open f_close f_read f_write V fname cap"
    and "writing addr port b st" "in_mode V FA_OPEN_ALWAYS_WRITE p f (ts_world st)" "p + length d \<le> cap"
  shows "\<exists>st'. tftp_recv alloc memfind (ctxt f_open f_close f_read f_write) (data_pkt b d) addr port st = Some st'
     \<and> faults V (ts_world st') = f
     \<and> (if length d < 512 then idle st'
        else writing addr port (b + 1) st' \<and> in_mode V FA_OPEN_ALWAYS_WRITE (p + length d) f (ts_world st'))"
proof -
  let ?ctx = "ctxt f_open f_close f_read f_write"
  obtain h where h: "ts_handle st = Some h" using assms(3) by (auto simp: writing_def)
  obtain w where w: "ctx_write ?ctx h [d] (ts_world st) = (0, w)" "in_mode V FA_OPEN_ALWAYS_WRITE (p + length d) f w"
    using works_write [OF assms(1,2,4,5)] by blast
  let ?st1 = "send_ack alloc b (st\<lparr>ts_last_pkt := ts_timer st, ts_retries := 0, ts_world := w\<rparr>)"
  have strip: "drop 4 (hd (data_pkt b d)) # tl (data_pkt b d) = [d]" by (simp add: data_pkt_def)
  have recv: "tftp_recv alloc memfind ?ctx (data_pkt b d) addr port st =
      Some (if length d < 512 then close_handle ?ctx ?st1 else ?st1\<lparr>ts_blknum := b + 1\<rparr>)"
    using assms(3) h w(1) strip by (auto simp: tftp_recv_def tftp_data_def Let_def writing_def send_ack_def)
  have st1: "in_mode V FA_OPEN_ALWAYS_WRITE (p + length d) f (ts_world ?st1)"
    unfolding send_ack_def by (rule works_reply [OF assms(1,2)]) (simp add: w(2))
  show ?thesis
  proof (cases "length d < 512")
    case True
    with recv works_close_handle [OF assms(1,2) st1] show ?thesis by (simp add: idle_def)
  next
    case False
    have "writing addr port (b + 1) (?st1\<lparr>ts_blknum := b + 1\<rparr>)"
      using assms(3) h by (simp add: writing_def send_ack_def)
    with False recv st1 show ?thesis by (simp add: in_mode_def)
  qed
qed

lemma works_recv_duplicates:
  assumes "disk_contract alloc f_open f_close f_read f_write V" "disk_works alloc f_open f_close f_read f_write V fname cap"
  shows "writing addr port (b + 1) st \<or> idle st \<Longrightarrow>
     \<exists>st'. tftp_run alloc memfind (ctxt f_open f_close f_read f_write) addr port (replicate k (data_pkt b d)) st = Some st'
     \<and> faults V (ts_world st') = faults V (ts_world st) \<and> (idle st \<longrightarrow> idle st')
     \<and> (writing addr port (b + 1) st \<longrightarrow> writing addr port (b + 1) st')
     \<and> (in_mode V m p f (ts_world st) \<longrightarrow> in_mode V m p f (ts_world st'))"
proof (induction k arbitrary: st)
  case 0
  then show ?case by simp
next
  case (Suc k)
  let ?ctx = "ctxt f_open f_close f_read f_write" and ?st0 = "st\<lparr>ts_last_pkt := ts_timer st, ts_retries := 0\<rparr>"
  have "\<exists>a q bs. tftp_recv alloc memfind ?ctx (data_pkt b d) addr port st = Some (udp_reply alloc a q bs ?st0)"
    using Suc.prems
    by (cases "ts_handle st") (auto simp: tftp_recv_def tftp_data_def writing_def idle_def send_ack_def send_error_def Let_def)
  then obtain a q bs where recv:
    "tftp_recv alloc memfind ?ctx (data_pkt b d) addr port st = Some (udp_reply alloc a q bs ?st0)" by blast
  let ?st1 = "udp_reply alloc a q bs ?st0"
  have st1: "faults V (ts_world ?st1) = faults V (ts_world st)" "idle st \<Longrightarrow> idle ?st1"
    "writing addr port (b + 1) st \<Longrightarrow> writing addr port (b + 1) ?st1"
    "in_mode V m p f (ts_world st) \<Longrightarrow> in_mode V m p f (ts_world ?st1)"
    using works_reply [OF assms, of _ _ _ ?st0] by (simp_all add: idle_def writing_def)
  have "writing addr port (b + 1) ?st1 \<or> idle ?st1" using Suc.prems st1(2,3) by blast
  from Suc.IH [OF this] recv st1 show ?case by auto
qed

lemma works_run_blocks:
  assumes "disk_contract alloc f_open f_close f_read f_write V" "disk_works alloc f_open f_close f_read f_write V fname cap"
    and "length last_block < 512"
  shows "writing addr port b st \<Longrightarrow> in_mode V FA_OPEN_ALWAYS_WRITE p f (ts_world st) \<Longrightarrow>
     list_all (\<lambda>(d, k). length d = 512) blocks \<Longrightarrow> p + length (concat (map fst blocks) @ last_block) \<le> cap \<Longrightarrow>
     \<exists>st'. tftp_run alloc memfind (ctxt f_open f_close f_read f_write) addr port
             (write_pkts b (blocks @ [(last_block, n)])) st = Some st'
     \<and> faults V (ts_world st') = f"
proof (induction blocks arbitrary: b p st)
  case Nil
  obtain st1 where 1: "tftp_recv alloc memfind (ctxt f_open f_close f_read f_write) (data_pkt b last_block) addr port st = Some st1"
    "faults V (ts_world st1) = f" "idle st1"
    using works_recv_block [OF assms(1,2) Nil.prems(1,2), of last_block memfind] assms(3) Nil.prems(4) by auto
  obtain st2 where "tftp_run alloc memfind (ctxt f_open f_close f_read f_write) addr port (replicate n (data_pkt b last_block)) st1 = Some st2"
    "faults V (ts_world st2) = faults V (ts_world st1)"
    using works_recv_duplicates [OF assms(1,2) disjI2 [OF 1(3)]] by blast
  with 1(1,2) show ?case by simp
next
  case (Cons dk blocks)
  obtain d k where dk: "dk = (d, k)" "length d = 512" using Cons.prems(3) by (cases dk) auto
  obtain st1 where 1: "tftp_recv alloc memfind (ctxt f_open f_close f_read f_write) (data_pkt b d) addr port st = Some st1"
    "writing addr port (b + 1) st1" "in_mode V FA_OPEN_ALWAYS_WRITE (p + length d) f (ts_world st1)"
    using works_recv_block [OF assms(1,2) Cons.prems(1,2), of d memfind] dk Cons.prems(4) by auto
  obtain st2 where 2: "tftp_run alloc memfind (ctxt f_open f_close f_read f_write) addr port (replicate k (data_pkt b d)) st1 = Some st2"
    "writing addr port (b + 1) st2" "in_mode V FA_OPEN_ALWAYS_WRITE (p + length d) f (ts_world st2)"
    using works_recv_duplicates [OF assms(1,2) disjI1 [OF 1(2)]] 1(2,3) by blast
  have "p + length d + length (concat (map fst blocks) @ last_block) \<le> cap" using Cons.prems(4) dk by simp
  from Cons.IH [OF 2(2,3) _ this] Cons.prems(3) 1(1) 2(1) dk show ?case by (simp add: tftp_run_append)
qed

lemma works_send_data:
  assumes "disk_contract alloc f_open f_close f_read f_write V" "disk_works alloc f_open f_close f_read f_write V fname cap"
    and "ts_handle st \<noteq> None" "in_mode V FA_OPEN_EXISTING_READ p f (ts_world st)"
  shows "\<exists>st'. send_data alloc (ctxt f_open f_close f_read f_write) st = Some st'
     \<and> in_mode V FA_OPEN_EXISTING_READ p f (ts_world st')"
proof -
  obtain h where h: "ts_handle st = Some h" using assms(3) by blast
  obtain ok w where a: "alloc (ts_world st) = (ok, w)" by fastforce
  have ok: "ok" using assms(2) a by (auto simp: disk_works_def dest: spec [of _ "ts_world st"])
  have w: "in_mode V FA_OPEN_EXISTING_READ p f w"
    using assms(4) ok disk_contract_calls(4) [OF assms(1) a] disk_contract_modes(3) [OF assms(1) a]
    by (simp add: in_mode_def others_kept_def)
  obtain res buf w' where r: "f_read 512 w = (res, buf, w')" by (metis prod.collapse)
  have "fst (f_read 512 w) = 0" using assms(2) w unfolding disk_works_def in_mode_def by simp
  then have res: "res = 0" using r by simp
  have w': "in_mode V FA_OPEN_EXISTING_READ p f w'"
    using w res disk_contract_calls(2) [OF assms(1) r] disk_contract_modes(2) [OF assms(1) r]
    by (simp add: in_mode_def others_kept_def)
  have "in_mode V FA_OPEN_EXISTING_READ p f (ts_world (udp_reply alloc x y z (st\<lparr>ts_last_data := l, ts_world := w'\<rparr>)))" for x y z l
    by (rule works_reply [OF assms(1,2)]) (simp add: w')
  then show ?thesis
    using h a ok r res by (simp add: send_data_def resend_data_def tftp_sdcard_read_def ctxt_def)
qed

lemma works_run_acks:
  assumes "disk_contract alloc f_open f_close f_read f_write V" "disk_works alloc f_open f_close f_read f_write V fname cap"
  shows "ts_handle st \<noteq> None \<longrightarrow> in_mode V FA_OPEN_EXISTING_READ p f (ts_world st) \<Longrightarrow> faults V (ts_world st) = f \<Longrightarrow>
     \<exists>st'. tftp_run alloc memfind (ctxt f_open f_close f_read f_write) addr port (ack_pkts b n) st = Some st'
     \<and> faults V (ts_world st') = f"
proof (induction n arbitrary: b st)
  case 0
  then show ?case by simp
next
  case (Suc n)
  let ?ctx = "ctxt f_open f_close f_read f_write" and ?st1 = "st\<lparr>ts_last_pkt := ts_timer st, ts_retries := 0\<rparr>"
  let ?good = "\<lambda>st'. (ts_handle st' \<noteq> None \<longrightarrow> in_mode V FA_OPEN_EXISTING_READ p f (ts_world st')) \<and> faults V (ts_world st') = f"
  have reply: "?good (udp_reply alloc x y z st)" "?good (udp_reply alloc x y z ?st1)" for x y z
    using works_reply [OF assms, of _ _ _ st] works_reply [OF assms, of _ _ _ ?st1] Suc.prems by simp_all
  have close: "?good (close_handle ?ctx ?st1)" if "ts_handle st \<noteq> None"
    using works_close_handle [OF assms, of _ p f ?st1] that Suc.prems(1) by simp
  have data: "\<exists>st'. send_data alloc ?ctx (?st1\<lparr>ts_blknum := x\<rparr>) = Some st' \<and> ?good st'" if "ts_handle st \<noteq> None" for x
    using works_send_data [OF assms, of "?st1\<lparr>ts_blknum := x\<rparr>" p f] that Suc.prems(1) by (auto simp: in_mode_def)
  have "\<exists>st'. tftp_recv alloc memfind ?ctx (ack_pkt b) addr port st = Some st' \<and> ?good st'"
    using reply close data by (auto simp: tftp_recv_def tftp_ack_def send_error_def Let_def)
  then obtain st2 where 2: "tftp_recv alloc memfind ?ctx (ack_pkt b) addr port st = Some st2" "?good st2" by blast
  from Suc.IH [OF conjunct1 [OF 2(2)] conjunct2 [OF 2(2)], of "b + 1"] 2(1) show ?case by simp
qed

lemma works_upload:
  assumes "disk_contract alloc f_open f_close f_read f_write V" "disk_works alloc f_open f_close f_read f_write V fname cap"
    and "memfind_finds memfind" "name_ok fname" "idle st" "list_all (\<lambda>(d, k). length d = 512) blocks" "length last_block < 512"
    and "length (concat (map fst blocks) @ last_block) \<le> cap"
    and "tftp_run alloc memfind (ctxt f_open f_close f_read f_write) addr port
           (req_pkt TFTP_WRQ fname # write_pkts 1 (blocks @ [(last_block, n)])) st = Some st'"
  shows "faults V (ts_world st') = faults V (ts_world st)"
proof -
  let ?ctx = "ctxt f_open f_close f_read f_write" and ?st1 = "st\<lparr>ts_last_pkt := ts_timer st, ts_retries := 0\<rparr>"
  obtain res d where d: "f_open fname FA_OPEN_ALWAYS_WRITE (ts_world st) = (res, d)" by fastforce
  have "fst (f_open fname FA_OPEN_ALWAYS_WRITE (ts_world st)) = 0" using assms(2) unfolding disk_works_def by simp
  then have res: "res = 0" using d by simp
  note opn = disk_contract_openD [OF assms(1) d]
  have mode: "in_mode V FA_OPEN_ALWAYS_WRITE 0 (faults V (ts_world st)) d"
    using opn(4) opn(6,7) [OF res] res by (auto simp: in_mode_def)
  let ?st2 = "?st1\<lparr>ts_timers := ts_timers st + 1, ts_handle := Some (), ts_blknum := 1, ts_world := d,
                  ts_addr := addr, ts_port := port, ts_mode_write := 1\<rparr>"
  have "ctx_open ?ctx fname (str ''octet'') True (ts_world ?st1) = (Some (), d)"
    using d res by (simp add: ctxt_def tftp_sdcard_open_def)
  then have recv: "tftp_recv alloc memfind ?ctx (req_pkt TFTP_WRQ fname) addr port st = Some (send_ack alloc 0 ?st2)"
    using tftp_recv_req [OF assms(5), of TFTP_WRQ alloc memfind ?ctx fname addr port]
      tftp_request_opens [OF assms(3,4), of ?st1 ?ctx True] assms(5)
    by (simp add: idle_def Let_def)
  have "in_mode V FA_OPEN_ALWAYS_WRITE 0 (faults V (ts_world st)) (ts_world (send_ack alloc 0 ?st2))"
    unfolding send_ack_def by (rule works_reply [OF assms(1,2)]) (simp add: mode)
  moreover have "writing addr port 1 (send_ack alloc 0 ?st2)" by (simp add: writing_def send_ack_def)
  ultimately show ?thesis
    using works_run_blocks [OF assms(1,2,7) _ _ assms(6), of addr port 1 "send_ack alloc 0 ?st2" 0 _ memfind n] assms(8,9) recv
    by (auto simp del: length_append)
qed

lemma works_download:
  assumes "disk_contract alloc f_open f_close f_read f_write V" "disk_works alloc f_open f_close f_read f_write V fname cap"
    and "memfind_finds memfind" "name_ok fname" "idle st" "entry V (ts_world st) fname \<noteq> None"
    and "tftp_run alloc memfind (ctxt f_open f_close f_read f_write) addr port (req_pkt TFTP_RRQ fname # ack_pkts 1 n) st = Some st'"
  shows "faults V (ts_world st') = faults V (ts_world st)"
proof -
  let ?ctx = "ctxt f_open f_close f_read f_write" and ?st1 = "st\<lparr>ts_last_pkt := ts_timer st, ts_retries := 0\<rparr>"
  let ?f = "faults V (ts_world st)"
  obtain res d where d: "f_open fname FA_OPEN_EXISTING_READ (ts_world st) = (res, d)" by fastforce
  have "fst (f_open fname FA_OPEN_EXISTING_READ (ts_world st)) = 0" using assms(2,6) unfolding disk_works_def by simp
  then have res: "res = 0" using d by simp
  note opn = disk_contract_openD [OF assms(1) d]
  have mode: "in_mode V FA_OPEN_EXISTING_READ 0 ?f d" using opn(4) opn(6,7) [OF res] res by (auto simp: in_mode_def)
  let ?st2 = "?st1\<lparr>ts_timers := ts_timers st + 1, ts_handle := Some (), ts_blknum := 1, ts_world := d,
                  ts_addr := addr, ts_port := port, ts_mode_write := 0\<rparr>"
  have "ctx_open ?ctx fname (str ''octet'') False (ts_world ?st1) = (Some (), d)"
    using d res by (simp add: ctxt_def tftp_sdcard_open_def)
  then have recv: "tftp_recv alloc memfind ?ctx (req_pkt TFTP_RRQ fname) addr port st = send_data alloc ?ctx ?st2"
    using tftp_recv_req [OF assms(5), of TFTP_RRQ alloc memfind ?ctx fname addr port]
      tftp_request_opens [OF assms(3,4), of ?st1 ?ctx False] assms(5)
    by (simp add: idle_def Let_def)
  obtain st3 where 3: "send_data alloc ?ctx ?st2 = Some st3" "in_mode V FA_OPEN_EXISTING_READ 0 ?f (ts_world st3)"
    using works_send_data [OF assms(1,2), of ?st2 0 ?f] mode by auto
  have "faults V (ts_world st3) = ?f" using 3(2) by (simp add: in_mode_def)
  with works_run_acks [OF assms(1,2) impI [OF 3(2)], of memfind addr port 1 n] recv 3(1) assms(7) show ?thesis by auto
qed

section \<open>Whole transfers\<close>

lemma tftp_upload:
  assumes "disk_contract alloc f_open f_close f_read f_write V" "memfind_finds memfind" "name_ok fname"
    and "idle st" "list_all (\<lambda>(d, k). length d = 512) blocks" "length last_block < 512"
  shows "\<exists>st'. tftp_run alloc memfind (ctxt f_open f_close f_read f_write) addr port
             (req_pkt TFTP_WRQ fname # write_pkts 1 (blocks @ [(last_block, n)])) st = Some st'
     \<and> idle st' \<and> faults V (ts_world st) \<le> faults V (ts_world st')
     \<and> (\<forall>k \<in> dom (files V (ts_world st)). entry V (ts_world st) fname \<noteq> Some k \<longrightarrow>
          files V (ts_world st') k = files V (ts_world st) k)
     \<and> (\<forall>x k. entry V (ts_world st) x = Some k \<longrightarrow> entry V (ts_world st') x = Some k)
     \<and> (faults V (ts_world st') = faults V (ts_world st) \<longrightarrow>
          disk_lookup V (ts_world st') fname =
            Some (overwrite (disk_lookup V (ts_world st) fname) (concat (map fst blocks) @ last_block)))"
proof -
  let ?ctx = "ctxt f_open f_close f_read f_write" and ?data = "concat (map fst blocks) @ last_block" and ?w = "ts_world st"
  let ?pkts = "write_pkts 1 (blocks @ [(last_block, n)])"
  note rel = disk_write_may_fail [OF assms(1)]
  obtain res d where d: "f_open fname FA_OPEN_ALWAYS_WRITE ?w = (res, d)" by fastforce
  note opn = disk_contract_openD [OF assms(1) d]
  let ?st1 = "st\<lparr>ts_last_pkt := ts_timer st, ts_retries := 0\<rparr>"
  have req: "tftp_recv alloc memfind ?ctx (req_pkt TFTP_WRQ fname) addr port st =
      tftp_request alloc memfind ?ctx (req_pkt TFTP_WRQ fname) addr port True ?st1"
    using tftp_recv_req [OF assms(4), of TFTP_WRQ] by simp
  show ?thesis
  proof (cases "res = 0")
    case False
    let ?st2 = "?st1\<lparr>ts_timers := ts_timers st + 1, ts_handle := None, ts_blknum := 1, ts_world := d\<rparr>"
    let ?st3 = "send_error alloc addr port TFTP_ERROR_FILE_NOT_FOUND ''Unable to open requested file.'' ?st2"
    have "ctx_open ?ctx fname (str ''octet'') True (ts_world ?st1) = (None, d)"
      using d False by (simp add: ctxt_def tftp_sdcard_open_def)
    then have recv: "tftp_recv alloc memfind ?ctx (req_pkt TFTP_WRQ fname) addr port st = Some ?st3"
      using req tftp_request_opens [OF assms(2,3), of ?st1 ?ctx True] assms(4) by (simp add: idle_def Let_def)
    have idle: "idle ?st3" using assms(4) by (simp add: idle_def send_error_def)
    have reply: "others_kept V d (ts_world ?st3)"
      using kept_udp_reply [OF assms(1), of ?st2] by (simp add: send_error_def)
    obtain st' where st': "tftp_run alloc memfind ?ctx addr port ?pkts ?st3 = Some st'"
      "disk_wrote V (ts_world ?st3) [] (ts_world st')" "idle st'"
      using tftp_run_no_transfer [OF rel TrueI idle] by blast
    have kept: "others_kept V d (ts_world st')"
      by (rule others_kept_trans [OF reply disk_wrote_kept [OF st'(2)]])
    then have "files V (ts_world st') = files V d" "faults V d \<le> faults V (ts_world st')"
      "\<And>x k. entry V d x = Some k \<Longrightarrow> entry V (ts_world st') x = Some k"
      using opn(5) False by (auto simp: others_kept_def)
    with st'(1,3) recv opn(1,2,4) False show ?thesis by simp
  next
    case True
    obtain k where k: "cur V d = Some k" "entry V d fname = Some k" "pos V d = 0"
      "entry V ?w fname = Some k \<or> entry V ?w fname = None \<and> k \<notin> dom (files V ?w)"
      "files V d k = Some (case disk_lookup V ?w fname of None \<Rightarrow> [] | Some c \<Rightarrow> c)"
      using opn(7) [OF True] by blast
    let ?st2 = "?st1\<lparr>ts_timers := ts_timers st + 1, ts_handle := Some (), ts_blknum := 1, ts_world := d,
                    ts_addr := addr, ts_port := port, ts_mode_write := 1\<rparr>"
    have "ctx_open ?ctx fname (str ''octet'') True (ts_world ?st1) = (Some (), d)"
      using d True by (simp add: ctxt_def tftp_sdcard_open_def)
    then have recv: "tftp_recv alloc memfind ?ctx (req_pkt TFTP_WRQ fname) addr port st = Some (send_ack alloc 0 ?st2)"
      using req tftp_request_opens [OF assms(2,3), of ?st1 ?ctx True] assms(4) by (simp add: idle_def Let_def)
    have ack: "disk_wrote V d [] (ts_world (send_ack alloc 0 ?st2))"
      using wrote_udp_reply [OF rel TrueI, of ?st2] by (simp add: send_ack_def)
    have "writing addr port 1 (send_ack alloc 0 ?st2)" by (simp add: writing_def send_ack_def)
    then obtain st' where st': "tftp_run alloc memfind ?ctx addr port ?pkts (send_ack alloc 0 ?st2) = Some st'"
      "disk_wrote V (ts_world (send_ack alloc 0 ?st2)) ?data (ts_world st')" "idle st'"
      using tftp_run_blocks [OF rel TrueI _ assms(5,6)] by blast
    have wrote: "disk_wrote V d ?data (ts_world st')"
      using disk_wrote_trans [OF ack st'(2)] by simp
    note kept = disk_wrote_kept [OF wrote]
    have others: "files V (ts_world st') x = files V ?w x" if "x \<in> dom (files V ?w)" "entry V ?w fname \<noteq> Some x" for x
    proof -
      have "cur V d \<noteq> Some x" using k(1,4) that by auto
      with kept opn(2) [OF that] show ?thesis by (simp add: others_kept_def)
    qed
    have names: "entry V (ts_world st') x = Some j" if "entry V ?w x = Some j" for x j
      using kept opn(1) [OF that] by (simp add: others_kept_def)
    have same: "disk_lookup V (ts_world st') fname = Some (overwrite (disk_lookup V ?w fname) ?data)"
      if "faults V (ts_world st') = faults V ?w"
    proof -
      have "faults V (ts_world st') = faults V d" using that opn(4) True by simp
      then have "files V (ts_world st') k = Some (overwrite (disk_lookup V ?w fname) ?data)"
        using wrote k(1,3,5) by (simp add: disk_wrote_def overwrite_def)
      moreover have "entry V (ts_world st') fname = Some k" using kept k(2) by (simp add: others_kept_def)
      ultimately show ?thesis by (simp add: disk_lookup_def)
    qed
    have "faults V ?w \<le> faults V (ts_world st')" using kept opn(4) True by (simp add: others_kept_def)
    with recv st'(1,3) others names same show ?thesis by auto
  qed
qed

lemma tftp_download:
  assumes "disk_contract alloc f_open f_close f_read f_write V" "memfind_finds memfind" "name_ok fname" "idle st"
  shows "\<exists>st'. tftp_run alloc memfind (ctxt f_open f_close f_read f_write) addr port
             (req_pkt TFTP_RRQ fname # ack_pkts 1 (length (chunks c))) st = Some st'
     \<and> faults V (ts_world st) \<le> faults V (ts_world st')
     \<and> (\<forall>k. entry V (ts_world st) fname \<noteq> Some k \<longrightarrow> files V (ts_world st') k = files V (ts_world st) k)
     \<and> (faults V (ts_world st') = faults V (ts_world st) \<longrightarrow> disk_lookup V (ts_world st) fname = Some c \<longrightarrow>
          ts_out st' = ts_out st @ data_pkts addr port 1 (chunks c) \<and> idle st')"
proof -
  let ?ctx = "ctxt f_open f_close f_read f_write" and ?w = "ts_world st"
  obtain res d where d: "f_open fname FA_OPEN_EXISTING_READ ?w = (res, d)" by fastforce
  note opn = disk_contract_openD [OF assms(1) d]
  let ?st1 = "st\<lparr>ts_last_pkt := ts_timer st, ts_retries := 0\<rparr>"
  have req: "tftp_recv alloc memfind ?ctx (req_pkt TFTP_RRQ fname) addr port st =
      tftp_request alloc memfind ?ctx (req_pkt TFTP_RRQ fname) addr port False ?st1"
    using tftp_recv_req [OF assms(4), of TFTP_RRQ] by simp
  show ?thesis
  proof (cases "res = 0")
    case False
    let ?st2 = "?st1\<lparr>ts_timers := ts_timers st + 1, ts_handle := None, ts_blknum := 1, ts_world := d\<rparr>"
    let ?st3 = "send_error alloc addr port TFTP_ERROR_FILE_NOT_FOUND ''Unable to open requested file.'' ?st2"
    have "ctx_open ?ctx fname (str ''octet'') False (ts_world ?st1) = (None, d)"
      using d False by (simp add: ctxt_def tftp_sdcard_open_def)
    then have recv: "tftp_recv alloc memfind ?ctx (req_pkt TFTP_RRQ fname) addr port st = Some ?st3"
      using req tftp_request_opens [OF assms(2,3), of ?st1 ?ctx False] assms(4) by (simp add: idle_def Let_def)
    obtain st' where st': "tftp_run alloc memfind ?ctx addr port (ack_pkts 1 (length (chunks c))) ?st3 = Some st'"
      "others_kept V (ts_world ?st3) (ts_world st')"
      using kept_run_acks [OF assms(1)] by blast
    have "others_kept V d (ts_world ?st3)"
      using kept_udp_reply [OF assms(1), of ?st2] by (simp add: send_error_def)
    then have "others_kept V d (ts_world st')" using st'(2) by (rule others_kept_trans)
    then have "files V (ts_world st') = files V d" "faults V d \<le> faults V (ts_world st')"
      using opn(5) False by (auto simp: others_kept_def)
    with recv st'(1) opn(3,4) False show ?thesis by simp
  next
    case True
    obtain k where k: "cur V d = Some k" "pos V d = 0" "entry V ?w fname = Some k"
      "files V d k = Some (case disk_lookup V ?w fname of None \<Rightarrow> [] | Some c \<Rightarrow> c)"
      using opn(7) [OF True] by auto
    let ?st2 = "?st1\<lparr>ts_timers := ts_timers st + 1, ts_handle := Some (), ts_blknum := 1, ts_world := d,
                    ts_addr := addr, ts_port := port, ts_mode_write := 0\<rparr>"
    have "ctx_open ?ctx fname (str ''octet'') False (ts_world ?st1) = (Some (), d)"
      using d True by (simp add: ctxt_def tftp_sdcard_open_def)
    then have recv: "tftp_recv alloc memfind ?ctx (req_pkt TFTP_RRQ fname) addr port st = send_data alloc ?ctx ?st2"
      using req tftp_request_opens [OF assms(2,3), of ?st1 ?ctx False] assms(4) by (simp add: idle_def Let_def)
    obtain st3 where st3: "send_data alloc ?ctx ?st2 = Some st3" "others_kept V d (ts_world st3)"
      using kept_send_data [OF assms(1), of ?st2] by auto
    obtain st' where st': "tftp_run alloc memfind ?ctx addr port (ack_pkts 1 (length (chunks c))) st3 = Some st'"
      "others_kept V (ts_world st3) (ts_world st')"
      using kept_run_acks [OF assms(1)] by blast
    have kept: "others_kept V d (ts_world st')" using st3(2) st'(2) by (rule others_kept_trans)
    have others: "files V (ts_world st') x = files V ?w x" if "entry V ?w fname \<noteq> Some x" for x
      using kept that k(1,3) opn(3) by (simp add: others_kept_def)
    have exact: "ts_out st' = ts_out st @ data_pkts addr port 1 (chunks c) \<and> idle st'"
      if faults: "faults V (ts_world st') = faults V ?w" and c: "disk_lookup V ?w fname = Some c"
    proof -
      have f: "faults V (ts_world st3) = faults V (ts_world ?st2)" "faults V (ts_world st') = faults V (ts_world st3)"
        using faults opn(4) True st3(2) st'(2) by (simp_all add: others_kept_def)
      have r2: "reading addr port 1 ?st2" "opened V (ts_world ?st2) c"
        using k c by (simp_all add: reading_def opened_def)
      note first = send_data_opened [OF assms(1) r2 st3(1) f(1)]
      obtain cs where cs: "chunks c = take 512 c # cs" "concat cs = drop 512 c"
        by (rule chunks_Cons)
      have "ts_out st' = ts_out st3 @ data_pkts addr port (1 + 1) cs \<and> idle st'"
        using run_acks_opened [OF assms(1) first(1) _ first(4) cs(1) _ f(2)] first(2) cs st'(1) by simp
      with first(3) cs(1) show ?thesis by simp
    qed
    have "faults V ?w \<le> faults V (ts_world st')" using kept opn(4) True by (simp add: others_kept_def)
    with recv st3(1) st'(1) others exact show ?thesis by auto
  qed
qed

text \<open>
  C17. A file survives the card: a client writes a file with a request and its blocks, any block sent any
  number of times, and a client reads it back with a request and acknowledgements. Whatever fails on the way, the server comes to no
  undefined behaviour, is idle again after the first transfer, every existing file of another directory entry than the
  one the name is looked up to keeps its contents, and every existing name its entry. If during the first transfer no call of the card reported an error or wrote
  less than it should and no memory ran out, the file holds what was
  written, followed, when it existed before and was longer, by the rest of the old contents; and if
  nothing failed during the second either, it sent exactly the blocks of the file and left the server idle. On a card that works,
  with room for the file, nothing fails in either.
\<close>

theorem tftp_upload_download:
  assumes "disk_contract alloc f_open f_close f_read f_write V" "memfind_finds memfind" "name_ok fname"
    and "idle st" "list_all (\<lambda>(d, k). length d = 512) blocks" "length last_block < 512"
    and "data = concat (map fst blocks) @ last_block" "new = overwrite (disk_lookup V (ts_world st) fname) data"
  shows "\<exists>st1 st2. tftp_run alloc memfind (ctxt f_open f_close f_read f_write) addr port
             (req_pkt TFTP_WRQ fname # write_pkts 1 (blocks @ [(last_block, n)])) st = Some st1
     \<and> tftp_run alloc memfind (ctxt f_open f_close f_read f_write) addr' port'
             (req_pkt TFTP_RRQ fname # ack_pkts 1 (length (chunks new))) st1 = Some st2
     \<and> idle st1
     \<and> (\<forall>x k. entry V (ts_world st) x = Some k \<longrightarrow> entry V (ts_world st1) x = Some k)
     \<and> (\<forall>k \<in> dom (files V (ts_world st)). entry V (ts_world st) fname \<noteq> Some k \<longrightarrow>
          files V (ts_world st1) k = files V (ts_world st) k)
     \<and> (\<forall>k. entry V (ts_world st1) fname \<noteq> Some k \<longrightarrow> files V (ts_world st2) k = files V (ts_world st1) k)
     \<and> (faults V (ts_world st1) = faults V (ts_world st) \<longrightarrow>
          disk_lookup V (ts_world st1) fname = Some new \<and> take (length data) new = data
          \<and> (disk_lookup V (ts_world st) fname = None \<longrightarrow> new = data))
     \<and> (faults V (ts_world st2) = faults V (ts_world st) \<longrightarrow>
          ts_out st2 = ts_out st1 @ data_pkts addr' port' 1 (chunks new) \<and> concat (chunks new) = new \<and> idle st2)
     \<and> (disk_works alloc f_open f_close f_read f_write V fname (length data) \<longrightarrow>
          faults V (ts_world st1) = faults V (ts_world st) \<and> faults V (ts_world st2) = faults V (ts_world st))"
proof -
  obtain st1 where 1: "tftp_run alloc memfind (ctxt f_open f_close f_read f_write) addr port
      (req_pkt TFTP_WRQ fname # write_pkts 1 (blocks @ [(last_block, n)])) st = Some st1" "idle st1"
    "faults V (ts_world st) \<le> faults V (ts_world st1)"
    "\<forall>k \<in> dom (files V (ts_world st)). entry V (ts_world st) fname \<noteq> Some k \<longrightarrow>
          files V (ts_world st1) k = files V (ts_world st) k"
    "\<forall>x k. entry V (ts_world st) x = Some k \<longrightarrow> entry V (ts_world st1) x = Some k"
    "faults V (ts_world st1) = faults V (ts_world st) \<longrightarrow> disk_lookup V (ts_world st1) fname = Some new"
    using tftp_upload [OF assms(1-6), of addr port n] assms(7,8) by blast
  obtain st2 where 2: "tftp_run alloc memfind (ctxt f_open f_close f_read f_write) addr' port'
      (req_pkt TFTP_RRQ fname # ack_pkts 1 (length (chunks new))) st1 = Some st2"
    "faults V (ts_world st1) \<le> faults V (ts_world st2)"
    "\<forall>k. entry V (ts_world st1) fname \<noteq> Some k \<longrightarrow> files V (ts_world st2) k = files V (ts_world st1) k"
    "faults V (ts_world st2) = faults V (ts_world st1) \<longrightarrow> disk_lookup V (ts_world st1) fname = Some new \<longrightarrow>
       ts_out st2 = ts_out st1 @ data_pkts addr' port' 1 (chunks new) \<and> idle st2"
    using tftp_download [OF assms(1-3) 1(2), of addr' port' new] by blast
  have new: "take (length data) new = data" "disk_lookup V (ts_world st) fname = None \<longrightarrow> new = data"
    unfolding assms(8) by (simp_all add: overwrite_def)
  have exact: "ts_out st2 = ts_out st1 @ data_pkts addr' port' 1 (chunks new) \<and> concat (chunks new) = new \<and> idle st2"
    if "faults V (ts_world st2) = faults V (ts_world st)"
  proof -
    have "faults V (ts_world st2) = faults V (ts_world st1)" "faults V (ts_world st1) = faults V (ts_world st)"
      using that 1(3) 2(2) by simp_all
    with 1(6) 2(4) concat_chunks show ?thesis by blast
  qed
  have works: "faults V (ts_world st1) = faults V (ts_world st)" "faults V (ts_world st2) = faults V (ts_world st)"
    if w: "disk_works alloc f_open f_close f_read f_write V fname (length data)"
  proof -
    show f1: "faults V (ts_world st1) = faults V (ts_world st)"
      by (rule works_upload [OF assms(1) w assms(2-6) _ 1(1)]) (simp add: assms(7))
    then have "entry V (ts_world st1) fname \<noteq> None"
      using 1(6) by (auto simp: disk_lookup_def split: option.splits)
    from works_download [OF assms(1) w assms(2,3) 1(2) this 2(1)] f1
    show "faults V (ts_world st2) = faults V (ts_world st)" by simp
  qed
  show ?thesis
    by (rule exI [of _ st1], rule exI [of _ st2], intro conjI impI)
      (use 1 2(1,3) new exact works in blast)+
qed

text \<open>
  A card of 4096 bytes a file, for evaluation. The entry of a name is the name with its letters in upper case; a file that would grow
  beyond the limit is written up to it. A name that starts with a space cannot be opened.
\<close>

record card =
  card_files :: "bytes \<Rightarrow> bytes option"
  card_cur :: "bytes option"
  card_pos :: nat
  card_how :: "fa_mode option"
  card_faults :: nat

definition upper :: "bytes \<Rightarrow> bytes" where
  "upper = map (\<lambda>b. if 97 \<le> b \<and> b \<le> 122 then b - 32 else b)"

definition card_entry :: "card \<Rightarrow> bytes \<Rightarrow> bytes option" where
  "card_entry d n = (if card_files d (upper n) = None then None else Some (upper n))"

definition card_view :: "(card, bytes) disk_view" where
  "card_view = \<lparr>entry = card_entry, files = card_files, cur = card_cur, pos = card_pos, how = card_how,
     faults = card_faults\<rparr>"

definition card_fail :: "card \<Rightarrow> card" where
  "card_fail d = d\<lparr>card_faults := card_faults d + 1\<rparr>"

definition card_open :: "card f_open_fn" where
  "card_open n m d =
     (case (card_files d (upper n), m) of
        (None, FA_OPEN_EXISTING_READ) \<Rightarrow> (4, card_fail d\<lparr>card_cur := None, card_how := None\<rparr>)
      | (old, _) \<Rightarrow>
          if n = [] \<or> hd n = 32 then (6, card_fail d\<lparr>card_cur := None, card_how := None\<rparr>)
          else (0, d\<lparr>card_files := (card_files d)(upper n \<mapsto> (case old of None \<Rightarrow> [] | Some c \<Rightarrow> c)),
                      card_cur := Some (upper n), card_pos := 0, card_how := Some m\<rparr>))"

definition card_write :: "card f_write_fn" where
  "card_write b d =
     (case card_cur d of
        None \<Rightarrow> (9, 0, card_fail d)
      | Some k \<Rightarrow>
          if card_how d \<noteq> Some FA_OPEN_ALWAYS_WRITE then (7, 0, card_fail d)
          else (let c = (case card_files d k of None \<Rightarrow> [] | Some c \<Rightarrow> c); p = card_pos d; room = 4096 - p;
               d' = d\<lparr>card_files := (card_files d)(k \<mapsto> take p c @ take room b @ drop (p + length b) c), card_pos := p + length b\<rparr>
           in if length b \<le> room then (0, length b, d') else (0, room, card_fail d')))"

definition card_read :: "card f_read_fn" where
  "card_read n d =
     (case card_cur d of
        None \<Rightarrow> (9, [], card_fail d)
      | Some k \<Rightarrow>
          if card_how d \<noteq> Some FA_OPEN_EXISTING_READ then (7, [], card_fail d)
          else (let c = (case card_files d k of None \<Rightarrow> [] | Some c \<Rightarrow> c); p = card_pos d
           in (0, take n (drop p c), d\<lparr>card_pos := min (length c) (p + n)\<rparr>)))"

definition card_close :: "card f_close_fn" where
  "card_close d = (if card_how d = None then (9, card_fail d) else (0, d\<lparr>card_how := None\<rparr>))"

lemma card_contract: "disk_contract (\<lambda>d. (True, d)) card_open card_close card_read card_write card_view"
  unfolding disk_contract_def
proof (intro conjI)
  show "open_contract card_open card_view"
    by (auto simp: open_contract_def card_open_def card_view_def card_entry_def card_fail_def disk_lookup_def
        split: option.splits fa_mode.splits if_splits)
  show "write_contract_disk card_write card_view"
    by (auto simp: write_contract_disk_def others_kept_def card_write_def card_view_def card_entry_def card_fail_def Let_def
        split: option.splits if_splits)
  show "read_contract_disk card_read card_view"
    by (auto simp: read_contract_disk_def others_kept_def card_read_def card_view_def card_entry_def card_fail_def Let_def
        split: option.splits)
  show "close_contract_disk card_close card_view"
    by (auto simp: close_contract_disk_def others_kept_def card_close_def card_view_def card_entry_def card_fail_def split: if_splits)
  show "alloc_contract_disk (\<lambda>d. (True, d)) card_view"
    by (simp add: alloc_contract_disk_def others_kept_refl)
qed

lemma demo_memfind_finds: "memfind_finds demo_memfind"
proof -
  have "takeWhile (\<lambda>x. x \<noteq> b) (mid @ b # rest) = mid" if "b \<notin> set mid" for b :: u8 and mid rest
    using that by (induction mid) auto
  then show ?thesis by (simp add: memfind_finds_def demo_memfind_def Let_def)
qed

text \<open>The card works for files up to its limit.\<close>

lemma card_works:
  assumes "fname \<noteq> []" "hd fname \<noteq> 32" "cap \<le> 4096"
  shows "disk_works (\<lambda>d. (True, d)) card_open card_close card_read card_write card_view fname cap"
  unfolding disk_works_def
proof (intro conjI allI impI)
  fix m d
  assume "m = FA_OPEN_ALWAYS_WRITE \<or> entry card_view d fname \<noteq> None"
  then show "fst (card_open fname m d) = 0"
    using assms(1,2) by (cases m) (auto simp: card_open_def card_view_def card_entry_def split: option.splits if_splits)
next
  fix b :: bytes and d
  assume "cur card_view d \<noteq> None \<and> how card_view d = Some FA_OPEN_ALWAYS_WRITE \<and> pos card_view d + length b \<le> cap"
  then show "\<exists>d'. card_write b d = (0, length b, d')"
    using assms(3) by (auto simp: card_write_def card_view_def Let_def)
qed (auto simp: card_close_def card_read_def card_view_def Let_def)

text \<open>Writing the file \<open>net\<close> of three bytes over \<open>NET\<close> of four, and reading it.\<close>

definition demo_card :: "bytes \<Rightarrow> card" where
  "demo_card c = \<lparr>card_files = [str ''NET'' \<mapsto> c], card_cur = None, card_pos = 0, card_how = None, card_faults = 0\<rparr>"

lemma demo_name_ok: "name_ok (str ''net'')" "str ''net'' \<noteq> []" "hd (str ''net'') \<noteq> 32"
  by (simp_all add: str_def name_ok_def)

theorem tftp_upload_download_witness:
  "\<exists>st1 st2 :: (unit, card) tftp_state.
     tftp_run (\<lambda>d. (True, d)) demo_memfind (ctxt card_open card_close card_read card_write) 9 1069
       (req_pkt 2 (str ''net'') # write_pkts 1 ([] @ [([1, 2, 3], 1)])) (tftp_zero (demo_card [9, 9, 9, 8])) = Some st1
     \<and> disk_lookup card_view (ts_world st1) (str ''net'') = Some [1, 2, 3, 8]
     \<and> tftp_run (\<lambda>d. (True, d)) demo_memfind (ctxt card_open card_close card_read card_write) 7 1070
         (req_pkt 1 (str ''net'') # ack_pkts 1 1) st1 = Some st2
     \<and> ts_out st2 = ts_out st1 @ [(7, 1070, [0, 3, 0, 1, 1, 2, 3, 8])]"
proof -
  let ?st = "tftp_zero (demo_card [9, 9, 9, 8]) :: (unit, card) tftp_state"
  have 1: "idle ?st" by (simp add: idle_def tftp_zero_def)
  have 2: "[1, 2, 3] = concat (map fst []) @ [1, 2, 3 :: u8]" by simp
  have 3: "[1, 2, 3, 8] = overwrite (disk_lookup card_view (ts_world ?st) (str ''net'')) [1, 2, 3]"
    by (simp add: tftp_zero_def disk_lookup_def card_view_def card_entry_def demo_card_def overwrite_def upper_def str_def)
  have 4: "chunks [1, 2, 3, 8] = [[1, 2, 3, 8]]" by (simp add: chunks.simps)
  have 5: "length ([1, 2, 3] :: bytes) < 512" by simp
  have 6: "list_all (\<lambda>(d :: bytes, k :: nat). length d = 512) []" by simp
  have works: "disk_works (\<lambda>d. (True, d)) card_open card_close card_read card_write card_view (str ''net'') (length [1, 2, 3 :: u8])"
    by (rule card_works [OF demo_name_ok(2,3)]) simp
  have len: "length (chunks [1, 2, 3, 8]) = 1" unfolding 4 by simp
  have pkts: "data_pkts 7 1070 1 (chunks [1, 2, 3, 8]) = [(7, 1070, [0, 3, 0, 1, 1, 2, 3, 8])]"
    unfolding 4 by (simp add: data_pkt_def be16_bytes)
  from tftp_upload_download [OF card_contract demo_memfind_finds demo_name_ok(1) 1 6 5 2 3,
      where addr = 9 and port = 1069 and n = 1 and addr' = 7 and port' = 1070, unfolded len pkts] works
  show ?thesis by blast
qed

end
