(* ===== verification/Tftp_Events.thy ===== *)
theory Tftp_Events
  imports Tftp
begin

text \<open>
  Transfers in company: \<open>tftp_server.c\<close> when the datagrams of the client are interleaved with those of strangers and with calls
  of the timer. As long as the client answers within ten timer calls, a transfer is the one described in
  \<open>Tftp\<close>, where only the client acts.
\<close>

section \<open>Definitions\<close>

text \<open>What lwIP calls the server with: a datagram and its sender, or the end of the timer's period.\<close>

datatype tftp_event = Datagram pbuf u32 u16 | Tick

fun tftp_events ::
  "('f \<Rightarrow> bool \<times> 'f) \<Rightarrow> memfind_fn \<Rightarrow> ('hd, 'f) tftp_context \<Rightarrow> tftp_event list \<Rightarrow>
     ('hd, 'f) tftp_state \<Rightarrow> ('hd, 'f) tftp_state option" where
  "tftp_events alloc memfind ctx [] st = Some st"
| "tftp_events alloc memfind ctx (Datagram p addr port # evs) st =
     (case tftp_recv alloc memfind ctx p addr port st of
        None \<Rightarrow> None
      | Some st' \<Rightarrow> tftp_events alloc memfind ctx evs st')"
| "tftp_events alloc memfind ctx (Tick # evs) st =
     (case tftp_tmr alloc ctx st of
        None \<Rightarrow> None
      | Some st' \<Rightarrow> tftp_events alloc memfind ctx evs st')"

text \<open>The datagrams of a client, and that never more than ten timer calls pass without one, after \<open>n\<close> have passed.\<close>

fun sent_by :: "u32 \<Rightarrow> u16 \<Rightarrow> tftp_event list \<Rightarrow> pbuf list" where
  "sent_by addr port [] = []"
| "sent_by addr port (Datagram p a q # evs) =
     (if a = addr \<and> q = port then p # sent_by addr port evs else sent_by addr port evs)"
| "sent_by addr port (Tick # evs) = sent_by addr port evs"

fun prompt :: "u32 \<Rightarrow> u16 \<Rightarrow> int \<Rightarrow> tftp_event list \<Rightarrow> bool" where
  "prompt addr port n [] \<longleftrightarrow> True"
| "prompt addr port n (Datagram p a q # evs) \<longleftrightarrow> prompt addr port (if a = addr \<and> q = port then 0 else n) evs"
| "prompt addr port n (Tick # evs) \<longleftrightarrow> n < TFTP_TIMEOUT_TICKS \<and> prompt addr port (n + 1) evs"

text \<open>The datagrams sent to a client.\<close>

definition sent_to :: "u32 \<Rightarrow> u16 \<Rightarrow> ('hd, 'f) tftp_state \<Rightarrow> (u32 \<times> u16 \<times> bytes) list" where
  "sent_to addr port st = filter (\<lambda>(a, q, d). a = addr \<and> q = port) (ts_out st)"

lemma tftp_events_append:
  "tftp_events alloc memfind ctx (evs @ evs') st =
     (case tftp_events alloc memfind ctx evs st of
        None \<Rightarrow> None
      | Some st' \<Rightarrow> tftp_events alloc memfind ctx evs' st')"
proof (induction evs arbitrary: st)
  case (Cons e evs)
  then show ?case by (cases e) (simp_all split: option.split)
qed simp

section \<open>Strangers and the timer\<close>

text \<open>What other peers and the timer leave alone of an open transfer.\<close>

definition same_transfer :: "u32 \<Rightarrow> u16 \<Rightarrow> ('hd, 'f) tftp_state \<Rightarrow> ('hd, 'f) tftp_state \<Rightarrow> bool" where
  "same_transfer addr port st st' \<longleftrightarrow>
     ts_handle st' = ts_handle st \<and> ts_addr st' = ts_addr st \<and> ts_port st' = ts_port st \<and> ts_blknum st' = ts_blknum st
     \<and> ts_mode_write st' = ts_mode_write st \<and> ts_last_data st' = ts_last_data st \<and> sent_to addr port st' = sent_to addr port st"

lemma same_transferD:
  assumes "same_transfer addr port st st'"
  shows "writing a q b st \<Longrightarrow> writing a q b st'" "reading a q b st \<Longrightarrow> reading a q b st'"
    "ts_last_data st' = ts_last_data st" "sent_to addr port st' = sent_to addr port st"
  using assms by (auto simp: same_transfer_def writing_def reading_def)

lemma tftp_recv_stranger:
  assumes "ts_addr st = addr" "ts_port st = port" "addr \<noteq> 0" "port \<noteq> 0" "\<not> (a = addr \<and> q = port)"
  shows "\<exists>st'. tftp_recv alloc memfind ctx p a q st = Some st' \<and> same_transfer addr port st st'
     \<and> ts_timer st' = ts_timer st \<and> ts_last_pkt st' = ts_last_pkt st \<and> ts_world st' = snd (alloc (ts_world st))"
  using assms
  by (auto simp: tftp_recv_def send_error_def udp_reply_def same_transfer_def sent_to_def split: prod.split)

lemma tftp_tmr_waits:
  assumes "ts_handle st \<noteq> None" "ts_timer st - ts_last_pkt st < 10"
  shows "\<exists>st'. tftp_tmr alloc ctx st = Some st' \<and> same_transfer addr port st st'
     \<and> ts_timer st' = ts_timer st + 1 \<and> ts_last_pkt st' = ts_last_pkt st \<and> ts_world st' = ts_world st"
  using assms by (simp add: tftp_tmr_def Let_def same_transfer_def sent_to_def)

text \<open>Every datagram of the client restarts the count of timer calls.\<close>

lemma tftp_recv_data_clock:
  assumes "tftp_recv alloc memfind ctx (data_pkt b d) addr port st = Some st'" "writing addr port c st"
  shows "ts_timer st' = ts_timer st" "ts_last_pkt st' = ts_timer st"
  using assms
  by (auto simp: tftp_recv_def tftp_data_def Let_def writing_def send_ack_def send_error_def
      split: option.splits if_splits prod.splits)

lemma send_data_clock:
  assumes "send_data alloc ctx st = Some st'"
  shows "ts_timer st' = ts_timer st" "ts_last_pkt st' = ts_last_pkt st"
  using assms
  by (auto simp: send_data_def resend_data_def Let_def send_error_def split: option.splits if_splits prod.splits)

section \<open>Writing a file\<close>

lemma writingD:
  assumes "writing addr port b st"
  shows "ts_handle st \<noteq> None" "ts_addr st = addr" "ts_port st = port"
  using assms by (simp_all add: writing_def)

lemma tftp_events_write:
  assumes "write_rel alloc ctx ok wrote" "addr \<noteq> 0" "port \<noteq> 0" "length last_block < 512"
  shows "ok (ts_world st) \<Longrightarrow> writing addr port b st \<Longrightarrow> list_all (\<lambda>(d, k). length d = 512) blocks \<Longrightarrow>
    sent_by addr port evs = replicate j (data_pkt (b - 1) d) @ write_pkts b blocks \<Longrightarrow>
    prompt addr port (ts_timer st - ts_last_pkt st) evs \<Longrightarrow>
    \<exists>st'. tftp_events alloc memfind ctx (evs @ [Datagram (data_pkt (b + of_nat (length blocks)) last_block) addr port]) st = Some st'
      \<and> wrote (ts_world st) (concat (map fst blocks) @ last_block) (ts_world st') \<and> idle st'"
proof (induction evs arbitrary: st b j d blocks)
  case Nil
  then have "blocks = []" by (cases blocks) auto
  with tftp_recv_block_ok [OF assms(1) Nil.prems(1,2), of memfind last_block] assms(4) show ?case by auto
next
  case (Cons e evs)
  have step: ?case
    if s: "wrote (ts_world st) d1 (ts_world st1)" "writing addr port b1 st1"
      "tftp_events alloc memfind ctx (e # evs @ [fin]) st = tftp_events alloc memfind ctx (evs @ [fin]) st1"
      "list_all (\<lambda>(d, k). length d = 512) blocks1"
      "sent_by addr port evs = replicate j1 (data_pkt (b1 - 1) e1) @ write_pkts b1 blocks1"
      "prompt addr port (ts_timer st1 - ts_last_pkt st1) evs"
      "fin = Datagram (data_pkt (b1 + of_nat (length blocks1)) last_block) addr port"
      "fin = Datagram (data_pkt (b + of_nat (length blocks)) last_block) addr port"
      "concat (map fst blocks) = d1 @ concat (map fst blocks1)"
    for st1 d1 b1 e1 j1 blocks1 fin
  proof -
    have "ok (ts_world st1)" using write_may_failD(6) [OF write_rel_may_fail [OF assms(1)] Cons.prems(1) s(1)] .
    from Cons.IH [OF this s(2,4-6)] obtain st' where
      "tftp_events alloc memfind ctx (evs @ [fin]) st1 = Some st'"
      "wrote (ts_world st1) (concat (map fst blocks1) @ last_block) (ts_world st')" "idle st'"
      unfolding s(7) by blast
    with write_may_failD(7) [OF write_rel_may_fail [OF assms(1)] Cons.prems(1) s(1)] s(3,8,9) show ?thesis by auto
  qed
  show ?case
  proof (cases e)
    case Tick
    obtain st1 where st1: "tftp_tmr alloc ctx st = Some st1" "same_transfer addr port st st1"
      "ts_timer st1 = ts_timer st + 1" "ts_last_pkt st1 = ts_last_pkt st" "ts_world st1 = ts_world st"
      using tftp_tmr_waits [OF writingD(1) [OF Cons.prems(2)], of alloc ctx addr port] Cons.prems(5) Tick by auto
    show ?thesis
      by (rule step [of "[]" st1 b _ blocks j d])
        (use Tick st1 Cons.prems same_transferD(1) [OF st1(2)] write_may_failD(5) [OF write_rel_may_fail [OF assms(1)]]
          in \<open>auto simp: algebra_simps\<close>)
  next
    case (Datagram p a q)
    show ?thesis
    proof (cases "a = addr \<and> q = port")
      case False
      obtain st1 where st1: "tftp_recv alloc memfind ctx p a q st = Some st1" "same_transfer addr port st st1"
        "ts_timer st1 = ts_timer st" "ts_last_pkt st1 = ts_last_pkt st" "ts_world st1 = snd (alloc (ts_world st))"
        using tftp_recv_stranger [OF writingD(2,3) [OF Cons.prems(2)] assms(2,3) False] by blast
      show ?thesis
        by (rule step [of "[]" st1 b _ blocks j d])
          (use Datagram False st1 Cons.prems same_transferD(1) [OF st1(2)] write_may_failD(4) [OF write_rel_may_fail [OF assms(1)]] in auto)
    next
      case own: True
      show ?thesis
      proof (cases j)
        case (Suc i)
        then have p: "p = data_pkt (b - 1) d" "sent_by addr port evs = replicate i (data_pkt (b - 1) d) @ write_pkts b blocks"
          using Cons.prems(4) Datagram own by simp_all
        obtain st1 where st1: "tftp_recv alloc memfind ctx p addr port st = Some st1"
          "wrote (ts_world st) [] (ts_world st1)" "writing addr port b st1"
          using tftp_recv_duplicate [OF write_rel_may_fail [OF assms(1)] Cons.prems(1), of addr port "b - 1"] Cons.prems(2) p(1) by auto
        show ?thesis
          by (rule step [of "[]" st1 b _ blocks i d])
            (use Datagram own st1 Cons.prems p tftp_recv_data_clock [OF st1(1) [unfolded p(1)]] in auto)
      next
        case 0
        obtain d1 k blocks1 where blocks: "blocks = (d1, k) # blocks1" "length d1 = 512" "p = data_pkt b d1"
          "sent_by addr port evs = replicate k (data_pkt b d1) @ write_pkts (b + 1) blocks1"
          "list_all (\<lambda>(d, k). length d = 512) blocks1"
          using Cons.prems(3,4) 0 Datagram own by (cases blocks) auto
        obtain st1 where st1: "tftp_recv alloc memfind ctx p addr port st = Some st1"
          "wrote (ts_world st) d1 (ts_world st1)" "writing addr port (b + 1) st1"
          using tftp_recv_block_ok [OF assms(1) Cons.prems(1,2), of memfind d1] blocks(2,3) by auto
        show ?thesis
          by (rule step [of d1 st1 "b + 1" _ blocks1 k d1])
            (use Datagram own st1 Cons.prems blocks tftp_recv_data_clock [OF st1(1) [unfolded blocks(3)]]
              in \<open>auto simp: add.assoc\<close>)
      qed
    qed
  qed
qed

text \<open>
  C18. Writing a file in company: however the packets of a client, each retransmitted any number of times, are
  interleaved with datagrams of other peers and with calls of the timer, as long as no more than ten such calls
  pass between two packets of the client, the file ends as exactly the blocks, each once and in order, and
  the transfer is closed.
\<close>

theorem tftp_write_undisturbed:
  assumes "write_contract alloc ctx content" "writing addr port b st" "addr \<noteq> 0" "port \<noteq> 0"
    and "sent_by addr port evs = write_pkts b blocks" "prompt addr port (ts_timer st - ts_last_pkt st) evs"
    and "list_all (\<lambda>(d, k). length d = 512) blocks" "length last_block < 512"
  shows "\<exists>st'. tftp_events alloc memfind ctx (evs @ [Datagram (data_pkt (b + of_nat (length blocks)) last_block) addr port]) st = Some st'
           \<and> content (ts_world st') = content (ts_world st) @ concat (map fst blocks) @ last_block \<and> idle st'"
proof -
  have rel: "write_rel alloc ctx (\<lambda>w. True) (\<lambda>w d w'. content w' = content w @ d)"
    using assms(1) by (simp add: write_rel_def write_may_fail_def write_contract_def leD)
  have "sent_by addr port evs = replicate 0 (data_pkt (b - 1) []) @ write_pkts b blocks"
    using assms(5) by simp
  from tftp_events_write [OF rel assms(3,4,8) TrueI assms(2,7) this assms(6)] show ?thesis by simp
qed

theorem tftp_write_undisturbed_witness:
  "\<exists>st'. tftp_events demo_alloc demo_memfind demo_ctx
       ([Tick, Datagram (data_pkt 1 (replicate 512 1)) 9 69, Datagram [[0, 2]] 7 70, Datagram (data_pkt 1 (replicate 512 1)) 9 69, Tick]
        @ [Datagram (data_pkt 2 [3]) 9 69])
       (tftp_zero []\<lparr>ts_handle := Some (), ts_mode_write := 1, ts_addr := 9, ts_port := 69, ts_blknum := 1\<rparr>) = Some st'
     \<and> ts_world st' = replicate 512 1 @ [3] \<and> idle st'"
proof -
  let ?st = "tftp_zero []\<lparr>ts_handle := Some (), ts_mode_write := 1, ts_addr := 9, ts_port := 69, ts_blknum := 1\<rparr>"
  let ?d = "replicate 512 (1 :: u8)"
  let ?evs = "[Tick, Datagram (data_pkt 1 ?d) 9 69, Datagram [[0, 2]] 7 70, Datagram (data_pkt 1 ?d) 9 69, Tick]"
  have w: "writing 9 69 1 ?st" "ts_world ?st = []" "ts_timer ?st - ts_last_pkt ?st = 0"
    by (simp_all add: writing_def tftp_zero_def)
  have sent: "sent_by 9 69 ?evs = write_pkts 1 [(?d, 1)]" "prompt 9 69 (ts_timer ?st - ts_last_pkt ?st) ?evs"
    unfolding w(3) by simp_all
  have b: "list_all (\<lambda>(d, k). length d = 512) [(?d, 1 :: nat)]" "length [3 :: u8] < 512"
    by simp_all
  have "(1 :: u16) + of_nat (length [(?d, 1 :: nat)]) = 2" "(9 :: u32) \<noteq> 0" "(69 :: u16) \<noteq> 0"
    by simp_all
  with tftp_write_undisturbed [OF demo_write_contract w(1) _ _ sent b, of demo_memfind] show ?thesis
    unfolding w(2) by (simp only: list.map concat.simps fst_conv append_Nil append_Nil2 simp_thms)
qed

section \<open>Reading a file\<close>

lemma readingD:
  assumes "reading addr port b st"
  shows "ts_handle st \<noteq> None" "ts_addr st = addr" "ts_port st = port"
  using assms by (simp_all add: reading_def)

text \<open>An acknowledgement of a full block is answered by the next block, one of a short block ends the transfer.\<close>

lemma tftp_recv_ack:
  assumes "readable alloc ctx rest" "reading addr port b st" "ts_last_data st = Some (concat (data_pkt b c))"
  shows "length c = 512 \<Longrightarrow> \<exists>st'. tftp_recv alloc memfind ctx (ack_pkt b) addr port st = Some st' \<and> reading addr port (b + 1) st'
       \<and> sent_to addr port st' = sent_to addr port st @ [(addr, port, concat (data_pkt (b + 1) (take 512 (rest (ts_world st)))))]
       \<and> ts_last_data st' = Some (concat (data_pkt (b + 1) (take 512 (rest (ts_world st)))))
       \<and> rest (ts_world st') = drop 512 (rest (ts_world st))
       \<and> ts_timer st' = ts_timer st \<and> ts_last_pkt st' = ts_timer st"
    and "length c \<noteq> 512 \<Longrightarrow> \<exists>st'. tftp_recv alloc memfind ctx (ack_pkt b) addr port st = Some st' \<and> idle st'
       \<and> sent_to addr port st' = sent_to addr port st"
proof -
  let ?st1 = "st\<lparr>ts_last_pkt := ts_timer st, ts_retries := 0\<rparr>"
  let ?st2 = "?st1\<lparr>ts_blknum := b + 1\<rparr>"
  have recv: "tftp_recv alloc memfind ctx (ack_pkt b) addr port st =
      (if length c = 512 then send_data alloc ctx ?st2 else Some (close_handle ctx ?st1))"
    using assms(2,3) by (auto simp: tftp_recv_def tftp_ack_def reading_def Let_def data_pkt_def)
  show "length c \<noteq> 512 \<Longrightarrow> \<exists>st'. tftp_recv alloc memfind ctx (ack_pkt b) addr port st = Some st' \<and> idle st'
       \<and> sent_to addr port st' = sent_to addr port st"
    using recv by (simp add: idle_def sent_to_def)
  have "reading addr port (b + 1) ?st2" using assms(2) by (simp add: reading_def)
  from send_data_readable [OF assms(1) [unfolded readable_def] TrueI this] obtain st' where
    st': "send_data alloc ctx ?st2 = Some st'" "reading addr port (b + 1) st'"
    "ts_out st' = ts_out ?st2 @ [(addr, port, concat (data_pkt (b + 1) (take 512 (rest (ts_world ?st2)))))]"
    "ts_last_data st' = Some (concat (data_pkt (b + 1) (take 512 (rest (ts_world ?st2)))))"
    "rest (ts_world st') = drop 512 (rest (ts_world ?st2))" by blast
  then show "length c = 512 \<Longrightarrow> \<exists>st'. tftp_recv alloc memfind ctx (ack_pkt b) addr port st = Some st' \<and> reading addr port (b + 1) st'
       \<and> sent_to addr port st' = sent_to addr port st @ [(addr, port, concat (data_pkt (b + 1) (take 512 (rest (ts_world st)))))]
       \<and> ts_last_data st' = Some (concat (data_pkt (b + 1) (take 512 (rest (ts_world st)))))
       \<and> rest (ts_world st') = drop 512 (rest (ts_world st))
       \<and> ts_timer st' = ts_timer st \<and> ts_last_pkt st' = ts_timer st"
    using recv send_data_clock [OF st'(1)] by (simp add: sent_to_def)
qed

lemma chunks_nonempty: "chunks f \<noteq> []"
  by (subst chunks.simps) simp

lemma tftp_events_read:
  assumes "readable alloc ctx rest" "addr \<noteq> 0" "port \<noteq> 0"
  shows "reading addr port b st \<Longrightarrow> ts_last_data st = Some (concat (data_pkt b c)) \<Longrightarrow> chunks f = c # cs \<Longrightarrow>
    rest (ts_world st) = concat cs \<Longrightarrow> sent_by addr port evs = ack_pkts b (length cs) \<Longrightarrow>
    prompt addr port (ts_timer st - ts_last_pkt st) evs \<Longrightarrow>
    \<exists>st'. tftp_events alloc memfind ctx (evs @ [Datagram (ack_pkt (b + of_nat (length cs))) addr port]) st = Some st'
      \<and> sent_to addr port st' = sent_to addr port st @ data_pkts addr port (b + 1) cs \<and> idle st'"
proof (induction evs arbitrary: b st c f cs)
  case Nil
  then have "cs = []" by (cases cs) auto
  with Nil.prems(3) have "length c \<noteq> 512"
    using chunks_nonempty [of "drop 512 f"] by (auto simp: chunks.simps [of f] split: if_splits)
  from tftp_recv_ack(2) [OF assms(1) Nil.prems(1,2) this, of memfind] \<open>cs = []\<close> show ?case by auto
next
  case (Cons e evs)
  have quiet: ?case
    if s: "same_transfer addr port st st1" "rest (ts_world st1) = rest (ts_world st)"
      "\<And>evs. tftp_events alloc memfind ctx (e # evs) st = tftp_events alloc memfind ctx evs st1"
      "sent_by addr port evs = sent_by addr port (e # evs)" "prompt addr port (ts_timer st1 - ts_last_pkt st1) evs" for st1
  proof -
    note same = same_transferD [OF s(1)]
    from Cons.IH [OF same(2) [OF Cons.prems(1)] _ Cons.prems(3) _ _ s(5)] same(3,4) s(2-4) Cons.prems(2,4,5)
    show ?thesis by auto
  qed
  show ?case
  proof (cases e)
    case Tick
    obtain st1 where st1: "tftp_tmr alloc ctx st = Some st1" "same_transfer addr port st st1"
      "ts_timer st1 = ts_timer st + 1" "ts_last_pkt st1 = ts_last_pkt st" "ts_world st1 = ts_world st"
      using tftp_tmr_waits [OF readingD(1) [OF Cons.prems(1)], of alloc ctx addr port] Cons.prems(6) Tick by auto
    show ?thesis
      by (rule quiet [OF st1(2)]) (use Tick st1 Cons.prems(6) in \<open>auto simp: algebra_simps\<close>)
  next
    case (Datagram p a q)
    show ?thesis
    proof (cases "a = addr \<and> q = port")
      case False
      obtain st1 where st1: "tftp_recv alloc memfind ctx p a q st = Some st1" "same_transfer addr port st st1"
        "ts_timer st1 = ts_timer st" "ts_last_pkt st1 = ts_last_pkt st" "ts_world st1 = snd (alloc (ts_world st))"
        using tftp_recv_stranger [OF readingD(2,3) [OF Cons.prems(1)] assms(2,3) False] by blast
      have "rest (ts_world st1) = rest (ts_world st)"
        using readable_rel_alloc [OF assms(1) [unfolded readable_def] TrueI, of "ts_world st"] st1(5) by auto
      then show ?thesis
        by (rule quiet [OF st1(2)]) (use Datagram False st1 Cons.prems(6) in auto)
    next
      case own: True
      then obtain n where n: "length cs = Suc n" "p = ack_pkt b" "sent_by addr port evs = ack_pkts (b + 1) n"
        using Cons.prems(5) Datagram by (cases "length cs") auto
      have f: "\<not> length f < 512" "length c = 512" "chunks (drop 512 f) = cs"
        using Cons.prems(3) n(1) by (cases "length f < 512"; auto simp: chunks.simps [of f])+
      obtain ds where ds: "chunks (drop 512 f) = take 512 (drop 512 f) # ds" "concat ds = drop 512 (drop 512 f)"
        by (rule chunks_Cons)
      have rest: "rest (ts_world st) = drop 512 f" using Cons.prems(4) f(3) concat_chunks by metis
      obtain st1 where st1: "tftp_recv alloc memfind ctx (ack_pkt b) addr port st = Some st1" "reading addr port (b + 1) st1"
        "sent_to addr port st1 = sent_to addr port st @ [(addr, port, concat (data_pkt (b + 1) (take 512 (drop 512 f))))]"
        "ts_last_data st1 = Some (concat (data_pkt (b + 1) (take 512 (drop 512 f))))"
        "rest (ts_world st1) = concat ds" "ts_timer st1 - ts_last_pkt st1 = 0"
        using tftp_recv_ack(1) [OF assms(1) Cons.prems(1,2) f(2), of memfind] rest ds(2) by auto
      have "length ds = n" "cs = take 512 (drop 512 f) # ds" using n(1) f(3) ds(1) by auto
      with Cons.IH [OF st1(2,4) ds(1) st1(5)] n st1 Cons.prems(6) Datagram own show ?thesis
        by (auto simp: add.assoc)
    qed
  qed
qed

text \<open>
  C19. Reading a file in company: a client sends the acknowledgement of every block, each exactly once, with no more than ten
  timer calls between two of its packets (counted from its last packet before; the eleventh would send the block again). Then, if the reads succeed
  and packet memory is never short, however the acknowledgements are interleaved with datagrams of other peers and with
  the timer calls, the client is sent exactly the blocks of the file, each once, in order and numbered upwards, and nothing else, and
  the transfer is closed.
\<close>

theorem tftp_read_undisturbed:
  assumes "readable alloc ctx rest" "reading addr port b st" "addr \<noteq> 0" "port \<noteq> 0"
    and "chunks (rest (ts_world st)) = blocks @ [last_block]"
    and "sent_by addr port evs = ack_pkts b (length blocks)" "prompt addr port (ts_timer st - ts_last_pkt st) evs"
  shows "\<exists>st1 st'. send_data alloc ctx st = Some st1
           \<and> tftp_events alloc memfind ctx (evs @ [Datagram (ack_pkt (b + of_nat (length blocks))) addr port]) st1 = Some st'
           \<and> sent_to addr port st' = sent_to addr port st @ data_pkts addr port b (chunks (rest (ts_world st))) \<and> idle st'"
proof -
  let ?f = "rest (ts_world st)"
  obtain st1 where 1: "send_data alloc ctx st = Some st1" "reading addr port b st1"
    "ts_out st1 = ts_out st @ [(addr, port, concat (data_pkt b (take 512 ?f)))]"
    "ts_last_data st1 = Some (concat (data_pkt b (take 512 ?f)))" "rest (ts_world st1) = drop 512 ?f"
    using send_data_readable [OF assms(1) [unfolded readable_def] TrueI assms(2)] by blast
  obtain cs where cs: "chunks ?f = take 512 ?f # cs" "concat cs = drop 512 ?f" by (rule chunks_Cons)
  have "length (chunks ?f) = Suc (length cs)" unfolding cs(1) by simp
  moreover have "length (chunks ?f) = Suc (length blocks)" unfolding assms(5) by simp
  ultimately have len: "length blocks = length cs" by simp
  have "prompt addr port (ts_timer st1 - ts_last_pkt st1) evs"
    using assms(7) send_data_clock [OF 1(1)] by simp
  from tftp_events_read [OF assms(1,3,4) 1(2,4) cs(1) _ _ this, of memfind] 1 cs assms(6) len
  show ?thesis by (auto simp: sent_to_def)
qed

theorem tftp_read_undisturbed_witness:
  "\<exists>st1 st'. send_data demo_alloc demo_ctx (tftp_zero [1, 2, 3]\<lparr>ts_handle := Some (), ts_addr := 9, ts_port := 69, ts_blknum := 1\<rparr>) = Some st1
     \<and> tftp_events demo_alloc demo_memfind demo_ctx ([Tick, Datagram [[0, 1]] 7 70, Tick] @ [Datagram (ack_pkt 1) 9 69]) st1 = Some st'
     \<and> sent_to 9 69 st' = [(9, 69, [0, 3, 0, 1, 1, 2, 3])] \<and> idle st'"
proof -
  let ?st = "tftp_zero [1, 2, 3]\<lparr>ts_handle := Some (), ts_addr := 9, ts_port := 69, ts_blknum := 1\<rparr>"
  have "reading 9 69 1 ?st" by (simp add: reading_def tftp_zero_def)
  from tftp_read_undisturbed [OF demo_readable this, of "[]" "[1, 2, 3]" "[Tick, Datagram [[0, 1]] 7 70, Tick]" demo_memfind]
  show ?thesis
    by (simp add: tftp_zero_def chunks.simps data_pkt_def be16_bytes sent_to_def)
qed

end
