(* ===== verification/Sdcard.thy ===== *)
theory Sdcard
  imports Prelude
begin

text \<open>
  SD-card handling at boot, \<open>src/sw/src/sdcard.c\<close> with the \<open>net_config\<close> of \<open>local.h\<close>: parsing \<open>NET.CNF\<close>
  into the network configuration, the two EEPROM files, and the search for a card.

  The FatFs calls are the fields of a record, on a disk state \<open>'d\<close> that contains the open file; an
  FRESULT is an \<open>int\<close>, 0 being \<open>FR_OK\<close>. \<open>inet_aton\<close> is a parameter too. A C string is the list of its
  bytes before the terminator. \<open>None\<close> from the address parser would be a read behind the terminator.
  \<open>malloc\<close> and \<open>free\<close> are a \<open>heap\<close>: \<open>malloc\<close> gives no block (NULL), or a block with whatever bytes the memory holds,
  which is what the program compares and writes, as the reads and checks that should come first are commented out in the source
  (a \<open>uint8_t\<close> in allocated memory has some value, so reading it is not undefined). \<open>Undef\<close> is undefined behaviour: an access
  through NULL, or \<open>printf\<close> with NULL for \<open>%s\<close>. \<open>fuel\<close> bounds the lines read from \<open>NET.CNF\<close>. The text of the output is left out.
\<close>

section \<open>Definitions\<close>

definition cstr :: "string \<Rightarrow> bytes" where
  "cstr s = map of_char s"

record net_config =
  nc_addr :: u32
  nc_mask :: u32
  nc_gw :: u32
  use_static :: u8
  hwaddr :: bytes

datatype fa_flags = FA_EXISTING_READ | FA_ALWAYS_READ_WRITE

record 'd fatfs =
  ff_mount :: "bytes \<Rightarrow> 'd \<Rightarrow> int \<times> 'd"
  ff_unmount :: "bytes \<Rightarrow> 'd \<Rightarrow> int \<times> 'd"
  ff_chdir :: "bytes \<Rightarrow> 'd \<Rightarrow> int \<times> 'd"
  ff_open :: "bytes \<Rightarrow> fa_flags \<Rightarrow> 'd \<Rightarrow> int \<times> 'd"
  ff_close :: "'d \<Rightarrow> int \<times> 'd"
  ff_unlink :: "bytes \<Rightarrow> 'd \<Rightarrow> int \<times> 'd"
  ff_lseek :: "nat \<Rightarrow> 'd \<Rightarrow> int \<times> 'd"
  ff_truncate :: "'d \<Rightarrow> int \<times> 'd"
  ff_sync :: "'d \<Rightarrow> int \<times> 'd"
  ff_read :: "nat \<Rightarrow> 'd \<Rightarrow> int \<times> bytes \<times> 'd"
  ff_write :: "bytes \<Rightarrow> 'd \<Rightarrow> int \<times> nat \<times> 'd"
  ff_gets :: "nat \<Rightarrow> 'd \<Rightarrow> bytes option \<times> 'd"

definition sdcard_parse_inet :: "(bytes \<Rightarrow> u32 option) \<Rightarrow> bytes option \<Rightarrow> u32 \<Rightarrow> u32" where
  "sdcard_parse_inet inet_aton arg out =
     (case arg of
        None \<Rightarrow> out
      | Some a \<Rightarrow> (case inet_aton a of None \<Rightarrow> out | Some x \<Rightarrow> x))"

text \<open>\<open>parse_hex\<close>: the new value of \<open>out[0]\<close>, or \<open>None\<close> for the error return.\<close>

definition parse_hex :: "u8 \<Rightarrow> u8 \<Rightarrow> u8 option" where
  "parse_hex c out =
     (if 0x30 \<le> c \<and> c \<le> 0x39 then Some (out OR (c - 0x30))
      else if 0x41 \<le> c \<and> c \<le> 0x46 then Some (out OR (c - 0x41 + 10))
      else if 0x61 \<le> c \<and> c \<le> 0x66 then Some (out OR (c - 0x61 + 10))
      else None)"

text \<open>A character of the string, its terminator included; \<open>None\<close> behind it.\<close>

definition char_at :: "bytes \<Rightarrow> nat \<Rightarrow> u8 option" where
  "char_at s i = (if i < length s then Some (s ! i) else if i = length s then Some 0 else None)"

abbreviation (input) NETIF_MAX_HWADDR_LEN :: nat where "NETIF_MAX_HWADDR_LEN \<equiv> 6"

text \<open>The loop over the six parts: \<open>Some (Some hw)\<close> is the address that is copied.\<close>

function hwaddr_loop :: "bytes \<Rightarrow> nat \<Rightarrow> bytes \<Rightarrow> bytes option option" where
  "hwaddr_loop arg n hw =
     (if n < NETIF_MAX_HWADDR_LEN
      then case char_at arg (3 * n) of
        None \<Rightarrow> None
      | Some c0 \<Rightarrow>
          (case parse_hex c0 (hw ! n) of
             None \<Rightarrow> Some None
           | Some x \<Rightarrow>
               (let hw1 = hw[n := push_bit 4 x] in
                case char_at arg (3 * n + 1) of
                  None \<Rightarrow> None
                | Some c1 \<Rightarrow>
                    (case parse_hex c1 (hw1 ! n) of
                       None \<Rightarrow> Some None
                     | Some y \<Rightarrow>
                         (let hw2 = hw1[n := y] in
                          case char_at arg (3 * n + 2) of
                            None \<Rightarrow> None
                          | Some c2 \<Rightarrow>
                              if n < NETIF_MAX_HWADDR_LEN - 1 \<and> c2 = 0x3A then hwaddr_loop arg (n + 1) hw2
                              else if n = NETIF_MAX_HWADDR_LEN - 1 \<and> c2 = 0 then Some (Some hw2)
                              else Some None))))
      else Some None)"
  by pat_completeness auto
termination
  by (relation "measure (\<lambda>(arg, n, hw). 6 - n)") auto

declare hwaddr_loop.simps [simp del]

definition parse_hwaddr :: "bytes \<Rightarrow> bytes option option" where
  "parse_hwaddr arg = hwaddr_loop arg 0 (replicate NETIF_MAX_HWADDR_LEN 0)"

text \<open>\<open>lwip_isspace\<close>.\<close>

definition isspace :: "u8 \<Rightarrow> bool" where
  "isspace c \<longleftrightarrow> c = 0x20 \<or> (9 \<le> c \<and> c \<le> 13)"

text \<open>The command and argument of a line; \<open>None\<close> for a blank line or a comment.\<close>

definition split_line :: "bytes \<Rightarrow> (bytes \<times> bytes option) option" where
  "split_line line =
     (let l1 = dropWhile isspace line in
      if l1 = [] \<or> hd l1 = 0x23 then None
      else let cmd = takeWhile (\<lambda>c. \<not> isspace c) l1;
               l2 = dropWhile (\<lambda>c. \<not> isspace c) l1;
               l3 = dropWhile isspace l2
           in Some (cmd, if l3 = [] then None else Some (takeWhile (\<lambda>c. \<not> isspace c) l3)))"

text \<open>One command; \<open>None\<close> when \<open>hwaddr\<close> has no argument, which \<open>printf\<close> then gets as a NULL string.\<close>

definition netconf_cmd ::
  "(bytes \<Rightarrow> u32 option) \<Rightarrow> bytes \<Rightarrow> bytes option \<Rightarrow> net_config \<Rightarrow> net_config option" where
  "netconf_cmd inet_aton cmd arg conf =
     (if cmd = cstr ''dhcp''
      then Some (if arg = None \<or> arg = Some (cstr ''yes'') then conf\<lparr>use_static := 0\<rparr>
                 else if arg = Some (cstr ''no'') then conf\<lparr>use_static := 1\<rparr>
                 else conf)
      else if cmd = cstr ''addr''
      then Some (conf\<lparr>nc_addr := sdcard_parse_inet inet_aton arg (nc_addr conf), use_static := 1\<rparr>)
      else if cmd = cstr ''mask''
      then Some (conf\<lparr>nc_mask := sdcard_parse_inet inet_aton arg (nc_mask conf)\<rparr>)
      else if cmd = cstr ''gw''
      then Some (conf\<lparr>nc_gw := sdcard_parse_inet inet_aton arg (nc_gw conf)\<rparr>)
      else if cmd = cstr ''hwaddr''
      then (case arg of
              None \<Rightarrow> None
            | Some a \<Rightarrow>
                if a = cstr ''eeprom'' then Some conf
                else (case parse_hwaddr a of
                        None \<Rightarrow> None
                      | Some None \<Rightarrow> Some conf
                      | Some (Some hw) \<Rightarrow> Some (conf\<lparr>hwaddr := hw\<rparr>)))
      else Some conf)"

definition netconf_line :: "(bytes \<Rightarrow> u32 option) \<Rightarrow> bytes \<Rightarrow> net_config \<Rightarrow> net_config option" where
  "netconf_line inet_aton line conf =
     (case split_line line of
        None \<Rightarrow> Some conf
      | Some (cmd, arg) \<Rightarrow> netconf_cmd inet_aton cmd arg conf)"

datatype 'a run = Ran 'a | Undef | Out_of_fuel

fun and_then :: "'a run \<Rightarrow> ('a \<Rightarrow> 'b run) \<Rightarrow> 'b run" where
  "and_then (Ran x) f = f x"
| "and_then Undef f = Undef"
| "and_then Out_of_fuel f = Out_of_fuel"

record 'd heap =
  hp_malloc :: "nat \<Rightarrow> 'd \<Rightarrow> bytes option \<times> 'd"
  hp_free :: "bytes option \<Rightarrow> 'd \<Rightarrow> 'd"

fun sdcard_netconf ::
  "nat \<Rightarrow> 'd fatfs \<Rightarrow> (bytes \<Rightarrow> u32 option) \<Rightarrow> net_config \<Rightarrow> 'd \<Rightarrow> (net_config \<times> 'd) run" where
  "sdcard_netconf 0 ff inet_aton conf d = Out_of_fuel"
| "sdcard_netconf (Suc fuel) ff inet_aton conf d =
     (case ff_gets ff 64 d of
        (None, d') \<Rightarrow> Ran (conf, d')
      | (Some line, d') \<Rightarrow>
          (case netconf_line inet_aton line conf of
             None \<Rightarrow> Undef
           | Some conf' \<Rightarrow> sdcard_netconf fuel ff inet_aton conf' d'))"

datatype sync_result = ReadError | UpToDate | SizeError | ClaimedWritten | UpdateError | Updated

text \<open>Comparing the whole buffers reads \<open>ee\<close>; \<open>None\<close> when there is none.\<close>

definition ee_matches :: "bytes option \<Rightarrow> bytes \<Rightarrow> bool option" where
  "ee_matches ee buf = (if length buf = 256 then map_option (\<lambda>e. e = buf) ee else Some False)"

definition sdcard_sync_eeprom :: "'d fatfs \<Rightarrow> 'd heap \<Rightarrow> bool \<Rightarrow> 'd \<Rightarrow> (sync_result \<times> 'd) run" where
  "sdcard_sync_eeprom ff heap eewrite d =
     (let (ee, d1) = hp_malloc heap 256 d;
          (file, d2) = hp_malloc heap 256 d1;
          finish = (\<lambda>(r, d'). Ran (r, hp_free heap file (hp_free heap ee d')));
          (res, buf, d3) = ff_read ff 256 d2 in
      if file = None \<and> buf \<noteq> [] then Undef
      else if res \<noteq> 0 then finish (ReadError, d3)
      else case ee_matches ee buf of
        None \<Rightarrow> Undef
      | Some same \<Rightarrow>
          if same then finish (UpToDate, d3)
          else if eewrite then finish (if length buf \<noteq> 256 then SizeError else ClaimedWritten, d3)
          else let (r1, d4) = ff_lseek ff 0 d3 in
               if r1 \<noteq> 0 then finish (UpdateError, d4)
               else let (r2, d5) = ff_truncate ff d4 in
               if r2 \<noteq> 0 then finish (UpdateError, d5)
               else (case ee of
                 None \<Rightarrow> Undef
               | Some e \<Rightarrow>
                   let (r3, w, d6) = ff_write ff e d5 in
                   if r3 \<noteq> 0 \<or> w \<noteq> 256 then finish (UpdateError, d6)
                   else let (r4, d7) = ff_sync ff d6 in
                   finish (if r4 \<noteq> 0 then UpdateError else Updated, d7)))"

definition sdcard_process ::
  "nat \<Rightarrow> 'd fatfs \<Rightarrow> 'd heap \<Rightarrow> (bytes \<Rightarrow> u32 option) \<Rightarrow> net_config \<Rightarrow> 'd \<Rightarrow> (net_config \<times> 'd) run" where
  "sdcard_process fuel ff heap inet_aton conf d =
     (let (ret, d1) = ff_open ff (cstr ''NET.CNF'') FA_EXISTING_READ d in
      and_then
        (if ret \<noteq> 0 then Ran (conf, d1)
         else and_then (sdcard_netconf fuel ff inet_aton conf d1) (\<lambda>(conf', d2). Ran (conf', snd (ff_close ff d2))))
      (\<lambda>(conf', d2).
       let (ret2, d3) = ff_open ff (cstr ''EEPROM.NEW'') FA_EXISTING_READ d2 in
       and_then
         (if ret2 \<noteq> 0 then Ran d3
          else and_then (sdcard_sync_eeprom ff heap True d3)
                 (\<lambda>(_, d'). Ran (snd (ff_unlink ff (cstr ''EEPROM.NEW'') (snd (ff_close ff d'))))))
       (\<lambda>d4.
        let (ret3, d5) = ff_open ff (cstr ''EEPROM.DAT'') FA_ALWAYS_READ_WRITE d4 in
        and_then
          (if ret3 \<noteq> 0 then Ran d5
           else and_then (sdcard_sync_eeprom ff heap False d5) (\<lambda>(_, d'). Ran (snd (ff_close ff d'))))
        (\<lambda>d6. Ran (conf', d6)))))"

text \<open>The return value 0 of \<open>sdcard_trypart\<close> is \<open>True\<close> here.\<close>

definition sdcard_trypart ::
  "nat \<Rightarrow> 'd fatfs \<Rightarrow> 'd heap \<Rightarrow> (bytes \<Rightarrow> u32 option) \<Rightarrow> bytes \<Rightarrow> net_config \<Rightarrow> 'd \<Rightarrow> (bool \<times> net_config \<times> 'd) run" where
  "sdcard_trypart fuel ff heap inet_aton root conf d =
     (let (r1, d1) = ff_mount ff root d in
      if r1 \<noteq> 0 then Ran (False, conf, d1)
      else let (r2, d2) = ff_chdir ff root d1 in
           if r2 \<noteq> 0 then Ran (False, conf, snd (ff_unmount ff root d2))
           else and_then (sdcard_process fuel ff heap inet_aton conf d2) (\<lambda>(conf', d3). Ran (True, conf', d3)))"

definition sdcard_handle ::
  "nat \<Rightarrow> 'd fatfs \<Rightarrow> 'd heap \<Rightarrow> (bytes \<Rightarrow> u32 option) \<Rightarrow> net_config \<Rightarrow> 'd \<Rightarrow> (net_config \<times> 'd) run" where
  "sdcard_handle fuel ff heap inet_aton conf d =
     and_then (sdcard_trypart fuel ff heap inet_aton (cstr ''0:/'') conf d) (\<lambda>(ok, conf', d1).
       if ok then Ran (conf', d1)
       else and_then (sdcard_trypart fuel ff heap inet_aton (cstr ''1:/'') conf' d1) (\<lambda>(_, conf'', d2). Ran (conf'', d2)))"

definition conf_zero :: net_config where
  "conf_zero = \<lparr>nc_addr = 0, nc_mask = 0, nc_gw = 0, use_static = 0, hwaddr = replicate 6 0\<rparr>"

section \<open>Hardware addresses\<close>

lemma parse_hex_0 [simp]: "parse_hex 0 out = None"
  by (simp add: parse_hex_def)

lemma parse_hex_inside: "char_at s i = Some c \<Longrightarrow> parse_hex c out = Some x \<Longrightarrow> i < length s"
  by (auto simp: char_at_def split: if_splits)

lemma char_at_next: "i < length s \<Longrightarrow> char_at s (i + 1) \<noteq> None"
  by (auto simp: char_at_def)

text \<open>The parser never reads behind the terminator, whatever the argument is.\<close>

lemma hwaddr_loop_safe: "3 * n \<le> length arg \<Longrightarrow> hwaddr_loop arg n hw \<noteq> None"
proof (induction arg n hw rule: hwaddr_loop.induct)
  case (1 arg n hw)
  show ?case
  proof
    assume bad: "hwaddr_loop arg n hw = None"
    have n: "n < 6" using bad by (simp add: hwaddr_loop.simps [of arg n] split: if_splits)
    obtain c0 where c0: "char_at arg (3 * n) = Some c0"
      using "1.prems" by (cases "char_at arg (3 * n)") (auto simp: char_at_def split: if_splits)
    obtain x where x: "parse_hex c0 (hw ! n) = Some x"
      using bad n c0 by (auto simp: hwaddr_loop.simps [of arg n] split: option.splits)
    have l0: "3 * n < length arg" using parse_hex_inside [OF c0 x] .
    obtain c1 where c1: "char_at arg (3 * n + 1) = Some c1"
      using char_at_next [OF l0] by blast
    obtain y where y: "parse_hex c1 (hw[n := push_bit 4 x] ! n) = Some y"
      using bad n c0 x c1 by (auto simp: hwaddr_loop.simps [of arg n] Let_def split: option.splits)
    have l1: "3 * n + 1 < length arg" using parse_hex_inside [OF c1 y] .
    obtain c2 where c2: "char_at arg (3 * n + 2) = Some c2"
      using char_at_next [OF l1] by auto
    have rec: "n < 5" "c2 = 0x3A" "hwaddr_loop arg (n + 1) (hw[n := push_bit 4 x, n := y]) = None"
      using bad n c0 x c1 y c2 by (auto simp: hwaddr_loop.simps [of arg n] Let_def split: if_splits)
    have "3 * (n + 1) \<le> length arg"
      using c2 rec(2) by (auto simp: char_at_def split: if_splits)
    with "1.IH" [OF n c0 x refl c1 y refl c2] rec show False by simp
  qed
qed

lemma parse_hwaddr_safe [simp]: "parse_hwaddr arg \<noteq> None"
  unfolding parse_hwaddr_def by (rule hwaddr_loop_safe) simp

text \<open>The format in which \<open>net_setup\<close> prints an address, \<open>%02X:%02X:%02X:%02X:%02X:%02X\<close>.\<close>

definition hex_digit :: "u8 \<Rightarrow> u8" where
  "hex_digit x = (if x < 10 then x + 0x30 else x - 10 + 0x41)"

definition hex_byte :: "u8 \<Rightarrow> bytes" where
  "hex_byte x = [hex_digit (drop_bit 4 x), hex_digit (take_bit 4 x)]"

fun mac_string :: "bytes \<Rightarrow> bytes" where
  "mac_string [] = []"
| "mac_string [x] = hex_byte x"
| "mac_string (x # y # xs) = hex_byte x @ [0x3A] @ mac_string (y # xs)"

lemma parse_hex_digit:
  assumes "x < 16"
  shows "parse_hex (hex_digit x) out = Some (out OR x)"
proof -
  have all: "\<forall>n \<in> set [0..<16]. parse_hex (hex_digit (of_nat n)) out = Some (out OR of_nat n)"
    by (simp add: upt_rec parse_hex_def hex_digit_def)
  have "unat x \<in> set [0..<16]" using assms by (simp add: word_less_nat_alt)
  from bspec [OF all this] show ?thesis by simp
qed

lemma nibbles_less: "drop_bit 4 x < (16::u8)" "take_bit 4 x < (16::u8)"
proof -
  have "unat x < 256" using unsigned_less [of x, where ?'a = nat] by simp
  then show "drop_bit 4 x < (16::u8)"
    by (simp add: word_less_nat_alt drop_bit_eq_div unat_div)
  show "take_bit 4 x < (16::u8)"
    by (simp add: word_less_nat_alt take_bit_eq_mod unat_mod)
qed

lemma nibbles_join: "push_bit 4 (drop_bit 4 x) OR take_bit 4 x = (x::u8)"
  by (rule bit_word_eqI) (auto simp: bit_simps)

text \<open>One part of an address: two digits give the byte, and the third character decides.\<close>

lemma hwaddr_loop_part:
  assumes "n < 6" "hw ! n = 0" "n < length hw"
    and "char_at arg (3 * n) = Some (hex_digit (drop_bit 4 x))"
    and "char_at arg (3 * n + 1) = Some (hex_digit (take_bit 4 x))"
    and "char_at arg (3 * n + 2) = Some c"
  shows "hwaddr_loop arg n hw =
     (if n < 5 \<and> c = 0x3A then hwaddr_loop arg (n + 1) (hw[n := x])
      else if n = 5 \<and> c = 0 then Some (Some (hw[n := x])) else Some None)"
  using assms nibbles_join [of x]
  by (simp add: hwaddr_loop.simps [of arg n] parse_hex_digit nibbles_less Let_def)

lemma parse_hwaddr_mac:
  assumes "length hw = 6"
  shows "parse_hwaddr (mac_string hw) = Some (Some hw)"
proof -
  have "length hw = Suc (Suc (Suc (Suc (Suc (Suc 0)))))" using assms by simp
  then obtain a b c d e f where hw: "hw = [a, b, c, d, e, f]"
    by (auto simp: length_Suc_conv)
  let ?s = "mac_string [a, b, c, d, e, f]"
  have "parse_hwaddr ?s = hwaddr_loop ?s 0 [0, 0, 0, 0, 0, 0]"
    by (simp add: parse_hwaddr_def eval_nat_numeral)
  also have "\<dots> = hwaddr_loop ?s 1 [a, 0, 0, 0, 0, 0]"
    by (subst hwaddr_loop_part [of 0 _ _ a "0x3A"]; simp add: char_at_def hex_byte_def)
  also have "\<dots> = hwaddr_loop ?s 2 [a, b, 0, 0, 0, 0]"
    by (subst hwaddr_loop_part [of 1 _ _ b "0x3A"]; simp add: char_at_def hex_byte_def numeral_2_eq_2)
  also have "\<dots> = hwaddr_loop ?s 3 [a, b, c, 0, 0, 0]"
    by (subst hwaddr_loop_part [of 2 _ _ c "0x3A"]; simp add: char_at_def hex_byte_def)
  also have "\<dots> = hwaddr_loop ?s 4 [a, b, c, d, 0, 0]"
    by (subst hwaddr_loop_part [of 3 _ _ d "0x3A"]; simp add: char_at_def hex_byte_def)
  also have "\<dots> = hwaddr_loop ?s 5 [a, b, c, d, e, 0]"
    by (subst hwaddr_loop_part [of 4 _ _ e "0x3A"]; simp add: char_at_def hex_byte_def)
  also have "\<dots> = Some (Some [a, b, c, d, e, f])"
    by (subst hwaddr_loop_part [of 5 _ _ f 0]; simp add: char_at_def hex_byte_def)
  finally show ?thesis using hw by simp
qed

text \<open>
  Hardware addresses: the parser accepts every address in the format in which the program prints
  it, with exactly its value; and whatever the argument of \<open>hwaddr\<close> is, it never reads behind the
  end of the line.
\<close>

theorem parse_hwaddr_roundtrip:
  assumes "length hw = 6"
  shows "parse_hwaddr (mac_string hw) = Some (Some hw) \<and> parse_hwaddr arg \<noteq> None"
  using parse_hwaddr_mac [OF assms] by simp

theorem parse_hwaddr_roundtrip_witness:
  "parse_hwaddr (cstr ''0A:35:00:1E:53:FF'') = Some (Some [0x0A, 0x35, 0, 0x1E, 0x53, 0xFF])"
proof -
  have "mac_string [0x0A, 0x35, 0, 0x1E, 0x53, 0xFF] = cstr ''0A:35:00:1E:53:FF''"
    by code_simp
  with parse_hwaddr_roundtrip [of "[0x0A, 0x35, 0, 0x1E, 0x53, 0xFF]" "[]"] show ?thesis by simp
qed

section \<open>NET.CNF\<close>

text \<open>The line \<open>hwaddr\<close> with no argument, the only one with undefined behaviour.\<close>

definition bare_hwaddr :: "bytes \<Rightarrow> bool" where
  "bare_hwaddr line \<longleftrightarrow> split_line line = Some (cstr ''hwaddr'', None)"

lemma cstr_eq [simp]: "cstr s = cstr t \<longleftrightarrow> map (of_char :: char \<Rightarrow> u8) s = map of_char t"
  by (simp add: cstr_def)

lemma netconf_line_None: "netconf_line inet_aton line conf = None \<longleftrightarrow> bare_hwaddr line"
  by (auto simp: netconf_line_def netconf_cmd_def bare_hwaddr_def split: option.splits prod.splits)

text \<open>Reference: the lines of the file take effect one after the other.\<close>

fun netconf_all :: "(bytes \<Rightarrow> u32 option) \<Rightarrow> bytes list \<Rightarrow> net_config \<Rightarrow> net_config" where
  "netconf_all inet_aton [] conf = conf"
| "netconf_all inet_aton (l # ls) conf = netconf_all inet_aton ls (the (netconf_line inet_aton l conf))"

text \<open>The choice of static addresses that a line makes, if it makes one.\<close>

definition static_choice :: "bytes \<Rightarrow> u8 option" where
  "static_choice line =
     (case split_line line of
        None \<Rightarrow> None
      | Some (cmd, arg) \<Rightarrow>
          if cmd = cstr ''addr'' then Some 1
          else if cmd = cstr ''dhcp'' \<and> (arg = None \<or> arg = Some (cstr ''yes'')) then Some 0
          else if cmd = cstr ''dhcp'' \<and> arg = Some (cstr ''no'') then Some 1
          else None)"

lemma use_static_line:
  "\<not> bare_hwaddr line \<Longrightarrow> use_static (the (netconf_line inet_aton line conf)) =
     (case static_choice line of None \<Rightarrow> use_static conf | Some v \<Rightarrow> v)"
  by (auto simp: netconf_line_def netconf_cmd_def static_choice_def bare_hwaddr_def split: option.splits prod.splits)

text \<open>\<open>f_gets\<close> on an open file: the next line, as long as there is one.\<close>

definition gets_contract :: "'d fatfs \<Rightarrow> ('d \<Rightarrow> bytes list) \<Rightarrow> bool" where
  "gets_contract ff lines \<longleftrightarrow>
     (\<forall>d. lines d = [] \<longrightarrow> fst (ff_gets ff 64 d) = None)
     \<and> (\<forall>d l ls. lines d = l # ls \<longrightarrow> fst (ff_gets ff 64 d) = Some l \<and> lines (snd (ff_gets ff 64 d)) = ls)"

lemma sdcard_netconf_lines:
  assumes "gets_contract ff lines" "length (lines d) < fuel"
  shows "list_all (\<lambda>l. \<not> bare_hwaddr l) (lines d) \<Longrightarrow>
      \<exists>d'. sdcard_netconf fuel ff inet_aton conf d = Ran (netconf_all inet_aton (lines d) conf, d')"
    and "\<not> list_all (\<lambda>l. \<not> bare_hwaddr l) (lines d) \<Longrightarrow> sdcard_netconf fuel ff inet_aton conf d = Undef"
proof -
  have "if list_all (\<lambda>l. \<not> bare_hwaddr l) (lines d)
        then \<exists>d'. sdcard_netconf fuel ff inet_aton conf d = Ran (netconf_all inet_aton (lines d) conf, d')
        else sdcard_netconf fuel ff inet_aton conf d = Undef"
    using assms(2)
  proof (induction fuel arbitrary: conf d)
    case (Suc fuel)
    obtain r d1 where g: "ff_gets ff 64 d = (r, d1)" by fastforce
    show ?case
    proof (cases "lines d")
      case Nil
      with assms(1) g have "r = None" by (auto simp: gets_contract_def dest!: spec [of _ d])
      with g Nil show ?thesis by simp
    next
      case (Cons l ls)
      with assms(1) g have r: "r = Some l" "lines d1 = ls"
        by (auto simp: gets_contract_def dest!: spec [of _ d])
      show ?thesis
      proof (cases "netconf_line inet_aton l conf")
        case None
        then have "bare_hwaddr l" using netconf_line_None [of inet_aton l conf] by simp
        with None g r Cons show ?thesis by simp
      next
        case (Some c)
        then have "\<not> bare_hwaddr l" using netconf_line_None [of inet_aton l conf] by simp
        moreover have "length (lines d1) < fuel" using Suc.prems Cons r by simp
        from Suc.IH [OF this, of c] have "if list_all (\<lambda>l. \<not> bare_hwaddr l) ls
          then \<exists>d'. sdcard_netconf fuel ff inet_aton c d1 = Ran (netconf_all inet_aton ls c, d')
          else sdcard_netconf fuel ff inet_aton c d1 = Undef" unfolding r(2) .
        ultimately show ?thesis using g r Cons Some by simp
      qed
    qed
  qed simp
  then show "list_all (\<lambda>l. \<not> bare_hwaddr l) (lines d) \<Longrightarrow>
      \<exists>d'. sdcard_netconf fuel ff inet_aton conf d = Ran (netconf_all inet_aton (lines d) conf, d')"
    and "\<not> list_all (\<lambda>l. \<not> bare_hwaddr l) (lines d) \<Longrightarrow> sdcard_netconf fuel ff inet_aton conf d = Undef"
    by (auto split: if_splits)
qed

text \<open>
  Reading \<open>NET.CNF\<close>: when no line is \<open>hwaddr\<close> alone, the parser goes through all lines of the file, in
  order, without undefined behaviour, and the last line that chooses between DHCP and a static
  address decides (\<open>addr\<close> implies static). One round per line is enough.
\<close>

theorem sdcard_netconf_reads_all:
  assumes "gets_contract ff lines" "length (lines d) < fuel" "list_all (\<lambda>l. \<not> bare_hwaddr l) (lines d)"
  shows "\<exists>conf' d'. sdcard_netconf fuel ff inet_aton conf d = Ran (conf', d')
           \<and> conf' = netconf_all inet_aton (lines d) conf
           \<and> use_static conf' = last (use_static conf # List.map_filter static_choice (lines d))"
proof -
  have "use_static (netconf_all inet_aton ls c) = last (use_static c # List.map_filter static_choice ls)"
    if "list_all (\<lambda>l. \<not> bare_hwaddr l) ls" for ls c
    using that
  proof (induction ls arbitrary: c)
    case (Cons l ls)
    then show ?case
      by (cases "static_choice l") (simp_all add: use_static_line map_filter_simps)
  qed (simp add: map_filter_simps)
  with sdcard_netconf_lines(1) [OF assms] assms(3) show ?thesis by fastforce
qed

text \<open>A card for evaluation: the open file is a list of fewer than 100 lines, every call succeeds.\<close>

definition demo_lines :: "bytes list \<Rightarrow> bytes list" where
  "demo_lines d = (if length d < 100 then d else [])"

definition demo_fatfs :: "bytes list fatfs" where
  "demo_fatfs = \<lparr>ff_mount = (\<lambda>r d. (0, d)), ff_unmount = (\<lambda>r d. (0, d)), ff_chdir = (\<lambda>r d. (0, d)),
     ff_open = (\<lambda>n m d. (0, d)), ff_close = (\<lambda>d. (0, d)), ff_unlink = (\<lambda>n d. (0, d)),
     ff_lseek = (\<lambda>n d. (0, d)), ff_truncate = (\<lambda>d. (0, d)), ff_sync = (\<lambda>d. (0, d)),
     ff_read = (\<lambda>n d. (0, [], d)), ff_write = (\<lambda>b d. (0, length b, d)),
     ff_gets = (\<lambda>n d. case demo_lines d of [] \<Rightarrow> (None, d) | l # ls \<Rightarrow> (Some l, ls))\<rparr>"

lemma demo_gets_contract: "gets_contract demo_fatfs demo_lines"
  by (auto simp: gets_contract_def demo_fatfs_def demo_lines_def split: if_splits)

theorem sdcard_netconf_reads_all_witness:
  "\<exists>conf' d'. sdcard_netconf 5 demo_fatfs (\<lambda>a. Some 7) conf_zero
       [cstr '' # net'', cstr ''addr 1.2.2.4'', cstr ''dhcp yes''] = Ran (conf', d') \<and> use_static conf' = 0"
proof -
  let ?d = "[cstr '' # net'', cstr ''addr 1.2.2.4'', cstr ''dhcp yes'']"
  have choice: "static_choice (cstr '' # net'') = None" "static_choice (cstr ''addr 1.2.2.4'') = Some 1"
    "static_choice (cstr ''dhcp yes'') = Some 0"
    by code_simp+
  have lines: "demo_lines ?d = ?d" by (simp add: demo_lines_def)
  have bare: "list_all (\<lambda>l. \<not> bare_hwaddr l) (demo_lines ?d)" unfolding lines by code_simp
  from lines have "last (use_static conf_zero # List.map_filter static_choice (demo_lines ?d)) = 0"
    using choice by (simp add: map_filter_simps)
  with sdcard_netconf_reads_all [OF demo_gets_contract, of ?d 5 "\<lambda>a. Some 7" conf_zero] lines bare
  show ?thesis by auto
qed

section \<open>The whole card\<close>

lemma hwaddr_loop_length: "hwaddr_loop arg n hw = Some (Some hw') \<Longrightarrow> length hw' = length hw"
proof (induction arg n hw rule: hwaddr_loop.induct)
  case (1 arg n hw)
  from "1.prems" "1.IH" show ?case
    by (fastforce simp: hwaddr_loop.simps [of arg n] Let_def split: if_splits option.splits)
qed

lemma parse_hwaddr_length: "parse_hwaddr a = Some (Some hw) \<Longrightarrow> length hw = 6"
  unfolding parse_hwaddr_def by (drule hwaddr_loop_length) simp

lemma netconf_line_hwaddr:
  "netconf_line inet_aton line conf = Some conf' \<Longrightarrow> length (hwaddr conf) = 6 \<Longrightarrow> length (hwaddr conf') = 6"
  by (auto simp: netconf_line_def netconf_cmd_def dest: parse_hwaddr_length split: option.splits prod.splits if_splits)

lemma netconf_all_hwaddr:
  "list_all (\<lambda>l. \<not> bare_hwaddr l) ls \<Longrightarrow> length (hwaddr conf) = 6 \<Longrightarrow> length (hwaddr (netconf_all inet_aton ls conf)) = 6"
proof (induction ls arbitrary: conf)
  case (Cons l ls)
  then obtain c where "netconf_line inet_aton l conf = Some c"
    using netconf_line_None [of inet_aton l conf] by (cases "netconf_line inet_aton l conf") auto
  with Cons netconf_line_hwaddr show ?case by simp
qed simp

text \<open>Memory: \<open>malloc\<close> that does not fail, and what the two buffers of \<open>sdcard_sync_eeprom\<close> are needed for.\<close>

definition malloc_succeeds :: "'d heap \<Rightarrow> bool" where
  "malloc_succeeds heap \<longleftrightarrow> (\<forall>n d. fst (hp_malloc heap n d) \<noteq> None)"

lemma sync_eeprom_ran:
  assumes "malloc_succeeds heap"
  shows "\<exists>r d'. sdcard_sync_eeprom ff heap eewrite d = Ran (r, d')"
proof -
  obtain e d1 where 1: "hp_malloc heap 256 d = (Some e, d1)"
    using assms unfolding malloc_succeeds_def by (metis option.exhaust prod.collapse)
  obtain f d2 where 2: "hp_malloc heap 256 d1 = (Some f, d2)"
    using assms unfolding malloc_succeeds_def by (metis option.exhaust prod.collapse)
  show ?thesis
    by (auto simp: sdcard_sync_eeprom_def 1 2 ee_matches_def Let_def split: prod.split)
qed

text \<open>
  The two results of \<open>malloc\<close> are not checked: without memory for the second, the first byte of the file
  is read into NULL; without memory for the first, a file of the full length is compared with NULL, and any other content is to be replaced
  by what lies at NULL.
\<close>

theorem sync_eeprom_without_memory:
  assumes "hp_malloc heap 256 d = (ee, d1)" "hp_malloc heap 256 d1 = (file, d2)" "ff_read ff 256 d2 = (res, buf, d3)"
  shows "(file = None \<and> buf \<noteq> [] \<longrightarrow> sdcard_sync_eeprom ff heap eewrite d = Undef)
     \<and> (ee = None \<and> res = 0 \<and> length buf = 256 \<longrightarrow> sdcard_sync_eeprom ff heap eewrite d = Undef)
     \<and> (ee = None \<and> res = 0 \<and> fst (ff_lseek ff 0 d3) = 0 \<and> fst (ff_truncate ff (snd (ff_lseek ff 0 d3))) = 0 \<longrightarrow>
          sdcard_sync_eeprom ff heap False d = Undef)"
  using assms by (auto simp: sdcard_sync_eeprom_def ee_matches_def Let_def split: prod.split)

theorem sync_eeprom_without_memory_witness:
  "sdcard_sync_eeprom (demo_fatfs\<lparr>ff_read := (\<lambda>n d. (0, replicate 256 0xFF, d))\<rparr>)
     \<lparr>hp_malloc = (\<lambda>n d. (None, d)), hp_free = (\<lambda>b d. d)\<rparr> True [] = Undef"
  using sync_eeprom_without_memory [of "\<lparr>hp_malloc = (\<lambda>n d. (None, d)), hp_free = (\<lambda>b d. d)\<rparr>" "[]" None "[]" None "[]"
      "demo_fatfs\<lparr>ff_read := (\<lambda>n d. (0, replicate 256 0xFF, d))\<rparr>" 0 "replicate 256 0xFF" "[]" True]
  by simp

text \<open>The file \<open>NET.CNF\<close> as a partition has it, if it can be opened.\<close>

definition netcnf_file :: "'d fatfs \<Rightarrow> 'd \<Rightarrow> bool" where
  "netcnf_file ff d \<longleftrightarrow> (\<exists>d0. ff_open ff (cstr ''NET.CNF'') FA_EXISTING_READ d0 = (0, d))"

text \<open>The two EEPROM files do not touch the configuration.\<close>

lemma sdcard_process_split:
  assumes "malloc_succeeds heap"
    and "(let (ret, d1) = ff_open ff (cstr ''NET.CNF'') FA_EXISTING_READ d in
          if ret \<noteq> 0 then Ran (conf, d1)
          else and_then (sdcard_netconf fuel ff inet_aton conf d1) (\<lambda>(conf', d2). Ran (conf', snd (ff_close ff d2)))) = Ran (c, d2)"
  shows "\<exists>d'. sdcard_process fuel ff heap inet_aton conf d = Ran (c, d')"
proof -
  have part: "\<exists>d'. (if q \<noteq> 0 then Ran e else and_then (sdcard_sync_eeprom ff heap w e) (\<lambda>(_, d'). Ran (f d'))) = Ran d'"
    for q :: int and w e and f :: "'a \<Rightarrow> 'a"
    using sync_eeprom_ran [OF assms(1), of ff w e] by auto
  obtain ret2 d3 where 3: "ff_open ff (cstr ''EEPROM.NEW'') FA_EXISTING_READ d2 = (ret2, d3)" by fastforce
  obtain d4 where 4: "(if ret2 \<noteq> 0 then Ran d3 else and_then (sdcard_sync_eeprom ff heap True d3)
      (\<lambda>(_, d'). Ran (snd (ff_unlink ff (cstr ''EEPROM.NEW'') (snd (ff_close ff d')))))) = Ran d4"
    using part [of ret2 d3 True "\<lambda>d'. snd (ff_unlink ff (cstr ''EEPROM.NEW'') (snd (ff_close ff d')))"] by auto
  obtain ret3 d5 where 5: "ff_open ff (cstr ''EEPROM.DAT'') FA_ALWAYS_READ_WRITE d4 = (ret3, d5)" by fastforce
  obtain d6 where 6: "(if ret3 \<noteq> 0 then Ran d5 else and_then (sdcard_sync_eeprom ff heap False d5)
      (\<lambda>(_, d'). Ran (snd (ff_close ff d')))) = Ran d6"
    using part [of ret3 d5 False "\<lambda>d'. snd (ff_close ff d')"] by auto
  obtain ret d1 where o: "ff_open ff (cstr ''NET.CNF'') FA_EXISTING_READ d = (ret, d1)" by fastforce
  note first = assms(2) [unfolded o Let_def prod.case]
  show ?thesis
    unfolding sdcard_process_def Let_def o 3 4 5 6 first prod.case and_then.simps by blast
qed

lemma sdcard_process_conf:
  assumes "malloc_succeeds heap" "ff_open ff (cstr ''NET.CNF'') FA_EXISTING_READ d = (0, d1)"
    and "sdcard_netconf fuel ff inet_aton conf d1 = Ran (c, d2)"
  shows "\<exists>d'. sdcard_process fuel ff heap inet_aton conf d = Ran (c, d')"
  using assms by (intro sdcard_process_split) auto

lemma sdcard_process_ran:
  assumes "gets_contract ff lines" "\<And>d. length (lines d) < fuel" "length (hwaddr conf) = 6" "malloc_succeeds heap"
    and "\<And>d. netcnf_file ff d \<Longrightarrow> list_all (\<lambda>l. \<not> bare_hwaddr l) (lines d)"
  shows "\<exists>conf' d'. sdcard_process fuel ff heap inet_aton conf d = Ran (conf', d') \<and> length (hwaddr conf') = 6"
proof -
  obtain r d1 where o: "ff_open ff (cstr ''NET.CNF'') FA_EXISTING_READ d = (r, d1)" by fastforce
  show ?thesis
  proof (cases "r = 0")
    case True
    then have "netcnf_file ff d1" using o by (auto simp: netcnf_file_def)
    from assms(5) [OF this] obtain d2 where
      "sdcard_netconf fuel ff inet_aton conf d1 = Ran (netconf_all inet_aton (lines d1) conf, d2)"
      "length (hwaddr (netconf_all inet_aton (lines d1) conf)) = 6"
      using sdcard_netconf_lines(1) [OF assms(1,2)] netconf_all_hwaddr [OF _ assms(3)] by blast
    with sdcard_process_conf [OF assms(4), of ff d d1] o True show ?thesis by blast
  next
    case False
    with o assms(3) sdcard_process_split [OF assms(4), of ff d conf fuel inet_aton conf d1] show ?thesis by auto
  qed
qed

lemma sdcard_trypart_ran:
  assumes "gets_contract ff lines" "\<And>d. length (lines d) < fuel" "length (hwaddr conf) = 6" "malloc_succeeds heap"
    and "\<And>d. netcnf_file ff d \<Longrightarrow> list_all (\<lambda>l. \<not> bare_hwaddr l) (lines d)"
  shows "\<exists>ok conf' d'. sdcard_trypart fuel ff heap inet_aton root conf d = Ran (ok, conf', d')
           \<and> length (hwaddr conf') = 6 \<and> (\<not> ok \<longrightarrow> conf' = conf)"
proof -
  obtain r1 d1 where 1: "ff_mount ff root d = (r1, d1)" by fastforce
  obtain r2 d2 where 2: "ff_chdir ff root d1 = (r2, d2)" by fastforce
  obtain conf' d' where "sdcard_process fuel ff heap inet_aton conf d2 = Ran (conf', d')" "length (hwaddr conf') = 6"
    using sdcard_process_ran [OF assms] by blast
  with 1 2 assms(3) show ?thesis by (auto simp: sdcard_trypart_def)
qed

text \<open>
  C24. Boot from the card, and where it is undefined: if memory can be allocated and no \<open>NET.CNF\<close> that can be opened has a
  line \<open>hwaddr\<close> without argument, handling the card ends without undefined behaviour however the file system fails, the
  hardware address keeps its six bytes, and when neither partition can be mounted the configuration is the
  one passed in. Conversely, such a line anywhere in the \<open>NET.CNF\<close> of the first partition is undefined behaviour: its missing argument is
  printed as a string.
\<close>

theorem sdcard_handle_defined:
  assumes "gets_contract ff lines" "\<And>d. length (lines d) < fuel" "length (hwaddr conf) = 6"
  shows "(malloc_succeeds heap \<and> (\<forall>d. netcnf_file ff d \<longrightarrow> list_all (\<lambda>l. \<not> bare_hwaddr l) (lines d)) \<longrightarrow>
            (\<exists>conf' d'. sdcard_handle fuel ff heap inet_aton conf d = Ran (conf', d') \<and> length (hwaddr conf') = 6
               \<and> ((\<forall>root e. fst (ff_mount ff root e) \<noteq> 0) \<longrightarrow> conf' = conf)))
     \<and> (\<forall>d1 d2 d3 l. ff_mount ff (cstr ''0:/'') d = (0, d1) \<and> ff_chdir ff (cstr ''0:/'') d1 = (0, d2)
            \<and> ff_open ff (cstr ''NET.CNF'') FA_EXISTING_READ d2 = (0, d3) \<and> l \<in> set (lines d3) \<and> bare_hwaddr l \<longrightarrow>
          sdcard_handle fuel ff heap inet_aton conf d = Undef)"
proof (intro conjI allI impI)
  assume good: "malloc_succeeds heap \<and> (\<forall>d. netcnf_file ff d \<longrightarrow> list_all (\<lambda>l. \<not> bare_hwaddr l) (lines d))"
  obtain ok c1 d1 where 1: "sdcard_trypart fuel ff heap inet_aton (cstr ''0:/'') conf d = Ran (ok, c1, d1)"
    "length (hwaddr c1) = 6" "\<not> ok \<longrightarrow> c1 = conf"
    using sdcard_trypart_ran [OF assms] good by blast
  obtain ok2 c2 d2 where 2: "sdcard_trypart fuel ff heap inet_aton (cstr ''1:/'') c1 d1 = Ran (ok2, c2, d2)"
    "length (hwaddr c2) = 6" "\<not> ok2 \<longrightarrow> c2 = c1"
    using sdcard_trypart_ran [OF assms(1,2) 1(2)] good by blast
  have "\<not> ok \<and> \<not> ok2" if "\<forall>root e. fst (ff_mount ff root e) \<noteq> 0"
  proof -
    have none: "\<exists>e'. sdcard_trypart fuel ff heap inet_aton root c e = Ran (False, c, e')" for root c e
      using that by (auto simp: sdcard_trypart_def split: prod.split) (metis fst_conv)
    from none [of "cstr ''0:/''" conf d] none [of "cstr ''1:/''" c1 d1] 1(1) 2(1) show ?thesis by auto
  qed
  with 1 2 show "\<exists>conf' d'. sdcard_handle fuel ff heap inet_aton conf d = Ran (conf', d') \<and> length (hwaddr conf') = 6
      \<and> ((\<forall>root e. fst (ff_mount ff root e) \<noteq> 0) \<longrightarrow> conf' = conf)"
    by (cases ok) (auto simp: sdcard_handle_def)
next
  fix d1 d2 d3 l
  assume card: "ff_mount ff (cstr ''0:/'') d = (0, d1) \<and> ff_chdir ff (cstr ''0:/'') d1 = (0, d2)
      \<and> ff_open ff (cstr ''NET.CNF'') FA_EXISTING_READ d2 = (0, d3) \<and> l \<in> set (lines d3) \<and> bare_hwaddr l"
  then have "\<not> list_all (\<lambda>l. \<not> bare_hwaddr l) (lines d3)" by (auto simp: list_all_iff)
  then have "sdcard_netconf fuel ff inet_aton conf d3 = Undef" by (rule sdcard_netconf_lines(2) [OF assms(1,2)])
  with card show "sdcard_handle fuel ff heap inet_aton conf d = Undef"
    by (simp add: sdcard_handle_def sdcard_trypart_def sdcard_process_def Let_def)
qed

text \<open>A heap for evaluation, whose blocks hold 0xA5.\<close>

definition demo_heap :: "'d heap" where
  "demo_heap = \<lparr>hp_malloc = (\<lambda>n d. (Some (replicate n 0xA5), d)), hp_free = (\<lambda>b d. d)\<rparr>"

lemma demo_malloc_succeeds: "malloc_succeeds demo_heap"
  by (simp add: malloc_succeeds_def demo_heap_def)

text \<open>A card whose files hold no line.\<close>

theorem sdcard_handle_defined_witness:
  "(\<exists>conf' d'. sdcard_handle 100 (demo_fatfs\<lparr>ff_open := (\<lambda>n m d. (0, []))\<rparr>) demo_heap (\<lambda>a. None) conf_zero [cstr ''x''] = Ran (conf', d')
     \<and> length (hwaddr conf') = 6)
   \<and> sdcard_handle 100 demo_fatfs demo_heap (\<lambda>a. None) conf_zero [cstr ''dhcp no'', cstr ''hwaddr''] = Undef"
proof
  let ?ff = "demo_fatfs\<lparr>ff_open := (\<lambda>n m d. (0, []))\<rparr>"
  have len: "length (demo_lines d) < 100" for d by (simp add: demo_lines_def)
  have six: "length (hwaddr conf_zero) = 6" by (simp add: conf_zero_def)
  have gets: "gets_contract ?ff demo_lines" using demo_gets_contract by (simp add: gets_contract_def)
  have none: "\<forall>d. netcnf_file ?ff d \<longrightarrow> list_all (\<lambda>l. \<not> bare_hwaddr l) (demo_lines d)"
    by (simp add: netcnf_file_def demo_lines_def)
  show "\<exists>conf' d'. sdcard_handle 100 ?ff demo_heap (\<lambda>a. None) conf_zero [cstr ''x''] = Ran (conf', d')
     \<and> length (hwaddr conf') = 6"
    using sdcard_handle_defined [OF gets len six, THEN conjunct1, of demo_heap] none demo_malloc_succeeds by blast
  let ?d = "[cstr ''dhcp no'', cstr ''hwaddr'']"
  have bare: "bare_hwaddr (cstr ''hwaddr'')" by code_simp
  have calls: "ff_mount demo_fatfs (cstr ''0:/'') ?d = (0, ?d)" "ff_chdir demo_fatfs (cstr ''0:/'') ?d = (0, ?d)"
    "ff_open demo_fatfs (cstr ''NET.CNF'') FA_EXISTING_READ ?d = (0, ?d)" "cstr ''hwaddr'' \<in> set (demo_lines ?d)"
    by (simp_all add: demo_fatfs_def demo_lines_def)
  show "sdcard_handle 100 demo_fatfs demo_heap (\<lambda>a. None) conf_zero ?d = Undef"
    using sdcard_handle_defined [OF demo_gets_contract len six, THEN conjunct2] calls bare by blast
qed

end
