(* ===== verification/Net_Setup.thy ===== *)
theory Net_Setup
  imports Sdcard
begin

text \<open>
  Bringing up the network, \<open>src/sw/src/net_setup.c\<close>: the calls \<open>net_setup\<close> makes for a configuration,
  and the timers of the DHCP thread. lwIP's results are arguments, and so are its two DHCP timer
  periods; printing is left out.
\<close>

section \<open>Definitions\<close>

datatype net_step =
    Lwip_init | Xemac_add u32 u32 u32 bytes | Add_failed | Netif_set_default | Netif_set_up
  | Start_NIC | Dhcp_start | Start_dhcpcd | Dhcp_failed

text \<open>\<open>add_ok\<close>: \<open>xemac_add\<close> succeeded; \<open>dhcp_err\<close>: what \<open>dhcp_start\<close> returned.\<close>

definition net_setup :: "bool \<Rightarrow> int \<Rightarrow> net_config \<Rightarrow> net_step list" where
  "net_setup add_ok dhcp_err conf =
     [Lwip_init, Xemac_add (nc_addr conf) (nc_mask conf) (nc_gw conf) (hwaddr conf)] @
     (if \<not> add_ok then [Add_failed]
      else [Netif_set_default, Netif_set_up, Start_NIC] @
           (if use_static conf = 0
            then [Dhcp_start, if dhcp_err = 0 then Start_dhcpcd else Dhcp_failed]
            else []))"

datatype dhcp_call = Fine_tmr | Coarse_tmr

text \<open>One round of the DHCP thread: the timer calls and the new millisecond count.\<close>

definition dhcp_round :: "nat \<Rightarrow> nat \<Rightarrow> nat \<Rightarrow> dhcp_call list \<times> nat" where
  "dhcp_round fine_msecs coarse_secs mscnt =
     (let mscnt' = mscnt + fine_msecs
      in if coarse_secs * 1000 \<le> mscnt' then ([Fine_tmr, Coarse_tmr], 0) else ([Fine_tmr], mscnt'))"

fun dhcp_client :: "nat \<Rightarrow> nat \<Rightarrow> nat \<Rightarrow> nat \<Rightarrow> dhcp_call list \<times> nat" where
  "dhcp_client 0 fine_msecs coarse_secs mscnt = ([], mscnt)"
| "dhcp_client (Suc n) fine_msecs coarse_secs mscnt =
     (let (calls, mscnt') = dhcp_round fine_msecs coarse_secs mscnt;
          (more, mscnt'') = dhcp_client n fine_msecs coarse_secs mscnt'
      in (calls @ more, mscnt''))"

section \<open>Properties\<close>

lemma dhcp_client_counts:
  assumes "coarse_secs * 1000 = p * fine_msecs" "0 < fine_msecs" "0 < p" "j < p"
  shows "count_list (fst (dhcp_client n fine_msecs coarse_secs (j * fine_msecs))) Fine_tmr = n
     \<and> count_list (fst (dhcp_client n fine_msecs coarse_secs (j * fine_msecs))) Coarse_tmr = (j + n) div p"
  using assms(4)
proof (induction n arbitrary: j)
  case 0
  then show ?case by simp
next
  case (Suc n)
  show ?case
  proof (cases "Suc j = p")
    case True
    then have "dhcp_round fine_msecs coarse_secs (j * fine_msecs) = ([Fine_tmr, Coarse_tmr], 0 * fine_msecs)"
      using assms(1) by (simp add: dhcp_round_def flip: True) 
    moreover have "(j + Suc n) div p = Suc (n div p)"
      using True assms(3) by (metis add_Suc_right add_Suc_shift div_add_self1 less_not_refl Suc_eq_plus1 add.commute)
    ultimately show ?thesis
      using Suc.IH [of 0] assms(3) by (auto split: prod.split)
  next
    case False
    then have "(j + 1) * fine_msecs < p * fine_msecs"
      using Suc.prems assms(2) by (intro mult_strict_right_mono) simp_all
    then have "dhcp_round fine_msecs coarse_secs (j * fine_msecs) = ([Fine_tmr], Suc j * fine_msecs)"
      using assms(1) by (simp add: dhcp_round_def add.commute)
    then show ?thesis
      using Suc.IH [of "Suc j"] False Suc.prems by (auto split: prod.split)
  qed
qed

text \<open>
  The DHCP timers: when the coarse period is a whole number \<open>p\<close> of fine periods, as with lwIP's
  60 s and 500 ms, then after \<open>n\<close> rounds the fine timer has run \<open>n\<close> times and the coarse timer
  exactly \<open>n div p\<close> times, with no drift.
\<close>

theorem dhcp_client_timers:
  assumes "coarse_secs * 1000 = p * fine_msecs" "0 < fine_msecs" "0 < p"
  shows "count_list (fst (dhcp_client n fine_msecs coarse_secs 0)) Fine_tmr = n
     \<and> count_list (fst (dhcp_client n fine_msecs coarse_secs 0)) Coarse_tmr = n div p"
  using dhcp_client_counts [OF assms assms(3), of n] by simp

theorem dhcp_client_timers_witness:
  "count_list (fst (dhcp_client 1000 500 60 0)) Coarse_tmr = 8"
  using dhcp_client_timers [of 60 120 500 1000] by simp

end
