(* ===== verification/Boot.thy ===== *)
theory Boot
  imports Net_Setup
begin

text \<open>
  The network part of the start-up, the first block of \<open>realmain\<close> in \<open>src/sw/src/main.c\<close>: an empty configuration is
  filled from the card (\<open>Sdcard\<close>) and handed to \<open>net_setup\<close> (\<open>Net_Setup\<close>).

  \<open>netcnf\<close> writes a configuration in the format of \<open>NET.CNF\<close>; reading it back at boot is shown to give the
  configuration. \<open>ntoa\<close> is a way of writing an IP address that \<open>inet_aton\<close> accepts (\<open>inet_contract\<close>).
\<close>

section \<open>Definitions\<close>

definition boot_network ::
  "nat \<Rightarrow> 'd fatfs \<Rightarrow> 'd heap \<Rightarrow> (bytes \<Rightarrow> u32 option) \<Rightarrow> bool \<Rightarrow> int \<Rightarrow> 'd \<Rightarrow> (net_step list \<times> 'd) run" where
  "boot_network fuel ff heap inet_aton add_ok dhcp_err d =
     and_then (sdcard_handle fuel ff heap inet_aton conf_zero d)
       (\<lambda>(conf, d'). Ran (net_setup add_ok dhcp_err conf, d'))"

definition netcnf_line :: "string \<Rightarrow> bytes \<Rightarrow> bytes" where
  "netcnf_line cmd arg = cstr cmd @ [0x20] @ arg @ [0x0A]"

definition netcnf :: "(u32 \<Rightarrow> bytes) \<Rightarrow> net_config \<Rightarrow> bytes list" where
  "netcnf ntoa conf =
     [netcnf_line ''addr'' (ntoa (nc_addr conf)), netcnf_line ''mask'' (ntoa (nc_mask conf)),
      netcnf_line ''gw'' (ntoa (nc_gw conf)), netcnf_line ''hwaddr'' (mac_string (hwaddr conf)),
      netcnf_line ''dhcp'' (if use_static conf = 0 then cstr ''yes'' else cstr ''no'')]"

definition word_arg :: "bytes \<Rightarrow> bool" where
  "word_arg a \<longleftrightarrow> a \<noteq> [] \<and> list_all (\<lambda>c. \<not> isspace c) a"

definition inet_contract :: "(bytes \<Rightarrow> u32 option) \<Rightarrow> (u32 \<Rightarrow> bytes) \<Rightarrow> bool" where
  "inet_contract inet_aton ntoa \<longleftrightarrow> (\<forall>x. inet_aton (ntoa x) = Some x \<and> word_arg (ntoa x))"

section \<open>Lines\<close>

lemma split_line_word:
  assumes "word_arg cmd" "hd cmd \<noteq> 0x23" "word_arg arg"
  shows "split_line (cmd @ [0x20] @ arg @ [0x0A]) = Some (cmd, Some arg)"
proof -
  have sp: "isspace 0x20" "isspace 0x0A" by (simp_all add: isspace_def)
  have words: "\<not> isspace (hd w) \<and> takeWhile (\<lambda>c. \<not> isspace c) (w @ s # r) = w
      \<and> dropWhile (\<lambda>c. \<not> isspace c) (w @ s # r) = s # r \<and> dropWhile isspace (w @ r) = w @ r"
    if "word_arg w" "isspace s" for w s r
    using that by (cases w) (simp_all add: word_arg_def list_all_iff takeWhile_append dropWhile_append)
  have "cmd \<noteq> []" "arg \<noteq> []" "\<exists>x \<in> set arg. \<not> isspace x"
    using assms(1,3) by (auto simp: word_arg_def neq_Nil_conv)
  with assms(2) words [OF assms(1) sp(1), of "arg @ [0x0A]"] words [OF assms(1) sp(1), of "0x20 # arg @ [0x0A]"]
    words [OF assms(3) sp(2), of "[]"] words [OF assms(3) sp(2), of "[0x0A]"] sp
  show ?thesis by (simp add: split_line_def Let_def)
qed

lemma netconf_netcnf_line:
  assumes "word_arg (cstr cmd)" "hd (cstr cmd) \<noteq> 0x23" "word_arg arg"
  shows "netconf_line inet_aton (netcnf_line cmd arg) conf = netconf_cmd inet_aton (cstr cmd) (Some arg) conf"
  using split_line_word [OF assms] by (simp add: netconf_line_def netcnf_line_def)

lemma word_arg_hex_digit: "x < 16 \<Longrightarrow> \<not> isspace (hex_digit x)"
proof -
  assume "x < 16"
  moreover have "\<forall>n \<in> set [0..<16]. \<not> isspace (hex_digit (of_nat n))"
    by (simp add: upt_rec isspace_def hex_digit_def)
  ultimately show ?thesis
    by (auto simp: word_less_nat_alt dest!: bspec [of _ _ "unat x"])
qed

lemma word_arg_mac: "xs \<noteq> [] \<Longrightarrow> word_arg (mac_string xs)"
  by (induction xs rule: mac_string.induct)
    (auto simp: word_arg_def hex_byte_def word_arg_hex_digit nibbles_less, simp add: isspace_def)

text \<open>The whole file, read into an empty configuration.\<close>

lemma netconf_all_netcnf:
  assumes "inet_contract inet_aton ntoa" "length (hwaddr conf) = 6" "use_static conf \<in> {0, 1}"
  shows "netconf_all inet_aton (netcnf ntoa conf) conf_zero = conf"
proof -
  have cmds: "word_arg (cstr ''addr'')" "word_arg (cstr ''mask'')" "word_arg (cstr ''gw'')" "word_arg (cstr ''hwaddr'')"
    "word_arg (cstr ''dhcp'')" "word_arg (cstr ''yes'')" "word_arg (cstr ''no'')"
    by (simp_all add: word_arg_def cstr_def isspace_def)
  have addr: "word_arg (ntoa x)" "inet_aton (ntoa x) = Some x" for x
    using assms(1) by (simp_all add: inet_contract_def)
  have mac: "word_arg (mac_string (hwaddr conf))" using assms(2) by (intro word_arg_mac) auto
  have "hd (mac_string (hwaddr conf)) \<noteq> 0x65 \<or> length (mac_string (hwaddr conf)) \<noteq> 6"
    using assms(2) by (auto simp: numeral_eq_Suc length_Suc_conv hex_byte_def)
  then have "mac_string (hwaddr conf) \<noteq> cstr ''eeprom''" by (auto simp: cstr_def)
  with cmds addr mac assms(3) parse_hwaddr_mac [OF assms(2)] show ?thesis
    by (auto simp: netcnf_def netconf_netcnf_line netconf_cmd_def sdcard_parse_inet_def cstr_def conf_zero_def)
qed

lemma netcnf_no_bare_hwaddr:
  assumes "inet_contract inet_aton ntoa" "length (hwaddr conf) = 6"
  shows "list_all (\<lambda>l. \<not> bare_hwaddr l) (netcnf ntoa conf)"
proof -
  have cmds: "word_arg (cstr ''addr'')" "word_arg (cstr ''mask'')" "word_arg (cstr ''gw'')" "word_arg (cstr ''hwaddr'')"
    "word_arg (cstr ''dhcp'')" "word_arg (cstr ''yes'')" "word_arg (cstr ''no'')"
    by (simp_all add: word_arg_def cstr_def isspace_def)
  have hash: "hd (cstr ''addr'') \<noteq> 0x23" "hd (cstr ''mask'') \<noteq> 0x23" "hd (cstr ''gw'') \<noteq> 0x23"
    "hd (cstr ''hwaddr'') \<noteq> 0x23" "hd (cstr ''dhcp'') \<noteq> 0x23"
    by (simp_all add: cstr_def)
  have args: "word_arg (ntoa x)" "word_arg (mac_string (hwaddr conf))" for x
    using assms by (auto simp: inet_contract_def intro: word_arg_mac)
  have "\<not> bare_hwaddr (netcnf_line cmd arg)" if "word_arg (cstr cmd)" "hd (cstr cmd) \<noteq> 0x23" "word_arg arg" for cmd arg
    using split_line_word [OF that] by (simp add: bare_hwaddr_def netcnf_line_def)
  with cmds hash args show ?thesis by (simp add: netcnf_def)
qed

section \<open>From the card to the interface\<close>

lemma sdcard_handle_first_partition:
  assumes "gets_contract ff lines" "malloc_succeeds heap"
    and "ff_mount ff (cstr ''0:/'') d = (0, d1)" "ff_chdir ff (cstr ''0:/'') d1 = (0, d2)"
    and "ff_open ff (cstr ''NET.CNF'') FA_EXISTING_READ d2 = (0, d3)" "length (lines d3) < fuel"
    and "list_all (\<lambda>l. \<not> bare_hwaddr l) (lines d3)"
  shows "\<exists>d'. sdcard_handle fuel ff heap inet_aton conf d = Ran (netconf_all inet_aton (lines d3) conf, d')"
proof -
  obtain d4 where "sdcard_netconf fuel ff inet_aton conf d3 = Ran (netconf_all inet_aton (lines d3) conf, d4)"
    using sdcard_netconf_lines(1) [OF assms(1,6,7)] by blast
  then have "\<exists>d'. sdcard_process fuel ff heap inet_aton conf d2 = Ran (netconf_all inet_aton (lines d3) conf, d')"
    using sdcard_process_conf [OF assms(2,5)] by blast
  then show ?thesis
    using assms(3,4) by (auto simp: sdcard_handle_def sdcard_trypart_def)
qed

text \<open>
  C22. Boot with a written configuration: when the first partition of the card has a \<open>NET.CNF\<close> in which a
  configuration has been written, and \<open>malloc\<close> does not fail, the interface is added with exactly its address, netmask, gateway and
  hardware address, and the DHCP client is started if and only if the configuration asks for it.
\<close>

theorem boot_network_roundtrip:
  assumes "inet_contract inet_aton ntoa" "gets_contract ff lines" "malloc_succeeds heap"
    and "ff_mount ff (cstr ''0:/'') d = (0, d1)" "ff_chdir ff (cstr ''0:/'') d1 = (0, d2)"
    and "ff_open ff (cstr ''NET.CNF'') FA_EXISTING_READ d2 = (0, d3)" "lines d3 = netcnf ntoa conf"
    and "length (hwaddr conf) = 6" "use_static conf \<in> {0, 1}" "5 < fuel"
  shows "\<exists>d' steps. boot_network fuel ff heap inet_aton add_ok dhcp_err d =
             Ran ([Lwip_init, Xemac_add (nc_addr conf) (nc_mask conf) (nc_gw conf) (hwaddr conf)] @ steps, d')
           \<and> (Dhcp_start \<in> set steps \<longleftrightarrow> add_ok \<and> use_static conf = 0)
           \<and> (Start_dhcpcd \<in> set steps \<longleftrightarrow> add_ok \<and> use_static conf = 0 \<and> dhcp_err = 0)"
proof -
  have "length (lines d3) < fuel" using assms(7,10) by (simp add: netcnf_def)
  then obtain d' where "sdcard_handle fuel ff heap inet_aton conf_zero d = Ran (conf, d')"
    using sdcard_handle_first_partition [OF assms(2-6), of fuel inet_aton conf_zero]
      netconf_all_netcnf [OF assms(1,8,9)] netcnf_no_bare_hwaddr [OF assms(1,8)] assms(7) by auto
  then show ?thesis by (simp add: boot_network_def net_setup_def)
qed

text \<open>Addresses in unary, for evaluation.\<close>

definition demo_ntoa :: "u32 \<Rightarrow> bytes" where
  "demo_ntoa x = replicate (Suc (unat x)) 0x31"

definition demo_aton :: "bytes \<Rightarrow> u32 option" where
  "demo_aton a = Some (of_nat (length a - 1))"

lemma demo_inet_contract: "inet_contract demo_aton demo_ntoa"
  by (simp add: inet_contract_def demo_aton_def demo_ntoa_def word_arg_def isspace_def list_all_iff)

definition demo_conf :: net_config where
  "demo_conf = \<lparr>nc_addr = 5, nc_mask = 6, nc_gw = 7, use_static = 1, hwaddr = [1, 2, 3, 4, 5, 6]\<rparr>"

theorem boot_network_roundtrip_witness:
  "\<exists>d' steps. boot_network 6 demo_fatfs demo_heap demo_aton True 0 (netcnf demo_ntoa demo_conf) =
       Ran ([Lwip_init, Xemac_add 5 6 7 [1, 2, 3, 4, 5, 6]] @ steps, d') \<and> Dhcp_start \<notin> set steps"
proof -
  let ?d = "netcnf demo_ntoa demo_conf"
  have lines: "demo_lines ?d = netcnf demo_ntoa demo_conf" by (simp add: demo_lines_def netcnf_def)
  have calls: "ff_mount demo_fatfs (cstr ''0:/'') ?d = (0, ?d)" "ff_chdir demo_fatfs (cstr ''0:/'') ?d = (0, ?d)"
    "ff_open demo_fatfs (cstr ''NET.CNF'') FA_EXISTING_READ ?d = (0, ?d)"
    by (simp_all add: demo_fatfs_def)
  have conf: "length (hwaddr demo_conf) = 6" "use_static demo_conf \<in> {0, 1}" "(5::nat) < 6"
    by (simp_all add: demo_conf_def)
  from boot_network_roundtrip [OF demo_inet_contract demo_gets_contract demo_malloc_succeeds calls lines conf, of True 0]
  show ?thesis by (auto simp: demo_conf_def)
qed

section \<open>The hardware address\<close>

text \<open>The hardware address a line sets, if it sets one.\<close>

definition hw_choice :: "bytes \<Rightarrow> bytes option" where
  "hw_choice line =
     (case split_line line of
        Some (cmd, Some a) \<Rightarrow>
          if cmd = cstr ''hwaddr'' \<and> a \<noteq> cstr ''eeprom'' then (case parse_hwaddr a of Some hw \<Rightarrow> hw | None \<Rightarrow> None)
          else None
      | _ \<Rightarrow> None)"

lemma hwaddr_line:
  "\<not> bare_hwaddr line \<Longrightarrow> hwaddr (the (netconf_line inet_aton line conf)) = (case hw_choice line of None \<Rightarrow> hwaddr conf | Some hw \<Rightarrow> hw)"
  by (auto simp: netconf_line_def netconf_cmd_def hw_choice_def bare_hwaddr_def split: option.splits prod.splits)

text \<open>
  Without a valid \<open>hwaddr\<close> line the interface gets the hardware address zero; this includes the line
  \<open>hwaddr eeprom\<close>, for which the program reports that it takes the address from the EEPROM.
\<close>

theorem boot_without_hwaddr:
  assumes "gets_contract ff lines" "malloc_succeeds heap"
    and "ff_mount ff (cstr ''0:/'') d = (0, d1)" "ff_chdir ff (cstr ''0:/'') d1 = (0, d2)"
    and "ff_open ff (cstr ''NET.CNF'') FA_EXISTING_READ d2 = (0, d3)" "length (lines d3) < fuel"
    and "list_all (\<lambda>l. hw_choice l = None \<and> \<not> bare_hwaddr l) (lines d3)"
  shows "\<exists>a m g steps d'. boot_network fuel ff heap inet_aton add_ok dhcp_err d =
           Ran ([Lwip_init, Xemac_add a m g [0, 0, 0, 0, 0, 0]] @ steps, d')"
proof -
  have "hwaddr (netconf_all inet_aton ls c) = hwaddr c" if "list_all (\<lambda>l. hw_choice l = None \<and> \<not> bare_hwaddr l) ls" for ls c
    using that by (induction ls arbitrary: c) (simp_all add: hwaddr_line)
  from this [OF assms(7), of conf_zero] have "hwaddr (netconf_all inet_aton (lines d3) conf_zero) = [0, 0, 0, 0, 0, 0]"
    by (simp add: conf_zero_def numeral_eq_Suc)
  moreover have "list_all (\<lambda>l. \<not> bare_hwaddr l) (lines d3)" using assms(7) by (simp add: list_all_iff)
  ultimately show ?thesis using sdcard_handle_first_partition [OF assms(1-6), of inet_aton conf_zero]
    by (auto simp: boot_network_def net_setup_def)
qed

end
