(* ===== verification/Discover.thy ===== *)
theory Discover
  imports Pscmsg
begin

text \<open>
  UDP discovery, \<open>src/sw/src/discover.c\<close>: which datagrams are answered, the static reply, and what
  happens to the buffers.

  A datagram is its bytes, of which the code copies at most 12, the size of its local struct (two
  chars, a \<open>u16\<close>, a \<open>u32\<close> and a \<open>u16\<close>, padded to a multiple of four). The pbuf of a received datagram belongs to the
  receive callback (lwIP's raw API); \<open>held\<close> counts those it has been given and has not freed.
\<close>

section \<open>Definitions\<close>

record disco_state =
  reply_buf :: "bytes option"
  held :: nat

definition disco_reply :: "u32 \<Rightarrow> bytes" where
  "disco_reply git_hash =
     [CH_P, CH_S] @ put16 (htons 1234) @ put32 (htonl 8) @ put32 (htonl git_hash) @ put16 0 @ [0, 0]"

text \<open>Whether a datagram passes all checks of \<open>disco_recv\<close>; the serial number check has no effect.\<close>

definition disco_accepts :: "bytes \<Rightarrow> bool" where
  "disco_accepts d =
     (let n = min (length d) 12 in
      if n < 8 \<or> d ! 0 \<noteq> CH_P \<or> d ! 1 \<noteq> CH_S then False
      else let msgid = ntohs (get16 (drop 2 d));
               msglen = ntohl (get32 (drop 4 d))
           in if n - 8 < unat msglen then False else msgid = 1234)"

definition disco_recv :: "bool \<Rightarrow> bytes \<Rightarrow> disco_state \<Rightarrow> bytes option \<times> disco_state" where
  "disco_recv alloc_ok d st =
     (let st' = st\<lparr>held := held st + 1\<rparr>
      in if disco_accepts d \<and> alloc_ok then (reply_buf st', st') else (None, st'))"

datatype disco_prep_ret = NoPcb | NoReplyBuf | Listening

text \<open>\<open>discover_prep\<close>, for the results of its allocations; a failing \<open>udp_bind\<close> is only reported.\<close>

definition discover_prep :: "bool \<Rightarrow> bool \<Rightarrow> u32 \<Rightarrow> disco_state \<Rightarrow> disco_prep_ret \<times> disco_state" where
  "discover_prep pcb_ok reply_ok git_hash st =
     (if \<not> pcb_ok then (NoPcb, st)
      else if \<not> reply_ok then (NoReplyBuf, st\<lparr>reply_buf := None\<rparr>)
      else (Listening, st\<lparr>reply_buf := Some (disco_reply git_hash)\<rparr>))"

section \<open>Properties\<close>

lemma disco_reply_frame: "disco_reply git_hash = psc_frame 1234 (be32 git_hash @ [0, 0, 0, 0])"
  by (simp add: disco_reply_def psc_frame_def be16_def be32_def put16.simps [of 0])

lemma nat_u32_len: "length body < 2 ^ 32 \<Longrightarrow> unat (of_nat (length body) :: u32) = length body"
  by (simp add: unat_of_nat take_bit_nat_eq_self)

text \<open>
  C29. Discovery requests: a datagram that holds a complete PSC message with number 1234 is answered,
  with a PSC message of the same number, exactly when its body has at most four bytes; a complete
  request with a longer body is taken for a truncated one, and any other number is ignored.
\<close>

theorem disco_recv_answers:
  assumes "length body < 2 ^ 32" "discover_prep True True git_hash st = (Listening, st1)"
  shows "fst (disco_recv True (psc_frame mid body) st1) =
     (if mid = 1234 \<and> length body \<le> 4 then Some (psc_frame 1234 (be32 git_hash @ [0, 0, 0, 0])) else None)"
proof -
  let ?d = "psc_frame mid body" and ?n = "of_nat (length body) :: u32"
  have d: "?d = CH_P # CH_S # put16 (htons mid) @ put32 (htonl ?n) @ body"
    by (simp add: psc_frame_def be16_def be32_def)
  have "drop 2 ?d = put16 (htons mid) @ put32 (htonl ?n) @ body" "drop 4 ?d = put32 (htonl ?n) @ body"
    unfolding d by simp_all
  then have "disco_accepts ?d \<longleftrightarrow> mid = 1234 \<and> length body \<le> 4"
    using nat_u32_len [OF assms(1)] d by (auto simp: disco_accepts_def Let_def)
  with assms(2) show ?thesis
    by (auto simp: disco_recv_def Let_def discover_prep_def disco_reply_frame)
qed

theorem disco_recv_answers_witness:
  "fst (disco_recv True (psc_frame 1234 [0, 7]) \<lparr>reply_buf = Some (disco_reply 5), held = 0\<rparr>) =
     Some (psc_frame 1234 (be32 5 @ [0, 0, 0, 0]))"
  using disco_recv_answers [of "[0, 7]" 5 "\<lparr>reply_buf = None, held = 0\<rparr>" "\<lparr>reply_buf = Some (disco_reply 5), held = 0\<rparr>" 1234]
  by (simp add: discover_prep_def)

text \<open>
  Every datagram that reaches the discovery port, answered or not, leaves its pbuf allocated: the
  callback never frees the buffer it was given.
\<close>

theorem disco_recv_leaks:
  "held (fold (\<lambda>(ok, d) st. snd (disco_recv ok d st)) ds st) = held st + length ds"
  by (induction ds arbitrary: st) (auto simp: disco_recv_def Let_def split: prod.split)

end
