(* ===== verification/I2c.thy ===== *)
theory I2c
  imports Prelude
begin

text \<open>
  The I2C devices of \<open>src/sw/src/i2c.c\<close>: the initialisation of the two buses, transfers on them, the
  register tables of the two oscillators and the routines that write them, and the INA226 power monitor.

  The driver of a bus is a parameter, the record \<open>i2c_drv\<close> of its calls on a bus state \<open>'b\<close>;
  \<open>XIicPs_MasterSendPolled\<close> and \<open>XIicPs_MasterRecvPolled\<close> give a status that is 0 on success. Every
  transfer waits for the bus first, for at most \<open>fuel\<close> polls: \<open>None\<close> is a bus that stays busy. A routine
  that ignores the status is the list of its transfers, which \<open>i2c0_run\<close> executes. Multiplying a raw
  reading with its scale is the parameter \<open>scale\<close>.
\<close>

section \<open>Buses\<close>

text \<open>
  \<open>init_i2c\<close>, for the base addresses \<open>lookup\<close> finds in the configuration table. A bus that is not in
  the table is only reported, and its configuration then read through a null pointer (\<open>None\<close>); the
  status of \<open>XIicPs_CfgInitialize\<close> is only reported as well.
\<close>

datatype i2c_init = Cfg_initialize nat u32 | Set_sclk nat nat

definition init_i2c :: "(nat \<Rightarrow> u32 option) \<Rightarrow> i2c_init list option" where
  "init_i2c lookup =
     (case lookup 0 of
        None \<Rightarrow> None
      | Some base0 \<Rightarrow>
          (case lookup 1 of
             None \<Rightarrow> None
           | Some base1 \<Rightarrow>
               Some [Cfg_initialize 0 base0, Cfg_initialize 1 base1, Set_sclk 0 100000, Set_sclk 1 100000]))"

record 'b i2c_drv =
  BusIsBusy :: "'b \<Rightarrow> bool \<times> 'b"
  MasterSendPolled :: "'b \<Rightarrow> u8 \<Rightarrow> bytes \<Rightarrow> int \<times> 'b"
  MasterRecvPolled :: "'b \<Rightarrow> u8 \<Rightarrow> nat \<Rightarrow> int \<times> bytes \<times> 'b"

fun bus_wait :: "nat \<Rightarrow> 'b i2c_drv \<Rightarrow> 'b \<Rightarrow> 'b option" where
  "bus_wait 0 drv b = None"
| "bus_wait (Suc fuel) drv b =
     (let (busy, b') = BusIsBusy drv b in if busy then bus_wait fuel drv b' else Some b')"

text \<open>The transfers of the two buses are the same code on their own driver instances.\<close>

definition i2c0_write :: "nat \<Rightarrow> 'b i2c_drv \<Rightarrow> bytes \<Rightarrow> u8 \<Rightarrow> u8 \<Rightarrow> 'b \<Rightarrow> (int \<times> 'b) option" where
  "i2c0_write fuel drv0 buf len addr b =
     map_option (\<lambda>b'. MasterSendPolled drv0 b' addr (take (unat len) buf)) (bus_wait fuel drv0 b)"

definition i2c0_read :: "nat \<Rightarrow> 'b i2c_drv \<Rightarrow> u8 \<Rightarrow> u8 \<Rightarrow> 'b \<Rightarrow> (int \<times> bytes \<times> 'b) option" where
  "i2c0_read fuel drv0 len addr b =
     map_option (\<lambda>b'. MasterRecvPolled drv0 b' addr (unat len)) (bus_wait fuel drv0 b)"

definition i2c1_write :: "nat \<Rightarrow> 'b i2c_drv \<Rightarrow> bytes \<Rightarrow> u8 \<Rightarrow> u8 \<Rightarrow> 'b \<Rightarrow> (int \<times> 'b) option" where
  "i2c1_write fuel drv1 buf len addr b =
     map_option (\<lambda>b'. MasterSendPolled drv1 b' addr (take (unat len) buf)) (bus_wait fuel drv1 b)"

definition i2c1_read :: "nat \<Rightarrow> 'b i2c_drv \<Rightarrow> u8 \<Rightarrow> u8 \<Rightarrow> 'b \<Rightarrow> (int \<times> bytes \<times> 'b) option" where
  "i2c1_read fuel drv1 len addr b =
     map_option (\<lambda>b'. MasterRecvPolled drv1 b' addr (unat len)) (bus_wait fuel drv1 b)"

section \<open>Oscillator tables\<close>

datatype i2c = Write0 u8 bytes | Read0 u8 nat

text \<open>What a list of transfers on bus 0 does to the bus, and the bytes read.\<close>

fun i2c0_run :: "nat \<Rightarrow> 'b i2c_drv \<Rightarrow> i2c list \<Rightarrow> 'b \<Rightarrow> (bytes list \<times> 'b) option" where
  "i2c0_run fuel drv0 [] b = Some ([], b)"
| "i2c0_run fuel drv0 (Write0 addr buf # ts) b =
     (case i2c0_write fuel drv0 buf (of_nat (length buf)) addr b of
        None \<Rightarrow> None
      | Some (_, b') \<Rightarrow> i2c0_run fuel drv0 ts b')"
| "i2c0_run fuel drv0 (Read0 addr n # ts) b =
     (case i2c0_read fuel drv0 (of_nat n) addr b of
        None \<Rightarrow> None
      | Some (_, d, b') \<Rightarrow> map_option (\<lambda>(ds, b''). (d # ds, b'')) (i2c0_run fuel drv0 ts b'))"

definition lmk61e2_values :: "u32 list" where
  "lmk61e2_values =
     [0x0010, 0x010B, 0x0233, 0x08B0, 0x0901, 0x1000, 0x1180, 0x1502,
      0x1600, 0x170F, 0x1900, 0x1A2E, 0x1B00, 0x1C00, 0x1DA9, 0x1E00,
      0x1F00, 0x20C8, 0x2103, 0x2224, 0x2327, 0x2422, 0x2502, 0x2600,
      0x2707, 0x2F00, 0x3000, 0x3110, 0x3200, 0x3300, 0x3400, 0x3500,
      0x3800, 0x4802]"

definition si570_values :: "(u8 \<times> u8) list" where
  "si570_values = [(137, 0x10), (7, 0x00), (8, 0xC2), (9, 0xBB), (10, 0xBE), (11, 0x6E), (12, 0x69),
                   (137, 0x0), (135, 0x40)]"

definition lmk61e2_write :: "u32 \<Rightarrow> i2c" where
  "lmk61e2_write regval = Write0 0x5A [ucast (drop_bit 8 (regval AND 0x00FF00)), ucast (regval AND 0xFF)]"

definition write_lmk61e2 :: "i2c list" where
  "write_lmk61e2 = map lmk61e2_write lmk61e2_values"

definition read_si570 :: "i2c list" where
  "read_si570 = concat (map (\<lambda>i. [Write0 0x5D [of_nat i + 7], Read0 0x5D 1]) [0..<6])"

definition prog_si570 :: "i2c list" where
  "prog_si570 = read_si570 @ map (\<lambda>(r, v). Write0 0x5D [r, v]) si570_values @ read_si570"

section \<open>Power monitor\<close>

text \<open>The INA226 is on bus 1.\<close>

abbreviation (input) INA226_ADDR :: u8 where "INA226_ADDR \<equiv> 0x40"

definition ina226_write_reg :: "nat \<Rightarrow> 'b i2c_drv \<Rightarrow> u8 \<Rightarrow> u16 \<Rightarrow> 'b \<Rightarrow> (int \<times> 'b) option" where
  "ina226_write_reg fuel drv1 reg value b =
     i2c1_write fuel drv1 [reg, ucast (drop_bit 8 value), ucast (value AND 0xFF)] 3 INA226_ADDR b"

text \<open>The status and, on success, the value stored through the pointer.\<close>

definition ina226_read_reg :: "nat \<Rightarrow> 'b i2c_drv \<Rightarrow> u8 \<Rightarrow> 'b \<Rightarrow> ((int \<times> u16 option) \<times> 'b) option" where
  "ina226_read_reg fuel drv1 reg b =
     (case i2c1_write fuel drv1 [reg] 1 INA226_ADDR b of
        None \<Rightarrow> None
      | Some (status, b1) \<Rightarrow>
          if status \<noteq> 0 then Some ((status, None), b1)
          else (case i2c1_read fuel drv1 2 INA226_ADDR b1 of
                  None \<Rightarrow> None
                | Some (status2, buf, b2) \<Rightarrow>
                    if status2 \<noteq> 0 then Some ((status2, None), b2)
                    else Some ((0, Some (push_bit 8 (ucast (buf ! 0)) OR ucast (buf ! 1))), b2)))"

definition ina226_init :: "nat \<Rightarrow> 'b i2c_drv \<Rightarrow> 'b \<Rightarrow> 'b option" where
  "ina226_init fuel drv1 b = map_option snd (ina226_write_reg fuel drv1 0x05 0x0800 b)"

text \<open>The readings, in units of the register (\<open>scale\<close> applied to an integer); an inner \<open>None\<close> is the -1.0 of an error.\<close>

definition ina226_read_bus_voltage ::
  "nat \<Rightarrow> 'b i2c_drv \<Rightarrow> (int \<Rightarrow> 'v) \<Rightarrow> 'b \<Rightarrow> ('v option \<times> 'b) option" where
  "ina226_read_bus_voltage fuel drv1 scale b =
     map_option (\<lambda>((_, raw), b'). (map_option (\<lambda>r. scale (uint r)) raw, b')) (ina226_read_reg fuel drv1 0x02 b)"

definition ina226_read_current ::
  "nat \<Rightarrow> 'b i2c_drv \<Rightarrow> (int \<Rightarrow> 'v) \<Rightarrow> 'b \<Rightarrow> ('v option \<times> 'b) option" where
  "ina226_read_current fuel drv1 scale b =
     map_option (\<lambda>((_, raw), b'). (map_option (\<lambda>r. scale (sint r)) raw, b')) (ina226_read_reg fuel drv1 0x04 b)"

definition ina226_read_power ::
  "nat \<Rightarrow> 'b i2c_drv \<Rightarrow> (int \<Rightarrow> 'v) \<Rightarrow> 'b \<Rightarrow> ('v option \<times> 'b) option" where
  "ina226_read_power fuel drv1 scale b =
     map_option (\<lambda>((_, raw), b'). (map_option (\<lambda>r. scale (uint r)) raw, b')) (ina226_read_reg fuel drv1 0x03 b)"

section \<open>Oscillators\<close>

text \<open>
  Programming the LMK61E2: each table entry is sent as its register number and its value, nothing
  of an entry is cut off, no register is written twice, and the registers are written in
  increasing order.
\<close>

theorem write_lmk61e2_registers:
  "write_lmk61e2 = map (\<lambda>v. Write0 0x5A (be16 (ucast v))) lmk61e2_values
   \<and> list_all (\<lambda>v. ucast (ucast v :: u16) = v) lmk61e2_values
   \<and> sorted_wrt (<) (map (\<lambda>v. drop_bit 8 v) lmk61e2_values)"
proof (intro conjI)
  have m: "(0x00FF00::u32) = push_bit 8 (mask 8)" "(0xFF::u32) = mask 8"
    by (simp_all add: mask_eq_exp_minus_1)
  have "lmk61e2_write v = Write0 0x5A (be16 (ucast v))" for v
    unfolding lmk61e2_write_def be16_bytes m
    by (auto intro!: bit_word_eqI simp: bit_push_bit_iff bit_and_iff bit_drop_bit_eq bit_mask_iff bit_ucast_iff)
  then show "write_lmk61e2 = map (\<lambda>v. Write0 0x5A (be16 (ucast v))) lmk61e2_values"
    by (simp add: write_lmk61e2_def)
  show "list_all (\<lambda>v. ucast (ucast v :: u16) = v) lmk61e2_values"
    by (simp add: lmk61e2_values_def)
  show "sorted_wrt (<) (map (\<lambda>v. drop_bit 8 v) lmk61e2_values)"
    by (simp add: lmk61e2_values_def)
qed

text \<open>
  The oscillator as a device on bus 0: a write of two bytes sets a register, and the bus gets free within
  \<open>fuel\<close> polls, which change nothing of it.
\<close>

definition reg_device :: "nat \<Rightarrow> 'b i2c_drv \<Rightarrow> u8 \<Rightarrow> ('b \<Rightarrow> u8 \<Rightarrow> u8) \<Rightarrow> bool" where
  "reg_device fuel drv addr regs \<longleftrightarrow>
     (\<forall>b. \<exists>b'. bus_wait fuel drv b = Some b' \<and> regs b' = regs b)
     \<and> (\<forall>b r v. \<exists>st b'. MasterSendPolled drv b addr [r, v] = (st, b') \<and> regs b' = (regs b)(r := v))"

lemma i2c0_run_writes:
  assumes "reg_device fuel drv addr regs"
  shows "\<exists>b'. i2c0_run fuel drv (map (\<lambda>(r, v). Write0 addr [r, v]) rvs) b = Some ([], b')
           \<and> regs b' = fold (\<lambda>(r, v) m. m(r := v)) rvs (regs b)"
proof (induction rvs arbitrary: b)
  case (Cons rv rvs)
  obtain r v where rv: "rv = (r, v)" by (cases rv)
  obtain b1 where 1: "bus_wait fuel drv b = Some b1" "regs b1 = regs b"
    using assms unfolding reg_device_def by blast
  obtain st b2 where 2: "MasterSendPolled drv b1 addr [r, v] = (st, b2)" "regs b2 = (regs b1)(r := v)"
    using assms unfolding reg_device_def by blast
  show ?case
    using Cons.IH [of b2] 1 2 rv by (simp add: i2c0_write_def)
qed simp

text \<open>
  Programming the LMK61E2 over the bus: the transfers end, and afterwards every register of the table has
  its value and every other register the one it had.
\<close>

theorem write_lmk61e2_programs:
  assumes "reg_device fuel drv 0x5A regs"
  shows "\<exists>b'. i2c0_run fuel drv write_lmk61e2 b = Some ([], b')
           \<and> list_all (\<lambda>v. regs b' (ucast (drop_bit 8 v)) = ucast v) lmk61e2_values
           \<and> (\<forall>r. r \<notin> set (map (\<lambda>v. ucast (drop_bit 8 v)) lmk61e2_values) \<longrightarrow> regs b' r = regs b r)"
proof -
  let ?rvs = "map (\<lambda>v. (ucast (drop_bit 8 (v AND 0x00FF00)), ucast (v AND 0xFF))) lmk61e2_values :: (u8 \<times> u8) list"
  have "write_lmk61e2 = map (\<lambda>(r, v). Write0 0x5A [r, v]) ?rvs"
    by (simp add: write_lmk61e2_def lmk61e2_write_def)
  then obtain b' where "i2c0_run fuel drv write_lmk61e2 b = Some ([], b')"
    "regs b' = fold (\<lambda>(r, v) m. m(r := v)) ?rvs (regs b)"
    using i2c0_run_writes [OF assms, of ?rvs b] by auto
  then show ?thesis
    by (intro exI [of _ b'] conjI) (simp_all add: lmk61e2_values_def)
qed

section \<open>INA226\<close>

text \<open>
  An INA226 on an idle bus, as its data sheet describes it: a single byte sets the register pointer, two more go into the register. Of
  the registers the firmware could write, the calibration (0x05) holds the low 15 bits of what was written and the
  alert limit (0x07) all of it; nothing is said of writing the configuration and mask registers,
  whose bits have meanings of their own, nor of the measured values (0x01 to 0x04), which are read-only and can
  change at any time. A read returns the register at the pointer, most significant byte first. \<open>regs\<close> is what the
  registers hold, \<open>ptr\<close> the pointer.
\<close>

definition same_settings :: "('b \<Rightarrow> u8 \<Rightarrow> u16) \<Rightarrow> 'b \<Rightarrow> 'b \<Rightarrow> bool" where
  "same_settings regs b b' \<longleftrightarrow> regs b' 0x05 = regs b 0x05 \<and> regs b' 0x07 = regs b 0x07"

definition ina226_device :: "nat \<Rightarrow> 'b i2c_drv \<Rightarrow> ('b \<Rightarrow> u8 \<Rightarrow> u16) \<Rightarrow> ('b \<Rightarrow> u8) \<Rightarrow> bool" where
  "ina226_device fuel drv regs ptr \<longleftrightarrow>
     (\<forall>b. \<exists>b'. bus_wait fuel drv b = Some b' \<and> same_settings regs b b' \<and> ptr b' = ptr b)
     \<and> (\<forall>b r. \<exists>b'. MasterSendPolled drv b INA226_ADDR [r] = (0, b') \<and> same_settings regs b b' \<and> ptr b' = r)
     \<and> (\<forall>b v. \<exists>b'. MasterSendPolled drv b INA226_ADDR (0x05 # be16 v) = (0, b')
          \<and> regs b' 0x05 = v AND 0x7FFF \<and> regs b' 0x07 = regs b 0x07)
     \<and> (\<forall>b v. \<exists>b'. MasterSendPolled drv b INA226_ADDR (0x07 # be16 v) = (0, b')
          \<and> regs b' 0x05 = regs b 0x05 \<and> regs b' 0x07 = v)
     \<and> (\<forall>b. \<exists>b'. MasterRecvPolled drv b INA226_ADDR 2 = (0, be16 (regs b (ptr b)), b') \<and> same_settings regs b b')"

lemma ina226_write_device:
  assumes "ina226_device fuel drv regs ptr"
  shows "\<exists>b'. ina226_write_reg fuel drv 0x05 v b = Some (0, b') \<and> regs b' 0x05 = v AND 0x7FFF \<and> regs b' 0x07 = regs b 0x07"
    and "\<exists>b'. ina226_write_reg fuel drv 0x07 v b = Some (0, b') \<and> regs b' 0x05 = regs b 0x05 \<and> regs b' 0x07 = v"
proof -
  have m: "(0xFF::u16) = mask 8" by (simp add: mask_eq_exp_minus_1)
  have bytes: "take 3 [r, ucast (drop_bit 8 v), ucast (v AND 0xFF)] = r # be16 v" for r
    unfolding be16_bytes m by (auto intro!: bit_word_eqI simp: bit_and_iff bit_mask_iff bit_ucast_iff)
  have sent: "ina226_write_reg fuel drv r v b = Some (MasterSendPolled drv b1 INA226_ADDR (r # be16 v))"
    if "bus_wait fuel drv b = Some b1" for r b1
    by (simp only: ina226_write_reg_def i2c1_write_def option.map unat_numeral bytes) (use bytes that in simp)
  obtain b1 where b1: "bus_wait fuel drv b = Some b1" "same_settings regs b b1"
    using assms unfolding ina226_device_def by blast
  obtain b2 where "MasterSendPolled drv b1 INA226_ADDR (0x05 # be16 v) = (0, b2)" "regs b2 0x05 = v AND 0x7FFF" "regs b2 0x07 = regs b1 0x07"
    using assms unfolding ina226_device_def by blast
  with sent [OF b1(1)] b1(2)
  show "\<exists>b'. ina226_write_reg fuel drv 0x05 v b = Some (0, b') \<and> regs b' 0x05 = v AND 0x7FFF \<and> regs b' 0x07 = regs b 0x07"
    by (auto simp: same_settings_def)
  obtain b3 where "MasterSendPolled drv b1 INA226_ADDR (0x07 # be16 v) = (0, b3)" "regs b3 0x05 = regs b1 0x05" "regs b3 0x07 = v"
    using assms unfolding ina226_device_def by blast
  with sent [OF b1(1)] b1(2)
  show "\<exists>b'. ina226_write_reg fuel drv 0x07 v b = Some (0, b') \<and> regs b' 0x05 = regs b 0x05 \<and> regs b' 0x07 = v"
    by (auto simp: same_settings_def)
qed

text \<open>A read is answered from the state \<open>m\<close> in which the two bytes are asked for.\<close>

definition answered_from :: "'b i2c_drv \<Rightarrow> ('b \<Rightarrow> u8 \<Rightarrow> u16) \<Rightarrow> ('b \<Rightarrow> u8) \<Rightarrow> u8 \<Rightarrow> 'b \<Rightarrow> 'b \<Rightarrow> bool" where
  "answered_from drv regs ptr r m b' \<longleftrightarrow> ptr m = r \<and> MasterRecvPolled drv m INA226_ADDR 2 = (0, be16 (regs m r), b')"

lemma ina226_read_device:
  assumes "ina226_device fuel drv regs ptr"
  shows "\<exists>m b'. ina226_read_reg fuel drv r b = Some ((0, Some (regs m r)), b') \<and> answered_from drv regs ptr r m b'
     \<and> same_settings regs b m \<and> same_settings regs b b'"
proof -
  have join: "push_bit 8 (ucast (be16 w ! 0)) OR ucast (be16 w ! 1) = w" for w
    by (rule bit_word_eqI) (auto simp: be16_bytes bit_simps)
  obtain b1 where 1: "bus_wait fuel drv b = Some b1" "same_settings regs b b1"
    using assms unfolding ina226_device_def by blast
  obtain b2 where 2: "MasterSendPolled drv b1 INA226_ADDR [r] = (0, b2)" "same_settings regs b1 b2" "ptr b2 = r"
    using assms unfolding ina226_device_def by blast
  obtain b3 where 3: "bus_wait fuel drv b2 = Some b3" "same_settings regs b2 b3" "ptr b3 = ptr b2"
    using assms unfolding ina226_device_def by blast
  obtain b4 where 4: "MasterRecvPolled drv b3 INA226_ADDR 2 = (0, be16 (regs b3 (ptr b3)), b4)" "same_settings regs b3 b4"
    using assms unfolding ina226_device_def by blast
  have same: "same_settings regs b b3" "same_settings regs b b4"
    using 1(2) 2(2) 3(2) 4(2) by (simp_all add: same_settings_def)
  from 1(1) 2(1,3) 3(1,3) 4(1) join show ?thesis
    by (intro exI [of _ b3] exI [of _ b4])
      (simp add: ina226_read_reg_def i2c1_write_def i2c1_read_def answered_from_def same)
qed

text \<open>
  C30. The registers of the INA226: what has been written to the alert limit is read back unchanged, and to
  the calibration without its top bit, in spite of the byte order on the bus and of the waiting for it; \<open>ina226_init\<close> sets
  the calibration to 0x0800; and bus voltage, power and current are the contents of registers 2, 3 and 4 at the time of
  the read, as unsigned numbers but for the current, which is signed.
\<close>

theorem ina226_registers:
  assumes "ina226_device fuel drv regs ptr"
  shows "(\<exists>b1 b2. ina226_write_reg fuel drv 0x07 v b = Some (0, b1) \<and> ina226_read_reg fuel drv 0x07 b1 = Some ((0, Some v), b2)
            \<and> regs b2 0x05 = regs b 0x05)
     \<and> (\<exists>b1 b2. ina226_write_reg fuel drv 0x05 v b = Some (0, b1)
            \<and> ina226_read_reg fuel drv 0x05 b1 = Some ((0, Some (v AND 0x7FFF)), b2) \<and> regs b2 0x07 = regs b 0x07)
     \<and> (\<exists>b1 b2. ina226_init fuel drv b = Some b1 \<and> ina226_read_reg fuel drv 0x05 b1 = Some ((0, Some 0x0800), b2))
     \<and> (\<exists>m b'. ina226_read_bus_voltage fuel drv scale b = Some (Some (scale (uint (regs m 0x02))), b')
            \<and> answered_from drv regs ptr 0x02 m b')
     \<and> (\<exists>m b'. ina226_read_power fuel drv scale b = Some (Some (scale (uint (regs m 0x03))), b')
            \<and> answered_from drv regs ptr 0x03 m b')
     \<and> (\<exists>m b'. ina226_read_current fuel drv scale b = Some (Some (scale (sint (regs m 0x04))), b')
            \<and> answered_from drv regs ptr 0x04 m b')"
proof (intro conjI)
  note read = ina226_read_device [OF assms]
  obtain b1 where b1: "ina226_write_reg fuel drv 0x07 v b = Some (0, b1)" "regs b1 0x05 = regs b 0x05" "regs b1 0x07 = v"
    using ina226_write_device(2) [OF assms] by blast
  with read [of 7 b1] show "\<exists>b1 b2. ina226_write_reg fuel drv 0x07 v b = Some (0, b1)
      \<and> ina226_read_reg fuel drv 0x07 b1 = Some ((0, Some v), b2) \<and> regs b2 0x05 = regs b 0x05"
    by (auto simp: same_settings_def)
  have calibrate: "\<exists>b1 b2. ina226_write_reg fuel drv 0x05 c b = Some (0, b1)
      \<and> ina226_read_reg fuel drv 0x05 b1 = Some ((0, Some (c AND 0x7FFF)), b2) \<and> regs b2 0x07 = regs b 0x07" for c
  proof -
    obtain b2 where b2: "ina226_write_reg fuel drv 0x05 c b = Some (0, b2)" "regs b2 0x05 = c AND 0x7FFF" "regs b2 0x07 = regs b 0x07"
      using ina226_write_device(1) [OF assms] by blast
    with read [of 5 b2] show ?thesis by (auto simp: same_settings_def)
  qed
  then show "\<exists>b1 b2. ina226_write_reg fuel drv 0x05 v b = Some (0, b1)
      \<and> ina226_read_reg fuel drv 0x05 b1 = Some ((0, Some (v AND 0x7FFF)), b2) \<and> regs b2 0x07 = regs b 0x07" .
  from calibrate [of "0x0800"] show "\<exists>b1 b2. ina226_init fuel drv b = Some b1
      \<and> ina226_read_reg fuel drv 0x05 b1 = Some ((0, Some 0x0800), b2)"
    by (auto simp: ina226_init_def)
  from read [of 2 b] show "\<exists>m b'. ina226_read_bus_voltage fuel drv scale b = Some (Some (scale (uint (regs m 0x02))), b')
      \<and> answered_from drv regs ptr 0x02 m b'"
    by (auto simp: ina226_read_bus_voltage_def)
  from read [of 3 b] show "\<exists>m b'. ina226_read_power fuel drv scale b = Some (Some (scale (uint (regs m 0x03))), b')
      \<and> answered_from drv regs ptr 0x03 m b'"
    by (auto simp: ina226_read_power_def)
  from read [of 4 b] show "\<exists>m b'. ina226_read_current fuel drv scale b = Some (Some (scale (sint (regs m 0x04))), b')
      \<and> answered_from drv regs ptr 0x04 m b'"
    by (auto simp: ina226_read_current_def)
qed

text \<open>A device that measures a current of -1 and ignores writes to its other registers.\<close>

definition ina226_store :: "u8 \<Rightarrow> u16 \<Rightarrow> (u8 \<Rightarrow> u16) \<Rightarrow> u8 \<Rightarrow> u16" where
  "ina226_store r v regs = (if r = 0x05 then regs(r := v AND 0x7FFF) else if r = 0x07 then regs(r := v) else regs)"

definition demo_ina226 :: "(nat \<times> (u8 \<Rightarrow> u16) \<times> u8) i2c_drv" where
  "demo_ina226 =
     \<lparr>BusIsBusy = (\<lambda>(n, regs, ptr). (n \<noteq> 0, 0, regs, ptr)),
      MasterSendPolled = (\<lambda>(n, regs, ptr) addr d.
        (0, case d of [] \<Rightarrow> (1, regs, ptr) | [r] \<Rightarrow> (1, regs, r) | r # bs \<Rightarrow> (1, ina226_store r (rd16 bs) regs, r))),
      MasterRecvPolled = (\<lambda>(n, regs, ptr) addr k. (0, be16 (regs ptr), 1, regs, ptr))\<rparr>"

lemma demo_ina226_device: "ina226_device 2 demo_ina226 (fst \<circ> snd) (snd \<circ> snd)"
proof -
  have rd: "rd16 (be16 v) = v" for v using rd16_be16' [of v] by simp
  have wait: "bus_wait 2 demo_ina226 (n, regs, ptr) = Some (0, regs, ptr)" for n regs ptr
    by (simp add: numeral_2_eq_2 demo_ina226_def)
  have sent: "MasterSendPolled demo_ina226 (n, regs, ptr) a (r # be16 v) = (0, 1, ina226_store r v regs, r)" for n regs ptr a r v
    using rd [of v] by (simp add: demo_ina226_def be16_bytes)
  have point: "MasterSendPolled demo_ina226 (n, regs, ptr) a [r] = (0, 1, regs, r)"
    "MasterRecvPolled demo_ina226 (n, regs, ptr) a k = (0, be16 (regs ptr), 1, regs, ptr)" for n regs ptr a r k
    by (simp_all add: demo_ina226_def)
  show ?thesis
    unfolding ina226_device_def split_paired_All split_paired_Ex
    by (simp add: wait sent point same_settings_def ina226_store_def)
qed

theorem ina226_registers_witness:
  "(\<exists>b1 b2. ina226_write_reg 2 demo_ina226 7 0xBEEF (0, \<lambda>_. 0xFFFF, 0) = Some (0, b1)
      \<and> ina226_read_reg 2 demo_ina226 7 b1 = Some ((0, Some 0xBEEF), b2))
   \<and> (\<exists>b1 b2. ina226_init 2 demo_ina226 (0, \<lambda>_. 0xFFFF, 0) = Some b1
      \<and> ina226_read_reg 2 demo_ina226 5 b1 = Some ((0, Some 0x0800), b2))"
  using ina226_registers [OF demo_ina226_device, of "0xBEEF" "(0, \<lambda>_. 0xFFFF, 0)" id] by blast

end
