(* ===== verification/Old_Server.thy ===== *)
theory Old_Server
  imports Prelude
begin

text \<open>
  What the three server threads of the former firmware share: the calls that set up the listening socket, and
  the loop of the two threads that stream to one client, from the label \<open>reconnect\<close> on.
  \<open>lwip_accept\<close> and \<open>close\<close> are parameters on a network state \<open>'w\<close>; a round of the loop is a parameter of
  \<open>serve\<close>, which the threads instantiate.
\<close>

section \<open>Listening\<close>

text \<open>
  \<open>sockfd\<close> is what \<open>lwip_socket\<close> returned. Errors are only reported, so the calls are the same when
  creating or binding the socket failed.
\<close>

datatype sock_call = Lwip_socket | Lwip_bind int u16 | Lwip_listen int

definition listen_on :: "u16 \<Rightarrow> int \<Rightarrow> sock_call list" where
  "listen_on port sockfd = [Lwip_socket, Lwip_bind sockfd port, Lwip_listen sockfd]"

section \<open>Serving one client after the other\<close>

text \<open>
  \<open>k\<close> steps of a thread: an accept (no client), whose failure is only reported, or a round of the loop for the
  client \<open>newsockfd\<close>; a round says whether its write failed, and then the socket is closed.
\<close>

fun serve ::
  "nat \<Rightarrow> ('w \<Rightarrow> int \<times> 'w) \<Rightarrow> ('w \<Rightarrow> int \<Rightarrow> 'w) \<Rightarrow> (int \<Rightarrow> 's \<Rightarrow> 'w \<Rightarrow> (bool \<times> 's \<times> 'w) option) \<Rightarrow>
     int option \<Rightarrow> 's \<Rightarrow> 'w \<Rightarrow> (int option \<times> 's \<times> 'w) option" where
  "serve 0 sock_accept sock_close round conn st w = Some (conn, st, w)"
| "serve (Suc k) sock_accept sock_close round None st w =
     (let (newsockfd, w1) = sock_accept w
      in serve k sock_accept sock_close round (Some newsockfd) st w1)"
| "serve (Suc k) sock_accept sock_close round (Some newsockfd) st w =
     (case round newsockfd st w of
        None \<Rightarrow> None
      | Some (failed, st', w') \<Rightarrow>
          if failed
          then serve k sock_accept sock_close round None st' (sock_close w' newsockfd)
          else serve k sock_accept sock_close round (Some newsockfd) st' w')"

section \<open>Open sockets\<close>

text \<open>
  Sockets as lwIP manages them: \<open>opn\<close> is the set of open descriptors, none of them negative. An accept
  fails or opens a new one, a close removes one, a write opens and closes none.
\<close>

definition sock_contract ::
  "('w \<Rightarrow> int \<times> 'w) \<Rightarrow> ('w \<Rightarrow> int \<Rightarrow> 'w) \<Rightarrow> ('w \<Rightarrow> int \<Rightarrow> bytes \<Rightarrow> int \<times> 'w) \<Rightarrow> ('w \<Rightarrow> int set) \<Rightarrow> bool" where
  "sock_contract sock_accept sock_close sock_write opn \<longleftrightarrow>
     (\<forall>w. opn w \<subseteq> {0..})
     \<and> (\<forall>w. (fst (sock_accept w) < 0 \<and> opn (snd (sock_accept w)) = opn w)
           \<or> (0 \<le> fst (sock_accept w) \<and> fst (sock_accept w) \<notin> opn w
               \<and> opn (snd (sock_accept w)) = insert (fst (sock_accept w)) (opn w)))
     \<and> (\<forall>w s. opn (sock_close w s) = opn w - {s})
     \<and> (\<forall>w s d. opn (snd (sock_write w s d)) = opn w)"

text \<open>The descriptor a thread holds: none when the accept failed.\<close>

definition held_sock :: "int option \<Rightarrow> int set" where
  "held_sock conn = (case conn of None \<Rightarrow> {} | Some s \<Rightarrow> if s < 0 then {} else {s})"

lemma held_sock_simps [simp]:
  "held_sock None = {}" "s < 0 \<Longrightarrow> held_sock (Some s) = {}" "0 \<le> s \<Longrightarrow> held_sock (Some s) = {s}"
  by (simp_all add: held_sock_def)

text \<open>
  A thread whose rounds never go wrong makes any number of steps, and at every moment the only
  descriptor it has added to those that were open is the one of its client.
\<close>

lemma serve_sockets:
  assumes contract: "sock_contract sock_accept sock_close sock_write opn"
    and round: "\<And>s st w. P st \<Longrightarrow> \<exists>failed st' w'. round s st w = Some (failed, st', w') \<and> P st' \<and> opn w' = opn w"
    and "P st" "opn w = base \<union> held_sock conn" "base \<inter> held_sock conn = {}" "base \<subseteq> {0..}"
  shows "\<exists>conn' st' w'. serve k sock_accept sock_close round conn st w = Some (conn', st', w')
           \<and> P st' \<and> opn w' = base \<union> held_sock conn' \<and> base \<inter> held_sock conn' = {}"
  using assms(3-5)
proof (induction k arbitrary: conn st w)
  case (Suc k)
  show ?case
  proof (cases conn)
    case None
    obtain s w1 where acc: "sock_accept w = (s, w1)" by fastforce
    have "opn w = base" using Suc.prems(2) None by simp
    moreover have "s < 0 \<and> opn w1 = opn w \<or> 0 \<le> s \<and> s \<notin> opn w \<and> opn w1 = insert s (opn w)"
      using contract acc unfolding sock_contract_def by (metis fst_conv snd_conv)
    ultimately have "opn w1 = base \<union> held_sock (Some s) \<and> base \<inter> held_sock (Some s) = {}"
      by (cases "s < 0") (simp_all add: held_sock_def)
    moreover have "serve (Suc k) sock_accept sock_close round conn st w =
        serve k sock_accept sock_close round (Some s) st w1"
      by (simp only: None acc serve.simps Let_def prod.case)
    ultimately show ?thesis using Suc.IH [of st w1 "Some s"] Suc.prems(1) by (simp only: simp_thms)
  next
    case (Some s)
    obtain failed st' w' where r: "round s st w = Some (failed, st', w')" "P st'" "opn w' = opn w"
      using round [OF Suc.prems(1)] by blast
    show ?thesis
    proof (cases failed)
      case True
      have "opn (sock_close w' s) = opn w - {s}"
        using contract r(3) by (simp add: sock_contract_def)
      also have "\<dots> = base \<union> held_sock None"
        using Suc.prems(2,3) assms(6) unfolding Some by (cases "s < 0") auto
      finally have "opn (sock_close w' s) = base \<union> held_sock None" .
      moreover have "serve (Suc k) sock_accept sock_close round conn st w =
          serve k sock_accept sock_close round None st' (sock_close w' s)"
        by (simp add: Some r(1) True)
      ultimately show ?thesis
        using Suc.IH [of st' "sock_close w' s" None] r(2) by simp
    next
      case False
      then have "serve (Suc k) sock_accept sock_close round conn st w =
          serve k sock_accept sock_close round conn st' w'"
        by (simp add: Some r(1))
      then show ?thesis
        using Suc.IH [of st' w' conn] Suc.prems(2,3) r(2,3) by (simp only: simp_thms)
    qed
  qed
qed auto

text \<open>A network with one descriptor, 3: whether it is open. Its writes always fail.\<close>

definition demo_accept :: "bool \<Rightarrow> int \<times> bool" where
  "demo_accept w = (if w then -1 else 3, True)"

definition demo_close :: "bool \<Rightarrow> int \<Rightarrow> bool" where
  "demo_close w s \<longleftrightarrow> w \<and> s \<noteq> 3"

definition demo_write :: "bool \<Rightarrow> int \<Rightarrow> bytes \<Rightarrow> int \<times> bool" where
  "demo_write w s d = (-1, w)"

lemma demo_sock_contract: "sock_contract demo_accept demo_close demo_write (\<lambda>w. if w then {3} else {})"
  by (auto simp: sock_contract_def demo_accept_def demo_close_def demo_write_def)

end
