(* ===== verification/Old_Control.thy ===== *)
theory Old_Control
  imports Control Old_Server
begin

text \<open>
  The control thread of the former firmware, \<open>src/sw_old/src/psc_control_thread.c\<close>, with its
  register map \<open>src/sw_old/inc/pl_regs.h\<close>. Definitions carry the suffix \<open>_old\<close> where the current
  firmware has a routine of the same name.

  Both programs drive the same register block. \<open>same_reg\<close> gives the current name of a register of
  the former map, by offset, and \<open>current_view\<close> renames the accesses of a routine, so that the former
  routines can be compared with the current ones and read by the same hardware model.

  The thread is a function of what its socket calls return: \<open>Accepted s\<close> for \<open>lwip_accept\<close>,
  \<open>Received n d\<close> for \<open>read\<close> with result \<open>n\<close> and the bytes \<open>d\<close> put into the buffer.
\<close>

section \<open>Register map\<close>

datatype pl_reg_old =
    OLD_MOD_ID_NUM | OLD_MOD_ID_VER | OLD_PROJ_ID_NUM | OLD_PROJ_ID_VER | OLD_GIT_SHASUM
  | OLD_COMPILE_TIMESTAMP
  | OLD_ARTIX_SPI_DATA | OLD_ARTIX_SPI_ADDR | OLD_ARTIX_SPI_WE
  | OLD_EVR_RST_REG
  | OLD_FP_LEDS_REG
  | OLD_EVR_TS_NS_REG | OLD_EVR_TS_S_REG | OLD_EVR_TS_NS_LAT_REG | OLD_EVR_TS_S_LAT_REG
  | OLD_EVR_FE_TRIGNUM_REG | OLD_EVR_FE_TRIGDLY_REG | EVENT_SRC_SEL_REG
  | CHAINA_FIFO_STREAMENB_REG | CHAINA_FIFO_RST_REG | CHAINA_FIFO_DATA_REG | CHAINA_FIFO_CNT_REG

fun pl_offset_old :: "pl_reg_old \<Rightarrow> u32" where
  "pl_offset_old OLD_MOD_ID_NUM = 0x0"
| "pl_offset_old OLD_MOD_ID_VER = 0x4"
| "pl_offset_old OLD_PROJ_ID_NUM = 0x10"
| "pl_offset_old OLD_PROJ_ID_VER = 0x14"
| "pl_offset_old OLD_GIT_SHASUM = 0x18"
| "pl_offset_old OLD_COMPILE_TIMESTAMP = 0x1C"
| "pl_offset_old OLD_ARTIX_SPI_DATA = 0x20"
| "pl_offset_old OLD_ARTIX_SPI_ADDR = 0x24"
| "pl_offset_old OLD_ARTIX_SPI_WE = 0x28"
| "pl_offset_old OLD_EVR_RST_REG = 0x30"
| "pl_offset_old OLD_FP_LEDS_REG = 0x40"
| "pl_offset_old OLD_EVR_TS_NS_REG = 0x50"
| "pl_offset_old OLD_EVR_TS_S_REG = 0x54"
| "pl_offset_old OLD_EVR_TS_NS_LAT_REG = 0x58"
| "pl_offset_old OLD_EVR_TS_S_LAT_REG = 0x5C"
| "pl_offset_old OLD_EVR_FE_TRIGNUM_REG = 0x60"
| "pl_offset_old OLD_EVR_FE_TRIGDLY_REG = 0x64"
| "pl_offset_old EVENT_SRC_SEL_REG = 0x68"
| "pl_offset_old CHAINA_FIFO_STREAMENB_REG = 0x100"
| "pl_offset_old CHAINA_FIFO_RST_REG = 0x104"
| "pl_offset_old CHAINA_FIFO_DATA_REG = 0x108"
| "pl_offset_old CHAINA_FIFO_CNT_REG = 0x10C"

type_synonym mmio_old = "pl_reg_old access"

text \<open>The register the current map names at the same offset.\<close>

fun same_reg :: "pl_reg_old \<Rightarrow> pl_reg option" where
  "same_reg OLD_MOD_ID_NUM = Some MOD_ID_NUM"
| "same_reg OLD_MOD_ID_VER = Some MOD_ID_VER"
| "same_reg OLD_PROJ_ID_NUM = Some PROJ_ID_NUM"
| "same_reg OLD_PROJ_ID_VER = Some PROJ_ID_VER"
| "same_reg OLD_GIT_SHASUM = Some GIT_SHASUM"
| "same_reg OLD_COMPILE_TIMESTAMP = Some COMPILE_TIMESTAMP"
| "same_reg OLD_ARTIX_SPI_DATA = Some ARTIX_SPI_DATA"
| "same_reg OLD_ARTIX_SPI_ADDR = Some ARTIX_SPI_ADDR"
| "same_reg OLD_ARTIX_SPI_WE = Some ARTIX_SPI_WE"
| "same_reg OLD_EVR_RST_REG = Some EVR_RST_REG"
| "same_reg OLD_FP_LEDS_REG = Some FP_LEDS_REG"
| "same_reg OLD_EVR_TS_NS_REG = Some EVR_TS_S_REG"
| "same_reg OLD_EVR_TS_S_REG = Some EVR_TS_NS_REG"
| "same_reg OLD_EVR_TS_NS_LAT_REG = Some EVR_TS_S_LAT_REG"
| "same_reg OLD_EVR_TS_S_LAT_REG = Some EVR_TS_NS_LAT_REG"
| "same_reg OLD_EVR_FE_TRIGNUM_REG = Some EVR_FE_TRIGNUM_REG"
| "same_reg OLD_EVR_FE_TRIGDLY_REG = Some EVR_FE_TRIGDLY_REG"
| "same_reg EVENT_SRC_SEL_REG = None"
| "same_reg CHAINA_FIFO_STREAMENB_REG = Some FIFO_STREAMENB_REG"
| "same_reg CHAINA_FIFO_RST_REG = Some FIFO_RST_REG"
| "same_reg CHAINA_FIFO_DATA_REG = Some FIFO_DATA_REG"
| "same_reg CHAINA_FIFO_CNT_REG = Some FIFO_CNT_REG"

lemma same_reg_iff: "same_reg r = Some r' \<longleftrightarrow> pl_offset r' = pl_offset_old r"
  by (cases r; cases r') simp_all

fun current_view :: "mmio_old list \<Rightarrow> mmio list" where
  "current_view [] = []"
| "current_view (Delay n # es) = Delay n # current_view es"
| "current_view (Out32 r v # es) =
     (case same_reg r of None \<Rightarrow> current_view es | Some r' \<Rightarrow> Out32 r' v # current_view es)"

lemma current_view_append [simp]: "current_view (xs @ ys) = current_view xs @ current_view ys"
  by (induction xs rule: current_view.induct) (auto split: option.split)

section \<open>Operations\<close>

definition set_fpleds_old :: "u32 \<Rightarrow> mmio_old list" where
  "set_fpleds_old msgVal = [Out32 OLD_FP_LEDS_REG msgVal]"

definition set_eventno_old :: "u32 \<Rightarrow> mmio_old list" where
  "set_eventno_old msgVal = [Out32 OLD_EVR_FE_TRIGNUM_REG msgVal]"

definition set_eventdly_old :: "u32 \<Rightarrow> mmio_old list" where
  "set_eventdly_old msgVal = [Out32 OLD_EVR_FE_TRIGDLY_REG msgVal]"

text \<open>The four accesses that start one SPI frame.\<close>

definition spi_write_old :: "u32 \<Rightarrow> u32 \<Rightarrow> mmio_old list" where
  "spi_write_old addr data =
     [Out32 OLD_ARTIX_SPI_DATA data, Out32 OLD_ARTIX_SPI_ADDR addr,
      Out32 OLD_ARTIX_SPI_WE 1, Out32 OLD_ARTIX_SPI_WE 0]"

definition set_fp_trig_dly :: "u32 \<Rightarrow> mmio_old list" where
  "set_fp_trig_dly msgVal = spi_write_old 0x41 msgVal"

definition reset_accum :: "mmio_old list" where
  "reset_accum = spi_write_old 0x51 1"

definition read_artix_eeprom_settings_old :: "mmio_old list" where
  "read_artix_eeprom_settings_old = spi_write_old EEPROM_READALL 1 @ [Delay 5000]"

definition write_artix_eeprom_old :: "u32 \<Rightarrow> s32 \<Rightarrow> mmio_old list" where
  "write_artix_eeprom_old addr data =
     spi_write_old addr data @ [Delay 5000] @ spi_write_old EEPROM_TRIG 1 @ [Delay 10000]"

definition write_eeprom :: "u32 \<Rightarrow> s32 \<Rightarrow> mmio_old list" where
  "write_eeprom msgAddr msgData =
     (let eeprom_addr = msgAddr - 256;
          wren = write_artix_eeprom_old EEPROM_WRDATA (push_bit 24 EEPROM_OPCODE_WREN);
          byte = (\<lambda>a eeprom_data. write_artix_eeprom_old EEPROM_WRDATA
                    (push_bit 24 EEPROM_OPCODE_WRITE OR push_bit 8 a OR eeprom_data))
      in wren @ byte eeprom_addr (drop_bit 24 (msgData AND 0xFF000000))
         @ wren @ byte (eeprom_addr + 1) (drop_bit 16 (msgData AND 0x00FF0000))
         @ wren @ byte (eeprom_addr + 2) (drop_bit 8 (msgData AND 0x0000FF00))
         @ wren @ byte (eeprom_addr + 3) (msgData AND 0x000000FF)
         @ read_artix_eeprom_settings_old)"

section \<open>The thread\<close>

abbreviation (input) EVENT_NO_MSG1 :: u32 where "EVENT_NO_MSG1 \<equiv> 0"
abbreviation (input) EVENT_DLY_MSG1 :: u32 where "EVENT_DLY_MSG1 \<equiv> 4"
abbreviation (input) FP_TRIG_DLY_MSG1 :: u32 where "FP_TRIG_DLY_MSG1 \<equiv> 8"
abbreviation (input) FP_LED_MSG1 :: u32 where "FP_LED_MSG1 \<equiv> 12"
abbreviation (input) ACCUM_RESET_MSG1 :: u32 where "ACCUM_RESET_MSG1 \<equiv> 16"
abbreviation (input) EVENT_SRC_SEL_MSG1 :: u32 where "EVENT_SRC_SEL_MSG1 \<equiv> 20"
abbreviation (input) GTX_RESET_MSG1 :: u32 where "GTX_RESET_MSG1 \<equiv> 24"

definition control_switch :: "u32 \<Rightarrow> u32 \<Rightarrow> mmio_old list" where
  "control_switch MsgAddr MsgData =
     (if MsgAddr = EVENT_NO_MSG1 then set_eventno_old MsgData
      else if MsgAddr = EVENT_DLY_MSG1 then set_eventdly_old MsgData
      else if MsgAddr = FP_TRIG_DLY_MSG1 then set_fp_trig_dly MsgData
      else if MsgAddr = FP_LED_MSG1 then set_fpleds_old MsgData
      else if MsgAddr = ACCUM_RESET_MSG1 then reset_accum
      else if MsgAddr = EVENT_SRC_SEL_MSG1 then [Out32 EVENT_SRC_SEL_REG MsgData]
      else if MsgAddr = GTX_RESET_MSG1 then [Out32 OLD_EVR_RST_REG MsgData]
      else [])"

text \<open>What the thread does with the buffer after a read: words 2 and 3 are the address and the data.\<close>

definition control_packet :: "bytes \<Rightarrow> mmio_old list" where
  "control_packet buffer =
     (let MsgAddr = ntohl (get32 (drop 8 buffer));
          MsgData = ntohl (get32 (drop 12 buffer))
      in set_fpleds_old 1 @ set_fpleds_old 0
         @ (if 256 \<le> MsgAddr \<and> MsgAddr \<le> 452 then write_eeprom MsgAddr MsgData else [])
         @ control_switch MsgAddr MsgData)"

datatype sock_ret = Accepted int | Received int bytes
datatype control_act = Regs "mmio_old list" | Close_Sock int

record control_thread =
  newsockfd :: int
  connected :: bool
  buffer :: bytes
  numpackets :: nat

definition psc_control_setup :: "int \<Rightarrow> sock_call list" where
  "psc_control_setup sockfd = listen_on 7 sockfd"

text \<open>
  One socket call of the thread: an accept at \<open>reconnect\<close>, a read in the loop. A failed accept is
  reported and the loop entered all the same.
\<close>

fun psc_control_thread :: "sock_ret \<Rightarrow> control_thread \<Rightarrow> (control_act list \<times> control_thread) option" where
  "psc_control_thread (Accepted s) t =
     (if connected t then None else Some ([], t\<lparr>newsockfd := s, connected := True\<rparr>))"
| "psc_control_thread (Received n d) t =
     (if \<not> connected t then None
      else if n \<le> 0 then Some ([Close_Sock (newsockfd t)], t\<lparr>connected := False\<rparr>)
      else let buf = buf_write (buffer t) 0 d
           in Some ([Regs (control_packet buf)], t\<lparr>buffer := buf, numpackets := numpackets t + 1\<rparr>))"

text \<open>Consecutive calls; \<open>None\<close> when the returns are not those of the calls the thread makes.\<close>

fun control_calls :: "sock_ret list \<Rightarrow> control_thread \<Rightarrow> (control_act list \<times> control_thread) option" where
  "control_calls [] t = Some ([], t)"
| "control_calls (c # cs) t =
     (case psc_control_thread c t of
        None \<Rightarrow> None
      | Some (as, t1) \<Rightarrow> (case control_calls cs t1 of
          None \<Rightarrow> None | Some (bs, t2) \<Rightarrow> Some (as @ bs, t2)))"

section \<open>Correctness\<close>

lemma current_view_spi_write [simp]: "current_view (spi_write_old addr data) = spi_write addr data"
  by (simp add: spi_write_old_def spi_write_def)

text \<open>The former EEPROM routine makes the same accesses as the current one, 256 addresses lower.\<close>

lemma current_view_write_eeprom: "current_view (write_eeprom a d) = eeprom_store (a - 256) d"
  by (simp add: write_eeprom_def eeprom_defs Let_def write_artix_eeprom_old_def
      read_artix_eeprom_settings_old_def)

lemmas control_defs = control_switch_def set_fpleds_old_def set_eventno_old_def set_eventdly_old_def
  set_fp_trig_dly_def reset_accum_def

lemma take_bit_31_0x41 [simp]: "take_bit 31 (0x41::u32) = 0x41"
  by (simp add: take_bit_eq_mod)

lemma eeprom_cmds_control_switch:
  "eeprom_cmds w (spi_frames x y (current_view (control_switch a d))) = []"
  by (simp add: control_defs)

lemma control_packet_words:
  assumes "length hdr = 8"
  shows "control_packet (hdr @ be32 addr @ be32 data @ rest) =
     set_fpleds_old 1 @ set_fpleds_old 0
     @ (if 256 \<le> addr \<and> addr \<le> 452 then write_eeprom addr data else []) @ control_switch addr data"
proof -
  have "drop 8 (hdr @ be32 addr @ be32 data @ rest) = be32 addr @ be32 data @ rest"
    "drop 12 (hdr @ be32 addr @ be32 data @ rest) = be32 data @ rest"
    using assms by simp_all
  then have "ntohl (get32 (drop 8 (hdr @ be32 addr @ be32 data @ rest))) = addr"
    "ntohl (get32 (drop 12 (hdr @ be32 addr @ be32 data @ rest))) = data"
    by (simp_all only: be32_def get32_put32 htonl_htonl)
  then show ?thesis
    by (simp only: control_packet_def Let_def)
qed

text \<open>Reference for the settings: the register a message address selects.\<close>

definition control_effect :: "u32 \<Rightarrow> u32 \<Rightarrow> (pl_reg_old \<Rightarrow> u32) \<Rightarrow> pl_reg_old \<Rightarrow> u32" where
  "control_effect addr data s r =
     (if r = OLD_EVR_FE_TRIGNUM_REG \<and> addr = 0 \<or> r = OLD_EVR_FE_TRIGDLY_REG \<and> addr = 4
         \<or> r = OLD_FP_LEDS_REG \<and> addr = 12 \<or> r = EVENT_SRC_SEL_REG \<and> addr = 20
         \<or> r = OLD_EVR_RST_REG \<and> addr = 24
      then data
      else if r = OLD_FP_LEDS_REG then 0
      else s r)"

abbreviation OLD_SPI_REGS :: "pl_reg_old set" where
  "OLD_SPI_REGS \<equiv> {OLD_ARTIX_SPI_DATA, OLD_ARTIX_SPI_ADDR, OLD_ARTIX_SPI_WE}"

lemma reg_run_write_eeprom: "r \<notin> OLD_SPI_REGS \<Longrightarrow> reg_run (write_eeprom a d) s r = s r"
  by (rule reg_run_other)
    (auto simp: write_eeprom_def Let_def write_artix_eeprom_old_def
      read_artix_eeprom_settings_old_def spi_write_old_def)

text \<open>The SPI frames of a packet that stores a setting, and the EEPROM commands of any packet.\<close>

lemma spi_frames_set_fpleds_old:
  "spi_frames x y (current_view (set_fpleds_old v @ es)) = spi_frames x y (current_view es)"
  by (simp add: set_fpleds_old_def)

lemma control_packet_frames:
  assumes "length hdr = 8" "256 \<le> addr" "addr \<le> 452"
  shows "spi_frames x y (current_view (control_packet (hdr @ be32 addr @ be32 data @ rest))) =
           spi_frames x y (eeprom_store (addr - 256) data)"
proof -
  have "control_switch addr data = []" using assms(2,3) by (auto simp: control_switch_def)
  with assms(2,3) show ?thesis
    unfolding control_packet_words [OF assms(1)] spi_frames_set_fpleds_old by (simp add: current_view_write_eeprom)
qed

lemma control_packet_cmds:
  assumes "length hdr = 8" "packet = hdr @ be32 addr @ be32 data @ rest"
  shows "eeprom_cmds w (spi_frames x y (current_view (control_packet packet))) =
           (if 256 \<le> addr \<and> addr \<le> 452 then eeprom_store32 (ucast (addr - 256)) data else [])"
proof -
  show ?thesis
  proof (cases "256 \<le> addr \<and> addr \<le> 452")
    case True
    then have "unat addr \<le> 452" "256 \<le> unat addr" by (auto simp: word_le_nat_alt)
    with True have "unat (addr - 256) + 3 < 2 ^ 16" by (simp add: unat_sub)
    then have store: "eeprom_cmds w (spi_frames x y (eeprom_store (addr - 256) data)) =
        eeprom_store32 (ucast (addr - 256)) data"
      by (rule eeprom_store_refines_store32)
    with True control_packet_frames [OF assms(1)] show ?thesis by (simp add: assms(2))
  next
    case False
    then show ?thesis
      unfolding assms(2) control_packet_words [OF assms(1)] spi_frames_set_fpleds_old if_not_P [OF False]
      by (simp only: append_Nil eeprom_cmds_control_switch)
  qed
qed

text \<open>The SPI frames of a packet outside the range of the EEPROM: those of the front-end setting it selects.\<close>

definition front_end_frames :: "u32 \<Rightarrow> u32 \<Rightarrow> (u32 \<times> u32) list" where
  "front_end_frames addr data = (if addr = 8 then [(0x41, data)] else if addr = 16 then [(0x51, 1)] else [])"

lemma control_packet_front_end:
  assumes "length hdr = 8" "\<not> (256 \<le> addr \<and> addr \<le> 452)"
  shows "spi_frames x y (current_view (control_packet (hdr @ be32 addr @ be32 data @ rest))) = front_end_frames addr data"
proof -
  have "take_bit 31 (0x51 :: u32) = 0x51" by (simp add: take_bit_eq_mod)
  then have "spi_frames x y (current_view (control_switch addr data)) = front_end_frames addr data"
    by (simp add: control_defs front_end_frames_def)
  then show ?thesis
    unfolding control_packet_words [OF assms(1)] spi_frames_set_fpleds_old if_not_P [OF assms(2)] by simp
qed

text \<open>The write strobe of the port is released.\<close>

lemma reg_run_WE:
  "s OLD_ARTIX_SPI_WE = 0 \<Longrightarrow> reg_run (write_eeprom a d) s OLD_ARTIX_SPI_WE = 0"
  "s OLD_ARTIX_SPI_WE = 0 \<Longrightarrow> reg_run (control_switch a d) s OLD_ARTIX_SPI_WE = 0"
  by (simp_all add: write_eeprom_def Let_def write_artix_eeprom_old_def read_artix_eeprom_settings_old_def
      spi_write_old_def control_defs)

text \<open>
  C31. A control packet of the former firmware, whatever its header says, has the effect of its address
  and data words. An address from 256 to 452 stores the data in the EEPROM at the address minus 256,
  with exactly the commands of the reference that the current firmware meets and exactly its frames on the SPI
  port; addresses 8 and 16 send one frame each, the trigger delay with the data to register 0x41 and the reset of
  the accumulator to register 0x51; no other address causes a frame or an EEPROM command. Of the registers that are not
  the SPI port's exactly the one selected by the address is set, the LED register being cleared by the
  blinking before, and the write strobe of the port is at rest again.
\<close>

theorem control_packet_effect:
  assumes "length hdr = 8" "packet = hdr @ be32 addr @ be32 data @ rest"
  shows "eeprom_cmds w (spi_frames x y (current_view (control_packet packet))) =
           (if 256 \<le> addr \<and> addr \<le> 452 then eeprom_store32 (ucast (addr - 256)) data else [])
         \<and> spi_frames x y (current_view (control_packet packet)) =
             (if 256 \<le> addr \<and> addr \<le> 452 then spi_frames x y (eeprom_store (addr - 256) data)
              else if addr = 8 then [(0x41, data)] else if addr = 16 then [(0x51, 1)] else [])
         \<and> (r \<notin> OLD_SPI_REGS \<longrightarrow> reg_run (control_packet packet) s r = control_effect addr data s r)
         \<and> (s OLD_ARTIX_SPI_WE = 0 \<longrightarrow> reg_run (control_packet packet) s OLD_ARTIX_SPI_WE = 0)"
proof (intro conjI)
  show "eeprom_cmds w (spi_frames x y (current_view (control_packet packet))) =
          (if 256 \<le> addr \<and> addr \<le> 452 then eeprom_store32 (ucast (addr - 256)) data else [])"
    by (rule control_packet_cmds [OF assms])
  show "spi_frames x y (current_view (control_packet packet)) =
          (if 256 \<le> addr \<and> addr \<le> 452 then spi_frames x y (eeprom_store (addr - 256) data)
           else if addr = 8 then [(0x41, data)] else if addr = 16 then [(0x51, 1)] else [])"
    using control_packet_frames [OF assms(1)] control_packet_front_end [OF assms(1)]
    unfolding assms(2) front_end_frames_def by auto
  show "r \<notin> OLD_SPI_REGS \<longrightarrow> reg_run (control_packet packet) s r = control_effect addr data s r"
    unfolding assms(2) control_packet_words [OF assms(1)]
    by (auto simp: reg_run_write_eeprom control_defs control_effect_def spi_write_old_def)
  show "s OLD_ARTIX_SPI_WE = 0 \<longrightarrow> reg_run (control_packet packet) s OLD_ARTIX_SPI_WE = 0"
    unfolding assms(2) control_packet_words [OF assms(1)] by (simp add: reg_run_WE set_fpleds_old_def)
qed

theorem control_packet_effect_witness:
  "eeprom_cmds 0 (spi_frames 0 0 (current_view (control_packet ([0x50, 0x53, 0, 1, 0, 0, 0, 8] @ be32 260 @ be32 0x01020304 @ [])))) =
     [WREN, WRITE 4 1, WREN, WRITE 5 2, WREN, WRITE 6 3, WREN, WRITE 7 4, READALL]
   \<and> reg_run (control_packet ([0x50, 0x53, 0, 1, 0, 0, 0, 8] @ be32 260 @ be32 0x01020304 @ [])) (\<lambda>_. 9) OLD_FP_LEDS_REG = 0"
proof -
  let ?hdr = "[0x50, 0x53, 0, 1, 0, 0, 0, 8] :: bytes"
  have "length ?hdr = 8" by simp
  note effect = control_packet_effect [OF this refl, of 0 0 0 260 "0x01020304" "[]" "OLD_FP_LEDS_REG" "\<lambda>_. 9"]
  from effect [THEN conjunct1] effect [THEN conjunct2, THEN conjunct2, THEN conjunct1] show ?thesis
    by (simp add: eeprom_store32_def control_effect_def be32_bytes)
qed

section \<open>Packets and reads\<close>

text \<open>A packet of at least 16 bytes is read alone: what it does depends on nothing before it.\<close>

lemma control_packet_buf_write:
  assumes "16 \<le> length d"
  shows "control_packet (buf_write buf 0 d) = control_packet d"
proof -
  have "get32 (drop 8 (d @ e)) = get32 (drop 8 d)" "get32 (drop 12 (d @ e)) = get32 (drop 12 d)" for e
  proof -
    have get: "get32 (b @ e) = get32 b" if "4 \<le> length b" for b
      using that by (cases b rule: get32.cases) (simp_all add: get32.simps)
    show "get32 (drop 8 (d @ e)) = get32 (drop 8 d)" "get32 (drop 12 (d @ e)) = get32 (drop 12 d)"
      using assms get [of "drop 8 d"] get [of "drop 12 d"] by simp_all
  qed
  then show ?thesis
    by (simp only: control_packet_def buf_write_def take_0 append_Nil)
qed

lemma control_calls_append:
  "control_calls (cs @ ds) t =
     (case control_calls cs t of None \<Rightarrow> None
      | Some (as, t1) \<Rightarrow> map_option (\<lambda>(bs, t2). (as @ bs, t2)) (control_calls ds t1))"
proof (induction cs arbitrary: t)
  case Nil
  show ?case by (cases "control_calls ds t") auto
qed (auto split: option.split prod.split)

lemma control_calls_packets:
  assumes "\<forall>p \<in> set ps. 16 \<le> length p" "connected t"
  shows "\<exists>buf. control_calls (map (\<lambda>p. Received (int (length p)) p) ps) t =
           Some (map (\<lambda>p. Regs (control_packet p)) ps,
                 t\<lparr>buffer := buf, numpackets := numpackets t + length ps\<rparr>)"
  using assms
proof (induction ps arbitrary: t)
  case Nil
  then show ?case by (auto intro: exI [of _ "buffer t"])
next
  case (Cons p ps)
  let ?t1 = "t\<lparr>buffer := buf_write (buffer t) 0 p, numpackets := numpackets t + 1\<rparr>"
  obtain buf where "control_calls (map (\<lambda>p. Received (int (length p)) p) ps) ?t1 =
      Some (map (\<lambda>p. Regs (control_packet p)) ps, ?t1\<lparr>buffer := buf, numpackets := numpackets ?t1 + length ps\<rparr>)"
    using Cons.IH [of ?t1] Cons.prems by auto
  moreover have "16 \<le> length p" using Cons.prems(1) by simp
  moreover from this have "p \<noteq> []" by auto
  ultimately show ?case
    using Cons.prems(2) by (auto simp: control_packet_buf_write Let_def intro!: exI [of _ buf])
qed

text \<open>
  The former control thread serves one client after the other: for a connection on which every
  read returns one packet of at least 16 bytes, the thread performs exactly the packets' accesses, in
  order, counts them, and after the end of the stream closes the socket and is ready to accept again.
\<close>

theorem control_thread_serves:
  assumes "\<forall>p \<in> set ps. 16 \<le> length p" "\<not> connected t" "n \<le> 0"
  shows "\<exists>t'. control_calls (Accepted s # map (\<lambda>p. Received (int (length p)) p) ps @ [Received n []]) t =
            Some (map (\<lambda>p. Regs (control_packet p)) ps @ [Close_Sock s], t')
          \<and> \<not> connected t' \<and> numpackets t' = numpackets t + length ps"
proof -
  let ?t1 = "t\<lparr>newsockfd := s, connected := True\<rparr>"
  obtain buf where "control_calls (map (\<lambda>p. Received (int (length p)) p) ps) ?t1 =
      Some (map (\<lambda>p. Regs (control_packet p)) ps, ?t1\<lparr>buffer := buf, numpackets := numpackets ?t1 + length ps\<rparr>)"
    using control_calls_packets [OF assms(1), of ?t1] by auto
  with assms(2,3) show ?thesis
    by (simp add: control_calls_append)
qed

theorem control_thread_serves_witness:
  "\<exists>t'. control_calls [Accepted 3, Received 16 (replicate 16 0), Received 0 []]
            \<lparr>newsockfd = 0, connected = False, buffer = replicate 1024 7, numpackets = 5\<rparr> =
          Some ([Regs (control_packet (replicate 16 0)), Close_Sock 3], t')
        \<and> \<not> connected t' \<and> numpackets t' = 6"
  using control_thread_serves [of "[replicate 16 0]" "\<lparr>newsockfd = 0, connected = False, buffer = replicate 1024 7, numpackets = 5\<rparr>" 0 3]
  by simp

text \<open>
  The former control thread does not look at the number of bytes a read returned: a packet of one
  to eight bytes performs the accesses of the packet before it again.
\<close>

theorem control_short_packet_repeats:
  assumes "16 \<le> length p" "p' \<noteq> []" "length p' \<le> 8" "connected t"
  shows "\<exists>t'. control_calls [Received (int (length p)) p, Received (int (length p')) p'] t =
            Some ([Regs (control_packet p), Regs (control_packet p)], t')"
proof -
  have "control_packet (buf_write b 0 p') = control_packet b" if "8 \<le> length b" for b
    using assms(3) that by (simp add: control_packet_def buf_write_def)
  moreover have "8 \<le> length (buf_write (buffer t) 0 p)"
    using assms(1) by (simp add: buf_write_def)
  moreover have "\<not> int (length p) \<le> 0" "\<not> int (length p') \<le> 0" using assms(1,2) by auto
  ultimately show ?thesis
    using assms(1,4) by (simp add: control_packet_buf_write Let_def)
qed

theorem control_short_packet_repeats_witness:
  "\<exists>t'. control_calls [Received 16 (replicate 16 0), Received 1 [0x50]]
            \<lparr>newsockfd = 3, connected = True, buffer = replicate 1024 7, numpackets = 5\<rparr> =
          Some ([Regs (control_packet (replicate 16 0)), Regs (control_packet (replicate 16 0))], t')"
  using control_short_packet_repeats [of "replicate 16 0" "[0x50]" "\<lparr>newsockfd = 3, connected = True, buffer = replicate 1024 7, numpackets = 5\<rparr>"]
  by simp

end
