(* ===== verification/Old_Wvfm.thy ===== *)
theory Old_Wvfm
  imports Old_Control Old_Server
begin

text \<open>
  The waveform thread of the former firmware, \<open>src/sw_old/src/psc_wvfm_thread.c\<close>: it triggers the front
  end, copies a record from its FIFO into the message buffer, reverses the bytes of every word in
  place and writes the buffer to the client.

  \<open>Xil_In32\<close> and \<open>Xil_Out32\<close> are the parameters \<open>in32\<close> and \<open>out32\<close> on a hardware state, \<open>write\<close>, \<open>close\<close> and
  \<open>lwip_accept\<close> parameters on a network state. Memory is the list of bytes from the start of
  \<open>msgid51_buf\<close> to the end of the object, which has 100000 bytes; an access behind it gives \<open>None\<close>, as the write of header and
  record always does in this program. Delays and debug output are
  left out.
\<close>

section \<open>Byte reversal\<close>

text \<open>The loop of \<open>Host2NetworkConvWvfm\<close>, which \<open>Host2NetworkConvStatus\<close> has too.\<close>

function conv_loop :: "bytes \<Rightarrow> nat \<Rightarrow> nat \<Rightarrow> bytes option" where
  "conv_loop inbuf i len =
     (if i < len
      then if i + 3 < length inbuf
           then conv_loop (inbuf[i := inbuf ! (i + 3), i + 3 := inbuf ! i,
                                 i + 1 := inbuf ! (i + 2), i + 2 := inbuf ! (i + 1)]) (i + 4) len
           else None
      else Some inbuf)"
  by pat_completeness auto
termination
  by (relation "measure (\<lambda>(inbuf, i, len). len - i)") auto

declare conv_loop.simps [simp del]

definition Host2NetworkConvWvfm :: "bytes \<Rightarrow> nat \<Rightarrow> bytes option" where
  "Host2NetworkConvWvfm inbuf len = conv_loop inbuf 8 len"


lemma conv_loop_overrun: "length inbuf < len \<Longrightarrow> i < len \<Longrightarrow> conv_loop inbuf i len = None"
proof (induction inbuf i len rule: conv_loop.induct)
  case (1 inbuf i len)
  show ?case
  proof (cases "i + 3 < length inbuf")
    case True
    then show ?thesis
      using "1.IH" [OF "1.prems"(2) True] "1.prems" by (simp add: conv_loop.simps [of inbuf])
  next
    case False
    then show ?thesis by (simp add: conv_loop.simps [of inbuf] "1.prems"(2))
  qed
qed

section \<open>Reading a record\<close>

type_synonym 'h in32_old = "'h \<Rightarrow> pl_reg_old \<Rightarrow> u32 \<times> 'h"
type_synonym 'h out32_old = "'h \<Rightarrow> pl_reg_old \<Rightarrow> u32 \<Rightarrow> 'h"

abbreviation (input) MSGHDRLEN :: nat where "MSGHDRLEN \<equiv> 8"
abbreviation (input) MSGID51LEN :: nat where "MSGID51LEN \<equiv> 100000"

definition store32 :: "bytes \<Rightarrow> nat \<Rightarrow> u32 \<Rightarrow> bytes option" where
  "store32 mem off v = (if off + 4 \<le> length mem then Some (buf_write mem off (put32 v)) else None)"

definition soft_trig_artix_old :: "'h out32_old \<Rightarrow> 'h \<Rightarrow> 'h" where
  "soft_trig_artix_old out32 h =
     out32 (out32 (out32 (out32 h OLD_ARTIX_SPI_DATA 1) OLD_ARTIX_SPI_ADDR 0) OLD_ARTIX_SPI_WE 1) OLD_ARTIX_SPI_WE 0"

function chain_poll :: "'h in32_old \<Rightarrow> nat \<Rightarrow> 'h \<Rightarrow> u32 \<times> 'h" where
  "chain_poll in32 pollcnt h =
     (let (wordcnt, h') = in32 h CHAINA_FIFO_CNT_REG
      in if wordcnt = 0 \<and> pollcnt + 1 < 5000 then chain_poll in32 (pollcnt + 1) h' else (wordcnt, h'))"
  by pat_completeness auto
termination
  by (relation "measure (\<lambda>(in32, pollcnt, h). 5000 - pollcnt)") auto

declare chain_poll.simps [simp del]

function chain_loop ::
  "'h in32_old \<Rightarrow> u32 \<Rightarrow> u32 \<Rightarrow> nat \<Rightarrow> nat \<Rightarrow> bytes \<Rightarrow> 'h \<Rightarrow> (bytes \<times> 'h) option" where
  "chain_loop in32 ts_s ts_ns i n msg h =
     (if i < n
      then let (regval, h') = in32 h CHAINA_FIFO_DATA_REG;
               v = (if i = 37 then ts_s else if i = 38 then ts_ns else regval)
           in case store32 msg (8 + 4 * i) v of
                None \<Rightarrow> None
              | Some msg' \<Rightarrow> chain_loop in32 ts_s ts_ns (i + 1) n msg' h'
      else Some (msg, h))"
  by pat_completeness auto
termination
  by (relation "measure (\<lambda>(in32, ts_s, ts_ns, i, n, msg, h). n - i)") auto

declare chain_loop.simps [simp del]

definition ReadChainA :: "'h in32_old \<Rightarrow> 'h out32_old \<Rightarrow> bytes \<Rightarrow> 'h \<Rightarrow> (bytes \<times> 'h) option" where
  "ReadChainA in32 out32 msg h =
     (if length msg < 8 then None
      else
        let msg1 = buf_write msg 0 [0x50, 0x53, 0, 51];
            msg2 = buf_write msg1 4 (put32 (htonl (of_nat MSGID51LEN)));
            (ts_s, h1) = in32 h OLD_EVR_TS_S_REG;
            (ts_ns, h2) = in32 h1 OLD_EVR_TS_NS_REG;
            (wordcnt, h3) = chain_poll in32 0 h2
        in case (if 16000 < wordcnt then chain_loop in32 ts_s ts_ns 0 16258 msg2 h3 else Some (msg2, h3)) of
             None \<Rightarrow> None
           | Some (msg3, h4) \<Rightarrow>
               (let h5 = out32 (out32 h4 CHAINA_FIFO_RST_REG 1) CHAINA_FIFO_RST_REG 0
                in Some (msg3, snd (in32 h5 CHAINA_FIFO_CNT_REG))))"

section \<open>The thread\<close>

text \<open>One round of the loop: the buffer, the hardware, the network, and whether the write failed.\<close>

definition wvfm_round_old ::
  "'h in32_old \<Rightarrow> 'h out32_old \<Rightarrow> ('w \<Rightarrow> int \<Rightarrow> bytes \<Rightarrow> int \<times> 'w) \<Rightarrow> int \<Rightarrow> bytes \<Rightarrow> 'h \<Rightarrow> 'w \<Rightarrow>
     (bool \<times> bytes \<times> 'h \<times> 'w) option" where
  "wvfm_round_old in32 out32 sock_write clientfd mem h w =
     (case ReadChainA in32 out32 mem (soft_trig_artix_old out32 h) of
        None \<Rightarrow> None
      | Some (mem1, h1) \<Rightarrow>
          (case Host2NetworkConvWvfm mem1 (MSGID51LEN + MSGHDRLEN) of
             None \<Rightarrow> None
           | Some mem2 \<Rightarrow>
               if length mem2 < MSGID51LEN + MSGHDRLEN then None
               else let (n, w1) = sock_write w clientfd (take (MSGID51LEN + MSGHDRLEN) mem2)
                    in Some (n < 0, mem2, h1, w1)))"

definition psc_wvfm_setup :: "int \<Rightarrow> sock_call list" where
  "psc_wvfm_setup sockfd = listen_on 20 sockfd"

text \<open>\<open>k\<close> steps of the thread, on the message buffer and the hardware.\<close>

definition psc_wvfm_thread ::
  "nat \<Rightarrow> 'h in32_old \<Rightarrow> 'h out32_old \<Rightarrow> ('w \<Rightarrow> int \<times> 'w) \<Rightarrow> ('w \<Rightarrow> int \<Rightarrow> 'w) \<Rightarrow> ('w \<Rightarrow> int \<Rightarrow> bytes \<Rightarrow> int \<times> 'w) \<Rightarrow>
     int option \<Rightarrow> bytes \<times> 'h \<Rightarrow> 'w \<Rightarrow> (int option \<times> (bytes \<times> 'h) \<times> 'w) option" where
  "psc_wvfm_thread k in32 out32 sock_accept sock_close sock_write =
     serve k sock_accept sock_close
       (\<lambda>s (mem, h) w. map_option (\<lambda>(failed, mem', h', w'). (failed, (mem', h'), w'))
                          (wvfm_round_old in32 out32 sock_write s mem h w))"

section \<open>What is sent\<close>






text \<open>The words stored from index \<open>i\<close> on.\<close>

definition stamp_from :: "u32 \<Rightarrow> u32 \<Rightarrow> nat \<Rightarrow> u32 list \<Rightarrow> u32 list" where
  "stamp_from ts_s ts_ns i ws =
     map (\<lambda>(j, x). if j = 37 then ts_s else if j = 38 then ts_ns else x) (zip [i..<i + length ws] ws)"


lemma stamp_from_Nil [simp]: "stamp_from ts_s ts_ns i [] = []"
  by (simp add: stamp_from_def)


lemma length_stamp_from [simp]: "length (stamp_from ts_s ts_ns i ws) = length ws"
  by (simp add: stamp_from_def)


lemma chain_loop_length:
  "chain_loop in32 ts_s ts_ns i n msg h = Some (msg', h') \<Longrightarrow> length msg' = length msg"
proof (induction in32 ts_s ts_ns i n msg h arbitrary: msg' h' rule: chain_loop.induct)
  case (1 in32 ts_s ts_ns i n msg h)
  show ?case
  proof (cases "i < n")
    case False
    with "1.prems" show ?thesis by (simp add: chain_loop.simps [of in32 ts_s ts_ns i])
  next
    case True
    obtain regval h1 where rd: "in32 h CHAINA_FIFO_DATA_REG = (regval, h1)" by fastforce
    let ?v = "if i = 37 then ts_s else if i = 38 then ts_ns else regval"
    from "1.prems" True rd obtain m where m: "store32 msg (8 + 4 * i) ?v = Some m"
      "chain_loop in32 ts_s ts_ns (i + 1) n m h1 = Some (msg', h')"
      by (auto simp: chain_loop.simps [of in32 ts_s ts_ns i] Let_def split: option.splits)
    from m(1) have "length m = length msg" by (auto simp: store32_def split: if_splits)
    with "1.IH" [OF True rd [symmetric] refl refl m] show ?thesis by simp
  qed
qed

lemma ReadChainA_length:
  assumes "ReadChainA in32 out32 msg h = Some (msg', h')"
  shows "length msg' = length msg"
proof -
  have long: "8 \<le> length msg" using assms by (cases "length msg < 8") (simp_all add: ReadChainA_def)
  let ?m = "buf_write (buf_write msg 0 [0x50, 0x53, 0, 51]) 4 (put32 (htonl 100000))"
  obtain ts_s h1 where 1: "in32 h OLD_EVR_TS_S_REG = (ts_s, h1)" by fastforce
  obtain ts_ns h2 where 2: "in32 h1 OLD_EVR_TS_NS_REG = (ts_ns, h2)" by fastforce
  obtain wordcnt h3 where 3: "chain_poll in32 0 h2 = (wordcnt, h3)" by fastforce
  obtain h4 where "(if 16000 < wordcnt then chain_loop in32 ts_s ts_ns 0 16258 ?m h3 else Some (?m, h3)) = Some (msg', h4)"
    using assms long 1 2 3 by (auto simp: ReadChainA_def Let_def split: option.splits)
  then show ?thesis
    using long chain_loop_length by (fastforce split: if_splits)
qed

lemma ReadChainA_step:
  assumes "8 \<le> length msg" "in32 h OLD_EVR_TS_S_REG = (ts_s, h1)" "in32 h1 OLD_EVR_TS_NS_REG = (ts_ns, h2)"
    and "chain_poll in32 0 h2 = (wordcnt, h3)"
    and "m = buf_write (buf_write msg 0 [0x50, 0x53, 0, 51]) 4 (put32 (htonl 100000))"
    and "(if 16000 < wordcnt then chain_loop in32 ts_s ts_ns 0 16258 m h3 else Some (m, h3)) = Some (m', h4)"
  shows "\<exists>h'. ReadChainA in32 out32 msg h = Some (m', h')"
  using assms by (cases "16000 < wordcnt") (simp_all add: ReadChainA_def Let_def)


text \<open>
  The message buffer of the former waveform thread has 100000 bytes, but the conversion and the write
  take 100008: whatever the hardware and the network do, every round of the thread leaves the buffer.
\<close>

theorem wvfm_round_old_overruns:
  "length msgid51_buf = MSGID51LEN \<Longrightarrow>
   wvfm_round_old in32 out32 sock_write s msgid51_buf h w = None"
proof -
  assume len: "length msgid51_buf = MSGID51LEN"
  have "Host2NetworkConvWvfm m (MSGID51LEN + MSGHDRLEN) = None" if "length m = MSGID51LEN" for m
    using conv_loop_overrun [of m "MSGID51LEN + MSGHDRLEN" 8] that by (simp add: Host2NetworkConvWvfm_def)
  with len show "wvfm_round_old in32 out32 sock_write s msgid51_buf h w = None"
    using ReadChainA_length [of in32 out32 msgid51_buf]
    by (auto simp: wvfm_round_old_def split: option.splits)
qed

theorem wvfm_round_old_overruns_witness:
  "wvfm_round_old (\<lambda>h r. (0, h)) (\<lambda>h r v. h) (\<lambda>w s d. (int (length d), w)) 3 (replicate 100000 0) () () = None"
  by (rule wvfm_round_old_overruns) simp




section \<open>The thread and its clients\<close>

lemma conv_loop_defined:
  "len \<le> length inbuf \<Longrightarrow> 4 dvd len - i \<Longrightarrow> \<exists>m. conv_loop inbuf i len = Some m \<and> length m = length inbuf"
proof (induction inbuf i len rule: conv_loop.induct)
  case (1 inbuf i len)
  show ?case
  proof (cases "i < len")
    case True
    then have room: "i + 4 \<le> len" using "1.prems"(2) dvd_imp_le [of 4 "len - i"] by simp
    then have "4 dvd len - (i + 4)" "i + 3 < length inbuf"
      using "1.prems" dvd_diff_nat [of 4 "len - i" 4] by (simp_all add: diff_diff_add)
    then show ?thesis
      using "1.IH" [OF True] "1.prems"(1) True by (simp add: conv_loop.simps [of inbuf])
  qed (simp add: conv_loop.simps)
qed

lemma chain_loop_defined:
  "8 + 4 * n \<le> length msg \<Longrightarrow> \<exists>msg' h'. chain_loop in32 ts_s ts_ns i n msg h = Some (msg', h')"
proof (induction in32 ts_s ts_ns i n msg h rule: chain_loop.induct)
  case (1 in32 ts_s ts_ns i n msg h)
  show ?case
  proof (cases "i < n")
    case True
    obtain regval h' where rd: "in32 h CHAINA_FIFO_DATA_REG = (regval, h')" by fastforce
    let ?v = "if i = 37 then ts_s else if i = 38 then ts_ns else regval"
    have st: "store32 msg (8 + 4 * i) ?v = Some (buf_write msg (8 + 4 * i) (put32 ?v))"
      using True "1.prems" by (simp add: store32_def)
    have "8 + 4 * n \<le> length (buf_write msg (8 + 4 * i) (put32 ?v))"
      using True "1.prems" by simp
    from "1.IH" [OF True rd [symmetric] refl refl st this] show ?thesis
      by (simp only: chain_loop.simps [of in32 ts_s ts_ns i] rd Let_def prod.case st option.case if_P [OF True])
  qed (simp add: chain_loop.simps)
qed

lemma wvfm_round_old_defined:
  assumes "MSGID51LEN + MSGHDRLEN \<le> length mem"
  shows "\<exists>failed mem' h' d. wvfm_round_old in32 out32 sock_write s mem h w =
           Some (failed, mem', h', snd (sock_write w s d)) \<and> length mem' = length mem"
proof -
  let ?h = "soft_trig_artix_old out32 h"
  let ?m = "buf_write (buf_write mem 0 [0x50, 0x53, 0, 51]) 4 (put32 (htonl 100000))"
  obtain ts_s h1 where 1: "in32 ?h OLD_EVR_TS_S_REG = (ts_s, h1)" by fastforce
  obtain ts_ns h2 where 2: "in32 h1 OLD_EVR_TS_NS_REG = (ts_ns, h2)" by fastforce
  obtain wordcnt h3 where 3: "chain_poll in32 0 h2 = (wordcnt, h3)" by fastforce
  have "8 + 4 * 16258 \<le> length ?m" "8 \<le> length mem" using assms by simp_all
  then obtain m1 h4 where
    "(if 16000 < wordcnt then chain_loop in32 ts_s ts_ns 0 16258 ?m h3 else Some (?m, h3)) = Some (m1, h4)"
    using chain_loop_defined [of 16258 ?m in32 ts_s ts_ns 0 h3] by (cases "16000 < wordcnt") auto
  then obtain h5 where rd: "ReadChainA in32 out32 mem ?h = Some (m1, h5)"
    using ReadChainA_step [OF \<open>8 \<le> length mem\<close> 1 2 3 refl] by blast
  then have len: "length m1 = length mem" by (rule ReadChainA_length)
  then obtain m2 where "Host2NetworkConvWvfm m1 (MSGID51LEN + MSGHDRLEN) = Some m2" "length m2 = length mem"
    using conv_loop_defined [of "MSGID51LEN + MSGHDRLEN" m1 8] assms by (auto simp: Host2NetworkConvWvfm_def)
  with rd assms show ?thesis
    by (auto simp: wvfm_round_old_def Let_def case_prod_beta)
qed

text \<open>
  With the eight bytes behind the message buffer taken as part of it, the former waveform thread runs for
  any number of steps, whatever the hardware, the clients and a failing accept do, and it leaks no socket: at
  every moment the only descriptor it has added to those that were open before is the one of its client.
\<close>

theorem psc_wvfm_thread_sockets:
  assumes "sock_contract sock_accept sock_close sock_write opn" "MSGID51LEN + MSGHDRLEN \<le> length mem"
  shows "\<exists>conn mem' h' w'. psc_wvfm_thread k in32 out32 sock_accept sock_close sock_write None (mem, h) w =
             Some (conn, (mem', h'), w')
           \<and> length mem' = length mem \<and> opn w' = opn w \<union> held_sock conn \<and> opn w \<inter> held_sock conn = {}"
proof -
  have keep: "opn (snd (sock_write w s d)) = opn w" "opn w \<subseteq> {0..}" for w s d
    using assms(1) by (auto simp: sock_contract_def)
  have "\<exists>conn st w'. psc_wvfm_thread k in32 out32 sock_accept sock_close sock_write None (mem, h) w = Some (conn, st, w')
      \<and> length (fst st) = length mem \<and> opn w' = opn w \<union> held_sock conn \<and> opn w \<inter> held_sock conn = {}"
    unfolding psc_wvfm_thread_def
  proof (rule serve_sockets [OF assms(1), where P = "\<lambda>st. length (fst st) = length mem"])
    show "\<exists>failed st' w'. (case st of (mem, h) \<Rightarrow> \<lambda>w. map_option (\<lambda>(failed, mem', h', w'). (failed, (mem', h'), w'))
          (wvfm_round_old in32 out32 sock_write s mem h w)) w = Some (failed, st', w')
        \<and> length (fst st') = length mem \<and> opn w' = opn w"
      if "length (fst st) = length mem" for s st w
      using wvfm_round_old_defined [of "fst st" in32 out32 sock_write s "snd st" w] that assms(2) keep(1)
      by (auto simp: case_prod_beta)
  qed (simp_all add: keep(2))
  then show ?thesis by auto
qed

theorem psc_wvfm_thread_sockets_witness:
  "\<exists>conn mem' h' w'. psc_wvfm_thread 7 (\<lambda>h r. (0, h)) (\<lambda>h r v. h) demo_accept demo_close demo_write None
       (replicate 100008 0, ()) False = Some (conn, (mem', h'), w') \<and> held_sock conn = (if w' then {3} else {})"
proof -
  have "MSGID51LEN + MSGHDRLEN \<le> length (replicate 100008 0)"
    by (simp only: length_replicate)
  from psc_wvfm_thread_sockets [OF demo_sock_contract this, of 7 "\<lambda>h r. (0, h)" "\<lambda>h r v. h" "()" False]
  show ?thesis by (fastforce split: if_splits)
qed

end
