(* ===== verification/Old_Si5347.thy ===== *)
theory Old_Si5347
  imports I2c
begin

text \<open>
  The clock chip of the former firmware: the register table of
  \<open>src/sw_old/inc/Si5347-RevD-zubpm-Registers.h\<close> (729 pairs of a 16-bit register address and a value, in
  five parts) and the routine \<open>write_si5347\<close> of \<open>src/sw_old/src/i2c_devices.c\<close> that writes it.

  The chip is addressed in pages: a write of register 1 selects the page, a write of any other register
  goes to that register of the page. \<open>si5347_direct\<close> is the reference that stores every table entry at its
  16-bit address; the routine, which writes the page register only when the page changes, refines it.
\<close>

section \<open>Table\<close>

type_synonym si5347_revd_register_t = "u32 \<times> u8"

definition si5347_registers_0 :: "si5347_revd_register_t list" where
  "si5347_registers_0 =
     [(0x0B24, 0xC0), (0x0B25, 0x00), (0x0B4E, 0x1A), (0x0006, 0x00), (0x0007, 0x00), (0x0008, 0x00),
      (0x000B, 0x6C), (0x0016, 0x0F), (0x0017, 0xDC), (0x0018, 0xEE), (0x0019, 0xEE), (0x001A, 0xEF),
      (0x0020, 0x01), (0x002B, 0x02), (0x002C, 0x01), (0x002D, 0x01), (0x002E, 0x3A), (0x002F, 0x00),
      (0x0030, 0x00), (0x0031, 0x00), (0x0032, 0x00), (0x0033, 0x00), (0x0034, 0x00), (0x0035, 0x00),
      (0x0036, 0x3A), (0x0037, 0x00), (0x0038, 0x00), (0x0039, 0x00), (0x003A, 0x00), (0x003B, 0x00),
      (0x003C, 0x00), (0x003D, 0x00), (0x003F, 0x11), (0x0040, 0x04), (0x0041, 0x0D), (0x0042, 0x00),
      (0x0043, 0x00), (0x0044, 0x00), (0x0045, 0x0C), (0x0046, 0x32), (0x0047, 0x00), (0x0048, 0x00),
      (0x0049, 0x00), (0x004A, 0x32), (0x004B, 0x00), (0x004C, 0x00), (0x004D, 0x00), (0x004E, 0x05),
      (0x004F, 0x00), (0x0050, 0x0F), (0x0051, 0x03), (0x0052, 0x00), (0x0053, 0x00), (0x0054, 0x00),
      (0x0055, 0x03), (0x0056, 0x00), (0x0057, 0x00), (0x0058, 0x00), (0x0059, 0x01), (0x005A, 0xB8),
      (0x005B, 0x1E), (0x005C, 0x4D), (0x005D, 0x01), (0x005E, 0x00), (0x005F, 0x00), (0x0060, 0x00),
      (0x0061, 0x00), (0x0062, 0x00), (0x0063, 0x00), (0x0064, 0x00), (0x0065, 0x00), (0x0066, 0x00),
      (0x0067, 0x00), (0x0068, 0x00), (0x0069, 0x00), (0x0092, 0x01), (0x0093, 0x0A), (0x0094, 0x00),
      (0x0095, 0x00), (0x0096, 0x08), (0x0097, 0x00), (0x0098, 0x06), (0x0099, 0x00), (0x009A, 0x01),
      (0x009B, 0x06), (0x009C, 0x00), (0x009D, 0x02), (0x009E, 0x04), (0x009F, 0x00), (0x00A0, 0x02),
      (0x00A1, 0x00), (0x00A2, 0x00), (0x00A4, 0x41), (0x00A5, 0x60), (0x00A6, 0x00), (0x00A7, 0x00),
      (0x00A9, 0x00), (0x00AA, 0x00), (0x00AB, 0x00), (0x00AC, 0x00), (0x00AE, 0x00), (0x00AF, 0x00),
      (0x00B0, 0x00), (0x00B1, 0x00), (0x00B3, 0x00), (0x00B4, 0x00), (0x00B5, 0x00), (0x00B6, 0x00),
      (0x00E5, 0x00), (0x00E6, 0x0A), (0x00E7, 0x60), (0x00E8, 0x00), (0x00E9, 0x00), (0x00EA, 0x00),
      (0x00EB, 0x00), (0x00EC, 0x00), (0x00ED, 0x00), (0x00EE, 0x00), (0x00EF, 0x00), (0x00F0, 0x00),
      (0x00F1, 0x00), (0x00F2, 0x00), (0x00F3, 0x00), (0x00F4, 0x00), (0x00F5, 0x00), (0x0102, 0x01),
      (0x0108, 0x02), (0x0109, 0x09), (0x010A, 0x3E), (0x010B, 0x19), (0x010C, 0x02), (0x0112, 0x01),
      (0x0113, 0x09), (0x0114, 0x3B), (0x0115, 0x28), (0x0116, 0x00), (0x0117, 0x02), (0x0118, 0x09),
      (0x0119, 0x3B)]"

definition si5347_registers_1 :: "si5347_revd_register_t list" where
  "si5347_registers_1 =
     [(0x011A, 0x28), (0x011B, 0x01), (0x011C, 0x01), (0x011D, 0x09), (0x011E, 0x3B), (0x011F, 0x28),
      (0x0120, 0x00), (0x0126, 0x02), (0x0127, 0x09), (0x0128, 0x3B), (0x0129, 0x29), (0x012A, 0x02),
      (0x012B, 0x01), (0x012C, 0x09), (0x012D, 0x3B), (0x012E, 0x28), (0x012F, 0x00), (0x0130, 0x01),
      (0x0131, 0x09), (0x0132, 0x3B), (0x0133, 0x28), (0x0134, 0x00), (0x013A, 0x01), (0x013B, 0x09),
      (0x013C, 0x3B), (0x013D, 0x28), (0x013E, 0x00), (0x013F, 0x00), (0x0140, 0x00), (0x0141, 0x40),
      (0x0142, 0xFF), (0x0206, 0x00), (0x0208, 0x3F), (0x0209, 0x00), (0x020A, 0x00), (0x020B, 0x00),
      (0x020C, 0x00), (0x020D, 0x00), (0x020E, 0x01), (0x020F, 0x00), (0x0210, 0x00), (0x0211, 0x00),
      (0x0212, 0x00), (0x0213, 0x00), (0x0214, 0x00), (0x0215, 0x00), (0x0216, 0x00), (0x0217, 0x00),
      (0x0218, 0x00), (0x0219, 0x00), (0x021A, 0x00), (0x021B, 0x00), (0x021C, 0x00), (0x021D, 0x00),
      (0x021E, 0x00), (0x021F, 0x00), (0x0220, 0x00), (0x0221, 0x00), (0x0222, 0x00), (0x0223, 0x00),
      (0x0224, 0x00), (0x0225, 0x00), (0x0226, 0x00), (0x0227, 0x00), (0x0228, 0x00), (0x0229, 0x00),
      (0x022A, 0x00), (0x022B, 0x00), (0x022C, 0x00), (0x022D, 0x00), (0x022E, 0x00), (0x022F, 0x00),
      (0x0231, 0x0B), (0x0232, 0x0B), (0x0233, 0x0B), (0x0234, 0x0B), (0x0235, 0x00), (0x0236, 0x00),
      (0x0237, 0x00), (0x0238, 0x80), (0x0239, 0x93), (0x023A, 0x00), (0x023B, 0x00), (0x023C, 0x00),
      (0x023D, 0x00), (0x023E, 0x80), (0x024A, 0x8B), (0x024B, 0x86), (0x024C, 0x47), (0x0250, 0x00),
      (0x0251, 0x00), (0x0252, 0x00), (0x0253, 0x02), (0x0254, 0x00), (0x0255, 0x00), (0x0256, 0x00),
      (0x0257, 0x00), (0x0258, 0x00), (0x025C, 0x02), (0x025D, 0x00), (0x025E, 0x00), (0x025F, 0x00),
      (0x0260, 0x00), (0x0261, 0x00), (0x0262, 0x00), (0x0263, 0x00), (0x0264, 0x00), (0x0268, 0x00),
      (0x0269, 0x00), (0x026A, 0x00), (0x026B, 0x7A), (0x026C, 0x75), (0x026D, 0x62), (0x026E, 0x70),
      (0x026F, 0x6D), (0x0270, 0x00), (0x0271, 0x00), (0x0272, 0x00), (0x028A, 0x00), (0x028B, 0x00),
      (0x028C, 0x00), (0x028D, 0x00), (0x028E, 0x00), (0x028F, 0x00), (0x0290, 0x00), (0x0291, 0x00),
      (0x0294, 0x88), (0x0295, 0x88), (0x0296, 0x01), (0x0297, 0x01), (0x0299, 0x01), (0x029A, 0xFA),
      (0x029B, 0x01), (0x029C, 0x00), (0x029D, 0x00), (0x029E, 0x00), (0x029F, 0x00), (0x02A0, 0x00),
      (0x02A1, 0x00), (0x02A2, 0x00), (0x02A3, 0x00), (0x02A4, 0x00), (0x02A5, 0x00), (0x02A6, 0xCC),
      (0x02A7, 0x04), (0x02A8, 0x00), (0x02A9, 0x00), (0x02AA, 0x00)]"

definition si5347_registers_2 :: "si5347_revd_register_t list" where
  "si5347_registers_2 =
     [(0x02AB, 0x00), (0x02AC, 0x00), (0x02AD, 0x00), (0x02AE, 0x00), (0x02AF, 0x00), (0x02B0, 0x00),
      (0x02B1, 0x00), (0x02B7, 0xFF), (0x0302, 0x00), (0x0303, 0x00), (0x0304, 0x80), (0x0305, 0x67),
      (0x0306, 0x0E), (0x0307, 0x00), (0x0308, 0x00), (0x0309, 0x00), (0x030A, 0x30), (0x030B, 0xC3),
      (0x030C, 0x00), (0x030D, 0x00), (0x030E, 0x00), (0x030F, 0x00), (0x0310, 0xC0), (0x0311, 0x0E),
      (0x0312, 0x00), (0x0313, 0x00), (0x0314, 0x00), (0x0315, 0x00), (0x0316, 0xFA), (0x0317, 0x00),
      (0x0318, 0x00), (0x0319, 0x00), (0x031A, 0x00), (0x031B, 0x00), (0x031C, 0x00), (0x031D, 0x00),
      (0x031E, 0x00), (0x031F, 0x00), (0x0320, 0x00), (0x0321, 0x00), (0x0322, 0x00), (0x0323, 0x00),
      (0x0324, 0x00), (0x0325, 0x00), (0x0326, 0x00), (0x0327, 0x00), (0x0328, 0x00), (0x0329, 0x00),
      (0x032A, 0x00), (0x032B, 0x00), (0x032C, 0x00), (0x032D, 0x00), (0x0338, 0x00), (0x033B, 0x00),
      (0x033C, 0x00), (0x033D, 0x00), (0x033E, 0x00), (0x033F, 0x00), (0x0340, 0x00), (0x0341, 0x00),
      (0x0342, 0x00), (0x0343, 0x00), (0x0344, 0x00), (0x0345, 0x00), (0x0346, 0x00), (0x0347, 0x00),
      (0x0348, 0x00), (0x0349, 0x00), (0x034A, 0x00), (0x034B, 0x00), (0x034C, 0x00), (0x034D, 0x00),
      (0x034E, 0x00), (0x034F, 0x00), (0x0350, 0x00), (0x0351, 0x00), (0x0352, 0x00), (0x0408, 0x0F),
      (0x0409, 0x21), (0x040A, 0x09), (0x040B, 0x08), (0x040C, 0x3F), (0x040D, 0x3F), (0x040E, 0x0F),
      (0x040F, 0x23), (0x0410, 0x09), (0x0411, 0x08), (0x0412, 0x3F), (0x0413, 0x3F), (0x0415, 0x00),
      (0x0416, 0x00), (0x0417, 0x00), (0x0418, 0x00), (0x0419, 0xBD), (0x041A, 0x00), (0x041B, 0x00),
      (0x041C, 0x00), (0x041D, 0x00), (0x041E, 0x00), (0x041F, 0x80), (0x0421, 0x2B), (0x0422, 0x01),
      (0x0423, 0x00), (0x0424, 0x00), (0x0425, 0x00), (0x0426, 0x00), (0x0427, 0x00), (0x0428, 0x00),
      (0x0429, 0x00), (0x042A, 0x00), (0x042B, 0x01), (0x042C, 0x87), (0x042D, 0x03), (0x042E, 0x19),
      (0x042F, 0x19), (0x0431, 0x00), (0x0432, 0x49), (0x0433, 0x03), (0x0434, 0x00), (0x0435, 0x00),
      (0x0436, 0x04), (0x0437, 0x00), (0x0438, 0x00), (0x0439, 0x00), (0x043A, 0x02), (0x043B, 0x03),
      (0x043C, 0x00), (0x043D, 0x0E), (0x043E, 0x06), (0x0442, 0x00), (0x0443, 0x00), (0x0444, 0x00),
      (0x0445, 0x00), (0x0489, 0x0D), (0x048A, 0x00), (0x049B, 0xF8), (0x049D, 0x0F), (0x049E, 0x23),
      (0x049F, 0x09), (0x04A0, 0x08), (0x04A1, 0x3F), (0x04A2, 0x3F), (0x04A6, 0x03), (0x0508, 0x00),
      (0x0509, 0x00), (0x050A, 0x00), (0x050B, 0x00), (0x050C, 0x00)]"

definition si5347_registers_3 :: "si5347_revd_register_t list" where
  "si5347_registers_3 =
     [(0x050D, 0x00), (0x050E, 0x00), (0x050F, 0x00), (0x0510, 0x00), (0x0511, 0x00), (0x0512, 0x00),
      (0x0513, 0x00), (0x0515, 0x00), (0x0516, 0x00), (0x0517, 0x00), (0x0518, 0x00), (0x0519, 0x00),
      (0x051A, 0x00), (0x051B, 0x00), (0x051C, 0x00), (0x051D, 0x00), (0x051E, 0x00), (0x051F, 0x00),
      (0x0521, 0x2B), (0x0522, 0x01), (0x0523, 0x00), (0x0524, 0x00), (0x0525, 0x00), (0x0526, 0x00),
      (0x0527, 0x00), (0x0528, 0x00), (0x0529, 0x00), (0x052A, 0x03), (0x052B, 0x01), (0x052C, 0x0F),
      (0x052D, 0x03), (0x052E, 0x00), (0x052F, 0x00), (0x0531, 0x00), (0x0532, 0x00), (0x0533, 0x04),
      (0x0534, 0x00), (0x0535, 0x01), (0x0536, 0x04), (0x0537, 0x00), (0x0538, 0x00), (0x0539, 0x00),
      (0x053D, 0x0A), (0x053E, 0x06), (0x0542, 0x00), (0x0543, 0x00), (0x0544, 0x00), (0x0545, 0x00),
      (0x0589, 0x0C), (0x058A, 0x00), (0x059B, 0x18), (0x059D, 0x00), (0x059E, 0x00), (0x059F, 0x00),
      (0x05A0, 0x00), (0x05A1, 0x00), (0x05A2, 0x00), (0x05A6, 0x00), (0x0602, 0x01), (0x0608, 0x00),
      (0x0609, 0x00), (0x060A, 0x00), (0x060B, 0x00), (0x060C, 0x00), (0x060D, 0x00), (0x060E, 0x00),
      (0x060F, 0x00), (0x0610, 0x00), (0x0611, 0x00), (0x0612, 0x00), (0x0613, 0x00), (0x0615, 0x00),
      (0x0616, 0x00), (0x0617, 0x00), (0x0618, 0x00), (0x0619, 0x00), (0x061A, 0x00), (0x061B, 0x00),
      (0x061C, 0x00), (0x061D, 0x00), (0x061E, 0x00), (0x061F, 0x00), (0x0621, 0x2B), (0x0622, 0x01),
      (0x0623, 0x00), (0x0624, 0x00), (0x0625, 0x00), (0x0626, 0x00), (0x0627, 0x00), (0x0628, 0x00),
      (0x0629, 0x00), (0x062A, 0x00), (0x062B, 0x01), (0x062C, 0x0F), (0x062D, 0x03), (0x062E, 0x00),
      (0x062F, 0x00), (0x0631, 0x00), (0x0632, 0x00), (0x0633, 0x04), (0x0634, 0x00), (0x0636, 0x06),
      (0x0637, 0x00), (0x0638, 0x00), (0x0639, 0x00), (0x063D, 0x0A), (0x063E, 0x06), (0x0689, 0x0C),
      (0x068A, 0x00), (0x069B, 0x18), (0x069D, 0x00), (0x069E, 0x00), (0x069F, 0x00), (0x06A0, 0x00),
      (0x06A1, 0x00), (0x06A2, 0x00), (0x06A6, 0x00), (0x0702, 0x01), (0x0709, 0x00), (0x070A, 0x00),
      (0x070B, 0x00), (0x070C, 0x00), (0x070D, 0x00), (0x070E, 0x00), (0x070F, 0x00), (0x0710, 0x00),
      (0x0711, 0x00), (0x0712, 0x00), (0x0713, 0x00), (0x0714, 0x00), (0x0716, 0x00), (0x0717, 0x00),
      (0x0718, 0x00), (0x0719, 0x00), (0x071A, 0x00), (0x071B, 0x00), (0x071C, 0x00), (0x071D, 0x00),
      (0x071E, 0x00), (0x071F, 0x00), (0x0720, 0x00), (0x0722, 0x2B), (0x0723, 0x01), (0x0724, 0x00),
      (0x0725, 0x00), (0x0726, 0x00), (0x0727, 0x00), (0x0728, 0x00)]"

definition si5347_registers_4 :: "si5347_revd_register_t list" where
  "si5347_registers_4 =
     [(0x0729, 0x00), (0x072A, 0x00), (0x072B, 0x00), (0x072C, 0x01), (0x072D, 0x0F), (0x072E, 0x03),
      (0x072F, 0x00), (0x0730, 0x00), (0x0732, 0x00), (0x0733, 0x00), (0x0734, 0x04), (0x0735, 0x00),
      (0x0737, 0x06), (0x0738, 0x00), (0x0739, 0x00), (0x073A, 0x00), (0x073E, 0x0A), (0x073F, 0x06),
      (0x0789, 0x0C), (0x078A, 0x00), (0x079B, 0x18), (0x079D, 0x00), (0x079E, 0x00), (0x079F, 0x00),
      (0x07A0, 0x00), (0x07A1, 0x00), (0x07A2, 0x00), (0x07A6, 0x00), (0x0802, 0x35), (0x0803, 0x04),
      (0x0804, 0x00), (0x0805, 0x45), (0x0806, 0x04), (0x0807, 0x00), (0x0808, 0x42), (0x0809, 0x04),
      (0x080A, 0x00), (0x080B, 0x43), (0x080C, 0x04), (0x080D, 0x00), (0x080E, 0x44), (0x080F, 0x04),
      (0x0810, 0x00), (0x0811, 0x35), (0x0812, 0x05), (0x0813, 0x01), (0x0814, 0x45), (0x0815, 0x05),
      (0x0816, 0x00), (0x0817, 0x42), (0x0818, 0x05), (0x0819, 0x00), (0x081A, 0x43), (0x081B, 0x05),
      (0x081C, 0x00), (0x081D, 0x44), (0x081E, 0x05), (0x081F, 0x00), (0x0820, 0x00), (0x0821, 0x00),
      (0x0822, 0x00), (0x0823, 0x00), (0x0824, 0x00), (0x0825, 0x00), (0x0826, 0x00), (0x0827, 0x00),
      (0x0828, 0x00), (0x0829, 0x00), (0x082A, 0x00), (0x082B, 0x00), (0x082C, 0x00), (0x082D, 0x00),
      (0x082E, 0x00), (0x082F, 0x00), (0x0830, 0x00), (0x0831, 0x00), (0x0832, 0x00), (0x0833, 0x00),
      (0x0834, 0x00), (0x0835, 0x00), (0x0836, 0x00), (0x0837, 0x00), (0x0838, 0x00), (0x0839, 0x00),
      (0x083A, 0x00), (0x083B, 0x00), (0x083C, 0x00), (0x083D, 0x00), (0x083E, 0x00), (0x083F, 0x00),
      (0x0840, 0x00), (0x0841, 0x00), (0x0842, 0x00), (0x0843, 0x00), (0x0844, 0x00), (0x0845, 0x00),
      (0x0846, 0x00), (0x0847, 0x00), (0x0848, 0x00), (0x0849, 0x00), (0x084A, 0x00), (0x084B, 0x00),
      (0x084C, 0x00), (0x084D, 0x00), (0x084E, 0x00), (0x084F, 0x00), (0x0850, 0x00), (0x0851, 0x00),
      (0x0852, 0x00), (0x0853, 0x00), (0x0854, 0x00), (0x0855, 0x00), (0x0856, 0x00), (0x0857, 0x00),
      (0x0858, 0x00), (0x0859, 0x00), (0x085A, 0x00), (0x085B, 0x00), (0x085C, 0x00), (0x085D, 0x00),
      (0x085E, 0x00), (0x085F, 0x00), (0x0860, 0x00), (0x0861, 0x00), (0x090E, 0x02), (0x0943, 0x01),
      (0x0949, 0x01), (0x094A, 0x01), (0x094E, 0x49), (0x094F, 0x02), (0x095E, 0x00), (0x0A03, 0x03),
      (0x0A04, 0x00), (0x0A05, 0x03), (0x0B44, 0x1F), (0x0B45, 0x0C), (0x0B46, 0x00), (0x0B47, 0x0E),
      (0x0B48, 0x0E), (0x0B4A, 0x0C), (0x0B57, 0x0E), (0x0B58, 0x01), (0x0414, 0x01), (0x001C, 0x01),
      (0x0B24, 0xC3), (0x0B25, 0x02)]"

definition si5347_revd_registers :: "si5347_revd_register_t list" where
  "si5347_revd_registers = si5347_registers_0 @ si5347_registers_1 @ si5347_registers_2 @ si5347_registers_3 @ si5347_registers_4"

section \<open>Writing the table\<close>

text \<open>Bus writes and delays in microseconds; the routine ignores the status of the writes.\<close>

datatype i2c_op = Wr u8 bytes | Usleep nat

abbreviation (input) I2C_PORTEXP0_ADDR :: u32 where "I2C_PORTEXP0_ADDR \<equiv> 0x70"
abbreviation (input) I2C_PORTEXP1_ADDR :: u32 where "I2C_PORTEXP1_ADDR \<equiv> 0x71"
abbreviation (input) SI5347_ADDR :: u8 where "SI5347_ADDR \<equiv> 0x6C"

definition port_expander_op :: "u32 \<Rightarrow> u32 \<Rightarrow> i2c_op" where
  "port_expander_op addr port = Wr (ucast addr) [ucast port]"

text \<open>The loop from index \<open>i\<close> on, with the page that was selected last.\<close>

fun si5347_loop :: "nat \<Rightarrow> u8 \<Rightarrow> si5347_revd_register_t list \<Rightarrow> i2c_op list" where
  "si5347_loop i newpage [] = []"
| "si5347_loop i newpage ((address, val) # rs) =
     (let page = ucast (drop_bit 8 address)
      in (if page \<noteq> newpage then [Wr SI5347_ADDR [0x01, page], Usleep 1000] else [])
         @ [Wr SI5347_ADDR [ucast (address AND 0x00FF), val]]
         @ (if i = 2 then [Usleep 300000] else [])
         @ [Usleep 1000]
         @ si5347_loop (i + 1) page rs)"

definition write_si5347 :: "i2c_op list" where
  "write_si5347 =
     port_expander_op I2C_PORTEXP1_ADDR 0x02 # Wr SI5347_ADDR [0x01, 0x00] # si5347_loop 0 0 si5347_revd_registers"

section \<open>The chip\<close>

text \<open>The page and the registers, after the writes that reach the chip.\<close>

fun si5347_chip :: "i2c_op list \<Rightarrow> u8 \<times> (u16 \<Rightarrow> u8) \<Rightarrow> u8 \<times> (u16 \<Rightarrow> u8)" where
  "si5347_chip [] c = c"
| "si5347_chip (Wr a [r, v] # es) (page, regs) =
     si5347_chip es (if a = SI5347_ADDR
                     then if r = 1 then (v, regs) else (page, regs(push_bit 8 (ucast page) OR ucast r := v))
                     else (page, regs))"
| "si5347_chip (_ # es) c = si5347_chip es c"

definition si5347_direct :: "si5347_revd_register_t list \<Rightarrow> (u16 \<Rightarrow> u8) \<Rightarrow> (u16 \<Rightarrow> u8)" where
  "si5347_direct rs regs = fold (\<lambda>(a, v) m. m(ucast a := v)) rs regs"

text \<open>An entry the paging scheme can write: its address has 16 bits, and it is not a page register.\<close>

definition si5347_entry_ok :: "si5347_revd_register_t \<Rightarrow> bool" where
  "si5347_entry_ok e \<longleftrightarrow> fst e < 0x10000 \<and> fst e AND 0xFF \<noteq> 1"

lemma si5347_join: "push_bit 8 (ucast (ucast (drop_bit 8 a) :: u8)) OR ucast (ucast (a AND 0xFF) :: u8) = (ucast a :: u16)"
  for a :: u32
proof -
  have m: "(0xFF :: u32) = mask 8" by (simp add: mask_eq_exp_minus_1)
  show ?thesis
    unfolding m by (rule bit_word_eqI) (auto simp: bit_simps)
qed

lemma si5347_low_byte: "ucast (a AND 0xFF) = (1 :: u8) \<longleftrightarrow> a AND 0xFF = 1" for a :: u32
proof -
  have m: "(0xFF :: u32) = mask 8" by (simp add: mask_eq_exp_minus_1)
  have "ucast (ucast (a AND 0xFF) :: u8) = a AND 0xFF"
    unfolding m by (rule bit_word_eqI) (auto simp: bit_simps)
  then show ?thesis by (metis ucast_1 unsigned_1)
qed

lemma si5347_loop_chip:
  assumes "list_all si5347_entry_ok rs"
  shows "snd (si5347_chip (si5347_loop i page rs) (page, regs)) = si5347_direct rs regs"
  using assms
proof (induction rs arbitrary: i page regs)
  case Nil
  show ?case by (simp add: si5347_direct_def)
next
  case (Cons e rs)
  obtain a v where e: "e = (a, v)" by fastforce
  let ?p = "ucast (drop_bit 8 a) :: u8"
  let ?r = "ucast (a AND 0x00FF) :: u8"
  have "?r \<noteq> 1" using Cons.prems e si5347_low_byte [of a] by (simp add: si5347_entry_ok_def)
  then have "si5347_chip (si5347_loop i page (e # rs)) (page, regs) =
      si5347_chip (si5347_loop (i + 1) ?p rs) (?p, regs(ucast a := v))"
    using si5347_join [of a] by (auto simp: e Let_def)
  moreover have "list_all si5347_entry_ok rs" using Cons.prems by simp
  moreover have "si5347_direct (e # rs) regs = si5347_direct rs (regs(ucast a := v))"
    by (simp add: e si5347_direct_def)
  ultimately show ?case
    by (simp only: Cons.IH)
qed

lemmas si5347_table_defs = si5347_revd_registers_def si5347_registers_0_def si5347_registers_1_def si5347_registers_2_def si5347_registers_3_def si5347_registers_4_def

lemma si5347_parts_ok:
  "list_all si5347_entry_ok si5347_registers_0"
  "list_all si5347_entry_ok si5347_registers_1"
  "list_all si5347_entry_ok si5347_registers_2"
  "list_all si5347_entry_ok si5347_registers_3"
  "list_all si5347_entry_ok si5347_registers_4"
  by (simp_all add: si5347_entry_ok_def si5347_registers_0_def si5347_registers_1_def si5347_registers_2_def si5347_registers_3_def si5347_registers_4_def)

lemma si5347_table_ok: "list_all si5347_entry_ok si5347_revd_registers"
  by (simp add: si5347_revd_registers_def si5347_parts_ok)

lemma si5347_parts_length:
  "length si5347_registers_0 = 139"
  "length si5347_registers_1 = 148"
  "length si5347_registers_2 = 148"
  "length si5347_registers_3 = 148"
  "length si5347_registers_4 = 146"
  by (simp_all add: si5347_registers_0_def si5347_registers_1_def si5347_registers_2_def si5347_registers_3_def si5347_registers_4_def)

text \<open>
  C33. Programming the clock chip of the former firmware: whatever page and registers the chip starts with,
  after all writes it holds exactly what storing the 729 table entries in order at their full 16-bit
  addresses gives, although the routine sends the page only when it changes; no entry has an address
  the paging scheme could not reach. The three entries of the preamble are followed by the pause of
  300 ms, and by no other entry before it.
\<close>

theorem write_si5347_programs_table:
  "snd (si5347_chip write_si5347 (page, regs)) = si5347_direct si5347_revd_registers regs
   \<and> length si5347_revd_registers = 729
   \<and> write_si5347 = port_expander_op I2C_PORTEXP1_ADDR 0x02 # Wr SI5347_ADDR [0x01, 0x00]
        # [Wr SI5347_ADDR [0x01, 0x0B], Usleep 1000, Wr SI5347_ADDR [0x24, 0xC0], Usleep 1000,
           Wr SI5347_ADDR [0x25, 0x00], Usleep 1000, Wr SI5347_ADDR [0x4E, 0x1A], Usleep 300000, Usleep 1000]
        @ si5347_loop 3 0x0B (drop 3 si5347_revd_registers)"
proof (intro conjI)
  have "snd (si5347_chip write_si5347 (page, regs)) = snd (si5347_chip (si5347_loop 0 0 si5347_revd_registers) (0, regs))"
    by (simp add: write_si5347_def port_expander_op_def)
  then show "snd (si5347_chip write_si5347 (page, regs)) = si5347_direct si5347_revd_registers regs"
    by (simp add: si5347_loop_chip [OF si5347_table_ok])
  show "length si5347_revd_registers = 729"
    by (simp add: si5347_revd_registers_def si5347_parts_length)
  have "si5347_revd_registers = [(0x0B24, 0xC0), (0x0B25, 0x00), (0x0B4E, 0x1A)] @ drop 3 si5347_revd_registers"
    by (simp add: si5347_revd_registers_def si5347_registers_0_def)
  then obtain rs where rs: "si5347_revd_registers = (0x0B24, 0xC0) # (0x0B25, 0x00) # (0x0B4E, 0x1A) # rs"
    by (metis append_Cons append_Nil)
  show "write_si5347 = port_expander_op I2C_PORTEXP1_ADDR 0x02 # Wr SI5347_ADDR [0x01, 0x00]
        # [Wr SI5347_ADDR [0x01, 0x0B], Usleep 1000, Wr SI5347_ADDR [0x24, 0xC0], Usleep 1000,
           Wr SI5347_ADDR [0x25, 0x00], Usleep 1000, Wr SI5347_ADDR [0x4E, 0x1A], Usleep 300000, Usleep 1000]
        @ si5347_loop 3 0x0B (drop 3 si5347_revd_registers)"
    unfolding write_si5347_def rs by (simp add: Let_def numeral_3_eq_3)
qed

end
