(* ===== verification/Old_I2c.thy ===== *)
theory Old_I2c
  imports Old_Si5347
begin

text \<open>
  The other I2C devices of the former firmware, \<open>src/sw_old/src/i2c_devices.c\<close>: the board EEPROM with the
  network settings and the MAC address, the port expanders that select a device, the oscillator and the
  LTC2991 monitors.

  \<open>XIicPs_MasterSendPolled\<close> and \<open>XIicPs_MasterRecvPolled\<close> are the parameters \<open>send\<close> and \<open>recv\<close> on a bus state,
  with a status that is 0 on success; waiting for the bus is part of them. A routine that ignores the status returns only the
  bus. The floating-point scaling of a reading is the parameter \<open>conv\<close>, applied to the raw integer.
\<close>

section \<open>Transfers\<close>

type_synonym 'b i2c_send = "'b \<Rightarrow> u8 \<Rightarrow> bytes \<Rightarrow> int \<times> 'b"
type_synonym 'b i2c_recv = "'b \<Rightarrow> u8 \<Rightarrow> nat \<Rightarrow> int \<times> bytes \<times> 'b"

text \<open>\<open>init_i2c\<close>, for the base address found in the configuration table; without one a null pointer is read (\<open>None\<close>).\<close>

definition init_i2c_old :: "u32 option \<Rightarrow> i2c_init list option" where
  "init_i2c_old lookup0 = map_option (\<lambda>base. [Cfg_initialize 0 base, Set_sclk 0 100000]) lookup0"

definition i2c_write :: "'b i2c_send \<Rightarrow> bytes \<Rightarrow> u8 \<Rightarrow> u8 \<Rightarrow> 'b \<Rightarrow> int \<times> 'b" where
  "i2c_write send buf len addr b = send b addr (take (unat len) buf)"

definition i2c_read :: "'b i2c_recv \<Rightarrow> u8 \<Rightarrow> u8 \<Rightarrow> 'b \<Rightarrow> int \<times> bytes \<times> 'b" where
  "i2c_read recv len addr b = recv b addr (unat len)"

definition i2c_set_port_expander :: "'b i2c_send \<Rightarrow> u32 \<Rightarrow> u32 \<Rightarrow> 'b \<Rightarrow> 'b" where
  "i2c_set_port_expander send addr port b = snd (send b (ucast addr) [ucast port])"

section \<open>Board EEPROM\<close>

abbreviation (input) IIC_EEPROM_ADDR :: u8 where "IIC_EEPROM_ADDR \<equiv> 0x50"
abbreviation (input) IIC_MAC_REG :: u8 where "IIC_MAC_REG \<equiv> 0xFA"

text \<open>The bytes a read delivers replace the first bytes of the caller's buffer.\<close>

definition i2c_get_mac_address :: "'b i2c_send \<Rightarrow> 'b i2c_recv \<Rightarrow> bytes \<Rightarrow> 'b \<Rightarrow> bytes \<times> 'b" where
  "i2c_get_mac_address send recv mac b =
     (let b1 = i2c_set_port_expander send I2C_PORTEXP0_ADDR 0x40 b;
          (_, b2) = i2c_write send [IIC_MAC_REG, 0, 0, 0, 0, 0] 1 IIC_EEPROM_ADDR b1;
          (_, d, b3) = i2c_read recv 6 IIC_EEPROM_ADDR b2
      in (buf_write mac 0 d, b3))"

definition i2c_eeprom_writeBytes :: "'b i2c_send \<Rightarrow> u8 \<Rightarrow> bytes \<Rightarrow> u8 \<Rightarrow> 'b \<Rightarrow> 'b option" where
  "i2c_eeprom_writeBytes send startAddr data len b =
     (let b1 = i2c_set_port_expander send I2C_PORTEXP0_ADDR 0x40 b
      in if length data < unat len then None
         else Some (snd (i2c_write send (startAddr # take (unat len) data) (len + 1) IIC_EEPROM_ADDR b1)))"

definition i2c_eeprom_readBytes ::
  "'b i2c_send \<Rightarrow> 'b i2c_recv \<Rightarrow> u8 \<Rightarrow> bytes \<Rightarrow> u8 \<Rightarrow> 'b \<Rightarrow> (bytes \<times> 'b) option" where
  "i2c_eeprom_readBytes send recv startAddr data len b =
     (let b1 = i2c_set_port_expander send I2C_PORTEXP0_ADDR 0x40 b;
          (_, b2) = i2c_write send [startAddr] 1 IIC_EEPROM_ADDR b1;
          (_, d, b3) = i2c_read recv len IIC_EEPROM_ADDR b2
      in if length data < unat len then None else Some (buf_write data 0 d, b3))"

text \<open>The buffer \<open>eeprom_dump\<close> prints.\<close>

definition eeprom_dump :: "'b i2c_send \<Rightarrow> 'b i2c_recv \<Rightarrow> 'b \<Rightarrow> (bytes \<times> 'b) option" where
  "eeprom_dump send recv b =
     i2c_eeprom_readBytes send recv 0 (replicate 128 0xFF @ [0]) 128 b"

section \<open>Oscillator\<close>

definition lmk61e2_values_old :: "u32 list" where
  "lmk61e2_values_old =
     [0x0010, 0x010B, 0x0233, 0x08B0, 0x0901, 0x1000, 0x1180, 0x1502,
      0x1600, 0x170F, 0x1900, 0x1A2E, 0x1B00, 0x1C00, 0x1DA9, 0x1E00,
      0x1F00, 0x20C8, 0x2103, 0x2224, 0x2327, 0x2422, 0x2502, 0x2600,
      0x2707, 0x2F00, 0x3000, 0x3110, 0x3200, 0x3300, 0x3400, 0x3500,
      0x3800, 0x4802]"

definition write_lmk61e2_old :: "i2c_op list" where
  "write_lmk61e2_old =
     port_expander_op I2C_PORTEXP1_ADDR 0x20 #
     map (\<lambda>regval. Wr 0x5A [ucast (drop_bit 8 (regval AND 0x00FF00)), ucast (regval AND 0xFF)]) lmk61e2_values_old"

section \<open>Temperature sensors\<close>

definition read_i2c_temp :: "'b i2c_recv \<Rightarrow> (u32 \<Rightarrow> 'v) \<Rightarrow> u8 \<Rightarrow> 'b \<Rightarrow> 'v \<times> 'b" where
  "read_i2c_temp recv conv128 addr b =
     (let (_, buf, b1) = recv b addr 2
      in (conv128 (push_bit 8 (ucast (buf ! 0)) OR ucast (buf ! 1)), b1))"

section \<open>LTC2991 monitors\<close>

definition i2c_configure_ltc2991 :: "i2c_op list" where
  "i2c_configure_ltc2991 =
     [port_expander_op I2C_PORTEXP1_ADDR 4,
      Wr 0x48 [0x06, 0x00, 0x11], Wr 0x49 [0x06, 0x11, 0x11], Wr 0x4A [0x06, 0x11, 0x11],
      Wr 0x48 [0x08, 0x10], Wr 0x49 [0x08, 0x10], Wr 0x4A [0x08, 0x10],
      Wr 0x48 [0x01, 0xF0], Wr 0x49 [0x01, 0xF0], Wr 0x4A [0x01, 0xF0]]"

text \<open>
  \<open>result\<close> is an \<open>s16\<close>: the status bit is masked off, the field moved up by one bit and the arithmetic
  shift back extends its sign.
\<close>

definition ltc2991_decode :: "u8 \<Rightarrow> u8 \<Rightarrow> u16" where
  "ltc2991_decode rx0 rx1 =
     signed_drop_bit 1 (push_bit 9 (ucast (rx0 AND 0x7F)) OR push_bit 1 (ucast rx1))"

definition i2c_ltc2991_voltage :: "'b i2c_send \<Rightarrow> 'b i2c_recv \<Rightarrow> u8 \<Rightarrow> u8 \<Rightarrow> 'b \<Rightarrow> u16 \<times> 'b" where
  "i2c_ltc2991_voltage send recv i2c_addr index b =
     (let (_, b1) = i2c_write send [0x0A + 2 * index] 1 i2c_addr b;
          (_, rxBuf, b2) = i2c_read recv 2 i2c_addr b1
      in (ltc2991_decode (rxBuf ! 0) (rxBuf ! 1), b2))"

text \<open>
  The 21 readings, in the order of their functions, with chip, channel and scaling: \<open>Temp\<close> is
  \<open>(0.650 - conv_volts_se * v) / 0.002\<close>, \<open>Volts k\<close> is \<open>k * conv_volts_se * v\<close> and \<open>Amps\<close> is
  \<open>(conv_volts_diff / conv_r_sense) * v\<close>.
\<close>

datatype ltc2991_reading =
    reg1_temp | reg2_temp | reg3_temp | vcc_vin | vcc_vin_current
  | vcc_mgt_2v5 | vcc_mgt_2v5_current | vcc_2v5 | vcc_2v5_current
  | vcc_mgt_1v2 | vcc_mgt_1v2_current | vcc_mgt_0v9 | vcc_mgt_0v9_current
  | vcc_1v2_ddr | vcc_1v2_ddr_current | vcc_1v8 | vcc_1v8_current
  | vcc_3v3 | vcc_3v3_current | vcc_0v85 | vcc_0v85_current

datatype ltc2991_scale = Temp | Volts nat | Amps

fun ltc2991_channel :: "ltc2991_reading \<Rightarrow> u8 \<times> u8 \<times> ltc2991_scale" where
  "ltc2991_channel reg1_temp = (0x48, 0, Temp)"
| "ltc2991_channel reg2_temp = (0x48, 1, Temp)"
| "ltc2991_channel reg3_temp = (0x48, 2, Temp)"
| "ltc2991_channel vcc_vin = (0x48, 6, Volts 2)"
| "ltc2991_channel vcc_vin_current = (0x48, 7, Amps)"
| "ltc2991_channel vcc_mgt_2v5 = (0x4A, 0, Volts 1)"
| "ltc2991_channel vcc_mgt_2v5_current = (0x4A, 1, Amps)"
| "ltc2991_channel vcc_2v5 = (0x4A, 2, Volts 1)"
| "ltc2991_channel vcc_2v5_current = (0x4A, 3, Amps)"
| "ltc2991_channel vcc_mgt_1v2 = (0x4A, 4, Volts 1)"
| "ltc2991_channel vcc_mgt_1v2_current = (0x4A, 5, Amps)"
| "ltc2991_channel vcc_mgt_0v9 = (0x4A, 6, Volts 1)"
| "ltc2991_channel vcc_mgt_0v9_current = (0x4A, 7, Amps)"
| "ltc2991_channel vcc_1v2_ddr = (0x49, 0, Volts 1)"
| "ltc2991_channel vcc_1v2_ddr_current = (0x49, 1, Amps)"
| "ltc2991_channel vcc_1v8 = (0x49, 2, Volts 1)"
| "ltc2991_channel vcc_1v8_current = (0x49, 3, Amps)"
| "ltc2991_channel vcc_3v3 = (0x49, 4, Volts 1)"
| "ltc2991_channel vcc_3v3_current = (0x49, 5, Amps)"
| "ltc2991_channel vcc_0v85 = (0x49, 6, Volts 1)"
| "ltc2991_channel vcc_0v85_current = (0x49, 7, Amps)"

definition i2c_ltc2991 ::
  "'b i2c_send \<Rightarrow> 'b i2c_recv \<Rightarrow> (ltc2991_scale \<Rightarrow> int \<Rightarrow> 'v) \<Rightarrow> ltc2991_reading \<Rightarrow> 'b \<Rightarrow> 'v \<times> 'b" where
  "i2c_ltc2991 send recv conv r b =
     (let (addr, index, scale) = ltc2991_channel r;
          (v, b1) = i2c_ltc2991_voltage send recv addr index b
      in (conv scale (sint v), b1))"

section \<open>Monitor readings\<close>

text \<open>
  The measurement mode of a channel after the configuration: registers 6 and 7 of a chip hold a bit for
  every pair of channels, set when the second channel of the pair measures the difference
  (comment in \<open>i2c_configure_ltc2991\<close>).
\<close>

fun ltc2991_regs :: "i2c_op list \<Rightarrow> u8 \<Rightarrow> u8 \<times> u8 \<Rightarrow> u8 \<times> u8" where
  "ltc2991_regs [] chip m = m"
| "ltc2991_regs (Wr a [r, x, y] # es) chip m =
     ltc2991_regs es chip (if a = chip \<and> r = 6 then (x, y) else m)"
| "ltc2991_regs (_ # es) chip m = ltc2991_regs es chip m"

definition ltc2991_differential :: "u8 \<times> u8 \<Rightarrow> u8 \<Rightarrow> bool" where
  "ltc2991_differential m index \<longleftrightarrow>
     index = 1 \<and> bit (fst m) 0 \<or> index = 3 \<and> bit (fst m) 4
     \<or> index = 5 \<and> bit (snd m) 0 \<or> index = 7 \<and> bit (snd m) 4"

text \<open>The signed value of the 15 bits behind the status bit of a channel register.\<close>

definition ltc2991_value :: "u16 \<Rightarrow> int" where
  "ltc2991_value w = signed_take_bit 14 (uint w)"

lemma sint_shifted: "sint (signed_drop_bit 1 (push_bit 1 v)) = signed_take_bit 14 (uint v)" for v :: u16
proof (rule bit_eqI)
  fix n :: nat
  consider "n = 14" | "n < 14" | "15 \<le> n" by linarith
  then show "bit (sint (signed_drop_bit 1 (push_bit 1 v))) n \<longleftrightarrow> bit (signed_take_bit 14 (uint v)) n"
    by cases (auto simp only: bit_simps min_def, auto)
qed

lemma ltc2991_decode_value:
  "sint (ltc2991_decode (ucast (drop_bit 8 w)) (ucast w)) = ltc2991_value w"
proof -
  have m: "(0x7F :: u8) = mask 7" by (simp add: mask_eq_exp_minus_1)
  have shift: "push_bit 9 (ucast x) OR push_bit 1 (ucast y) = push_bit 1 (push_bit 8 (ucast x) OR ucast y :: u16)"
    for x y :: u8
    by (simp only: push_bit_or push_bit_push_bit) simp
  have field: "push_bit 8 (ucast (ucast (drop_bit 8 w) AND (mask 7 :: u8))) OR ucast (ucast w :: u8) = take_bit 15 w"
    by (rule bit_word_eqI) (auto simp: bit_simps)
  have "signed_take_bit 14 (uint (take_bit 15 w)) = signed_take_bit 14 (uint w)"
    by (simp add: unsigned_take_bit_eq signed_take_bit_take_bit)
  then show ?thesis
    unfolding ltc2991_decode_def ltc2991_value_def m shift field sint_shifted .
qed

text \<open>Pointing a chip at channel \<open>i\<close> and reading two bytes delivers the channel's register.\<close>

definition ltc2991_device :: "'b i2c_send \<Rightarrow> 'b i2c_recv \<Rightarrow> ('b \<Rightarrow> u8 \<Rightarrow> u8 \<Rightarrow> u16) \<Rightarrow> bool" where
  "ltc2991_device send recv chans \<longleftrightarrow>
     (\<forall>b a i. i < 8 \<longrightarrow> fst (snd (recv (snd (send b a [0x0A + 2 * i])) a 2)) = be16 (chans b a i))"

text \<open>
  Every reading of the LTC2991 monitors is the signed 15-bit value of its own channel register, scaled
  with its formula: no two readings share a channel, a current is read exactly where the configuration
  written before makes the chip measure a difference, and always from the channel behind that of its
  voltage.
\<close>

theorem ltc2991_readings:
  assumes "ltc2991_device send recv chans" "ltc2991_channel r = (a, i, scale)"
  shows "fst (i2c_ltc2991 send recv conv r b) = conv scale (ltc2991_value (chans b a i))
         \<and> (\<forall>r'. fst (ltc2991_channel r') = a \<and> fst (snd (ltc2991_channel r')) = i \<longrightarrow> r' = r)
         \<and> (scale = Amps \<longleftrightarrow> ltc2991_differential (ltc2991_regs i2c_configure_ltc2991 a (0, 0)) i)
         \<and> (scale = Amps \<longrightarrow> (\<exists>r' k. ltc2991_channel r' = (a, i - 1, Volts k)))"
proof (intro conjI)
  have i: "i < 8" using assms(2) by (cases r) auto
  let ?b1 = "snd (send b a [0x0A + 2 * i])"
  have rd: "fst (snd (recv ?b1 a 2)) = be16 (chans b a i)"
    using assms(1) i unfolding ltc2991_device_def by blast
  then show "fst (i2c_ltc2991 send recv conv r b) = conv scale (ltc2991_value (chans b a i))"
    using ltc2991_decode_value [of "chans b a i"]
    by (simp add: i2c_ltc2991_def i2c_ltc2991_voltage_def i2c_write_def i2c_read_def assms(2) Let_def
        case_prod_beta be16_bytes)
  show "\<forall>r'. fst (ltc2991_channel r') = a \<and> fst (snd (ltc2991_channel r')) = i \<longrightarrow> r' = r"
  proof (intro allI impI)
    fix r' assume "fst (ltc2991_channel r') = a \<and> fst (snd (ltc2991_channel r')) = i"
    with assms(2) show "r' = r" by (cases r; cases r') auto
  qed
  show "scale = Amps \<longleftrightarrow> ltc2991_differential (ltc2991_regs i2c_configure_ltc2991 a (0, 0)) i"
    using assms(2)
    by (cases r) (auto simp: ltc2991_differential_def i2c_configure_ltc2991_def port_expander_op_def)
  show "scale = Amps \<longrightarrow> (\<exists>r' k. ltc2991_channel r' = (a, i - 1, Volts k))"
  proof
    assume "scale = Amps"
    with assms(2) have "(a, i - 1, Volts (if a = 0x48 then 2 else 1)) \<in> range ltc2991_channel"
      using rangeI [of ltc2991_channel vcc_vin] rangeI [of ltc2991_channel vcc_mgt_2v5] rangeI [of ltc2991_channel vcc_2v5]
        rangeI [of ltc2991_channel vcc_mgt_1v2] rangeI [of ltc2991_channel vcc_mgt_0v9] rangeI [of ltc2991_channel vcc_1v2_ddr]
        rangeI [of ltc2991_channel vcc_1v8] rangeI [of ltc2991_channel vcc_3v3] rangeI [of ltc2991_channel vcc_0v85]
      by (cases r) auto
    then show "\<exists>r' k. ltc2991_channel r' = (a, i - 1, Volts k)" by (metis rangeE)
  qed
qed

text \<open>A bus on which every chip answers with the number of the register it was pointed at.\<close>

definition demo_ltc_send :: "u8 i2c_send" where
  "demo_ltc_send b a d = (0, case d of [] \<Rightarrow> b | r # _ \<Rightarrow> r)"

definition demo_ltc_recv :: "u8 i2c_recv" where
  "demo_ltc_recv b a n = (0, be16 (ucast b), b)"

theorem ltc2991_readings_witness:
  "fst (i2c_ltc2991 demo_ltc_send demo_ltc_recv (\<lambda>s v. v) vcc_3v3_current 0) = 20"
proof -
  have "ltc2991_device demo_ltc_send demo_ltc_recv (\<lambda>b a i. ucast (0x0A + 2 * i))"
    by (simp add: ltc2991_device_def demo_ltc_send_def demo_ltc_recv_def)
  from ltc2991_readings [OF this ltc2991_channel.simps(19), of "\<lambda>s v. v" 0] show ?thesis
    by (simp add: ltc2991_value_def signed_take_bit_int_eq_self)
qed

section \<open>EEPROM contract\<close>

text \<open>
  The board EEPROM (a 24AA025E48) as its data sheet describes it, when selected on the port expander. A write of an
  address and four bytes inside a 16-byte page of the lower half is stored; the part is then in a write cycle of
  at most 5 ms, in which it answers nothing. Outside a write cycle, a write of an address alone sets the pointer, and a
  read delivers the bytes from the pointer on. The upper half is protected, and nothing is said of writes there or during a write
  cycle. \<open>usleep\<close> lets the given number of microseconds pass.
\<close>

definition eeprom_device ::
  "'b i2c_send \<Rightarrow> 'b i2c_recv \<Rightarrow> (nat \<Rightarrow> 'b \<Rightarrow> 'b) \<Rightarrow> ('b \<Rightarrow> u8 \<Rightarrow> u8) \<Rightarrow> ('b \<Rightarrow> u8) \<Rightarrow> ('b \<Rightarrow> bool) \<Rightarrow> bool" where
  "eeprom_device send recv usleep mem ptr busy \<longleftrightarrow>
     (\<forall>b p. mem (snd (send b 0x70 [p])) = mem b \<and> (busy (snd (send b 0x70 [p])) \<longrightarrow> busy b))
     \<and> (\<forall>b a d0 d1 d2 d3. \<not> busy b \<longrightarrow> a < 0x80 \<longrightarrow> unat a mod 16 + 4 \<le> 16 \<longrightarrow>
          mem (snd (send b IIC_EEPROM_ADDR [a, d0, d1, d2, d3])) =
            (mem b)(a := d0, a + 1 := d1, a + 2 := d2, a + 3 := d3))
     \<and> (\<forall>b a. \<not> busy b \<longrightarrow>
          mem (snd (send b IIC_EEPROM_ADDR [a])) = mem b \<and> ptr (snd (send b IIC_EEPROM_ADDR [a])) = a
          \<and> \<not> busy (snd (send b IIC_EEPROM_ADDR [a])))
     \<and> (\<forall>b. \<not> busy b \<longrightarrow>
          fst (snd (recv b IIC_EEPROM_ADDR 4)) =
              [mem b (ptr b), mem b (ptr b + 1), mem b (ptr b + 2), mem b (ptr b + 3)]
          \<and> mem (snd (snd (recv b IIC_EEPROM_ADDR 4))) = mem b \<and> \<not> busy (snd (snd (recv b IIC_EEPROM_ADDR 4))))
     \<and> (\<forall>n b. 5000 \<le> n \<longrightarrow> mem (usleep n b) = mem b \<and> \<not> busy (usleep n b))"

lemma eeprom_write4:
  assumes "eeprom_device send recv usleep mem ptr busy" "unat a mod 16 + 4 \<le> 16" "a < 0x80" "\<not> busy b"
  shows "\<exists>b'. i2c_eeprom_writeBytes send a [d0, d1, d2, d3] 4 b = Some b'
           \<and> mem b' = (mem b)(a := d0, a + 1 := d1, a + 2 := d2, a + 3 := d3)"
proof -
  let ?b = "snd (send b 0x70 [0x40])"
  have "mem ?b = mem b" "\<not> busy ?b"
    using assms(1,4) unfolding eeprom_device_def by blast+
  moreover from this(2) have "mem (snd (send ?b IIC_EEPROM_ADDR [a, d0, d1, d2, d3])) =
      (mem ?b)(a := d0, a + 1 := d1, a + 2 := d2, a + 3 := d3)"
    using assms(1-3) unfolding eeprom_device_def by blast
  ultimately show ?thesis
    by (simp add: i2c_eeprom_writeBytes_def i2c_set_port_expander_def i2c_write_def Let_def)
qed

lemma eeprom_rest: "eeprom_device send recv usleep mem ptr busy \<Longrightarrow> 5000 \<le> n \<Longrightarrow> mem (usleep n b) = mem b \<and> \<not> busy (usleep n b)"
  unfolding eeprom_device_def by blast

lemma eeprom_read4:
  assumes "eeprom_device send recv usleep mem ptr busy" "length data = 4" "\<not> busy b"
  shows "\<exists>b'. i2c_eeprom_readBytes send recv a data 4 b =
             Some ([mem b a, mem b (a + 1), mem b (a + 2), mem b (a + 3)], b') \<and> mem b' = mem b \<and> \<not> busy b'"
proof -
  let ?b1 = "snd (send b 0x70 [0x40])"
  let ?b2 = "snd (send ?b1 IIC_EEPROM_ADDR [a])"
  have 1: "mem ?b1 = mem b" "\<not> busy ?b1"
    using assms(1,3) unfolding eeprom_device_def by blast+
  then have 2: "mem ?b2 = mem b" "ptr ?b2 = a" "\<not> busy ?b2"
    using assms(1) unfolding eeprom_device_def by auto
  then have "fst (snd (recv ?b2 IIC_EEPROM_ADDR 4)) = [mem b a, mem b (a + 1), mem b (a + 2), mem b (a + 3)]"
    "mem (snd (snd (recv ?b2 IIC_EEPROM_ADDR 4))) = mem b" "\<not> busy (snd (snd (recv ?b2 IIC_EEPROM_ADDR 4)))"
    using assms(1) unfolding eeprom_device_def by auto
  with assms(2) show ?thesis
    by (simp add: i2c_eeprom_readBytes_def i2c_set_port_expander_def i2c_write_def i2c_read_def Let_def
        case_prod_beta buf_write_def)
qed

end
