(* ===== verification/Old_Status.thy ===== *)
theory Old_Status
  imports Complex_Main Old_Wvfm Old_I2c
begin

text \<open>
  The status thread of the former firmware, \<open>src/sw_old/src/psc_status_thread.c\<close>: once a second it collects
  temperatures, voltages and SFP readings into a \<open>SysHealthMsg\<close>, copies the structure into the message
  buffer, reverses the bytes of every word and writes the buffer to the client: 1032 bytes from a buffer of 1024, which
  gives \<open>None\<close>.

  Values in the structure are 32-bit words; how a scaled reading becomes the bits of a \<open>float\<close> is given by
  the parameters in \<open>float_ops\<close>. \<open>power\<close> and \<open>L11_to_float\<close> are on real numbers: on the values they get
  here, products of an 11-bit integer with a power of two between -16 and 15, \<open>float\<close> arithmetic is exact.
\<close>

section \<open>Number format of the power manager\<close>

text \<open>The loop of \<open>power\<close> and the inversion before it.\<close>

primrec power_loop :: "nat \<Rightarrow> real \<Rightarrow> real \<Rightarrow> real" where
  "power_loop 0 base result = result"
| "power_loop (Suc n) base result = power_loop n base (result * base)"

definition power_old :: "real \<Rightarrow> int \<Rightarrow> real" where
  "power_old base exponent =
     (let (base', exponent') = (if exponent < 0 then (1 / base, - exponent) else (base, exponent))
      in power_loop (nat exponent') base' 1)"

definition L11_to_float :: "int \<Rightarrow> real" where
  "L11_to_float input_val =
     (let exponent = drop_bit 11 input_val;
          mantissa = input_val AND 0x7ff;
          exponent' = (if 0x0F < exponent then (exponent OR 0xE0) - 256 else exponent);
          mantissa' = (if 0x03FF < mantissa then (mantissa OR 0xF800) - 65536 else mantissa)
      in of_int mantissa' * power_old 2 exponent')"

section \<open>The message\<close>

record SysHealthMsg =
  git_shasum :: u32
  dfe_temp :: "u32 list"
  afe_temp :: "u32 list"
  fpga_dietemp :: u32
  uptime :: u32
  rsvd :: u32
  vin_v :: u32
  vin_i :: u32
  v3_3_v :: u32
  v3_3_i :: u32
  v2_5_v :: u32
  v2_5_i :: u32
  v1_8_v :: u32
  v1_8_i :: u32
  v1_2ddr_v :: u32
  v1_2ddr_i :: u32
  v0_85_v :: u32
  v0_85_i :: u32
  v2_5mgt_v :: u32
  v2_5mgt_i :: u32
  v1_2mgt_v :: u32
  v1_2mgt_i :: u32
  v0_9mgt_v :: u32
  v0_9mgt_i :: u32
  reg_temp :: "u32 list"
  rsvd2 :: "u32 list"
  sfp_temp :: "u32 list"
  sfp_vcc :: "u32 list"
  sfp_txbias :: "u32 list"
  sfp_txpwr :: "u32 list"
  sfp_rxpwr :: "u32 list"
  rsvd3 :: "u32 list"
  pwrmgmt_temp :: u32
  rsvd4 :: "u32 list"
  therm_temp :: "u32 list"

text \<open>The structure in memory, word by word.\<close>

definition sys_health_words :: "SysHealthMsg \<Rightarrow> u32 list" where
  "sys_health_words p =
     [git_shasum p] @ dfe_temp p @ afe_temp p @ [fpga_dietemp p, uptime p, rsvd p,
      vin_v p, vin_i p, v3_3_v p, v3_3_i p, v2_5_v p, v2_5_i p, v1_8_v p, v1_8_i p,
      v1_2ddr_v p, v1_2ddr_i p, v0_85_v p, v0_85_i p, v2_5mgt_v p, v2_5mgt_i p,
      v1_2mgt_v p, v1_2mgt_i p, v0_9mgt_v p, v0_9mgt_i p] @ reg_temp p @ rsvd2 p
     @ sfp_temp p @ sfp_vcc p @ sfp_txbias p @ sfp_txpwr p @ sfp_rxpwr p @ rsvd3 p
     @ [pwrmgmt_temp p] @ rsvd4 p @ therm_temp p"

definition sys_health_wf :: "SysHealthMsg \<Rightarrow> bool" where
  "sys_health_wf p \<longleftrightarrow>
     length (dfe_temp p) = 4 \<and> length (afe_temp p) = 2 \<and> length (reg_temp p) = 3 \<and> length (rsvd2 p) = 4
     \<and> length (sfp_temp p) = 6 \<and> length (sfp_vcc p) = 6 \<and> length (sfp_txbias p) = 6
     \<and> length (sfp_txpwr p) = 6 \<and> length (sfp_rxpwr p) = 6 \<and> length (rsvd3 p) = 5
     \<and> length (rsvd4 p) = 10 \<and> length (therm_temp p) = 6"

text \<open>Bits of the float: of a raw value divided by a constant, of a monitor reading, of a real number.\<close>

record float_ops =
  f_quot :: "u32 \<Rightarrow> nat \<Rightarrow> u32"
  f_ltc :: "ltc2991_scale \<Rightarrow> int \<Rightarrow> u32"
  f_real :: "real \<Rightarrow> u32"

section \<open>Collecting the values\<close>

definition i2c_ltc2977_stats ::
  "'b i2c_send \<Rightarrow> 'b i2c_recv \<Rightarrow> float_ops \<Rightarrow> SysHealthMsg \<times> 'b \<Rightarrow> SysHealthMsg \<times> 'b" where
  "i2c_ltc2977_stats send recv fl st =
     (let (p, b) = st;
          b1 = i2c_set_port_expander send I2C_PORTEXP0_ADDR 0 b;
          b2 = i2c_set_port_expander send I2C_PORTEXP1_ADDR 8 b1;
          (_, b3) = send b2 0x5C [0x8D];
          (_, rxBuf, b4) = recv b3 0x5C 2;
          res = push_bit 8 (ucast (rxBuf ! 1)) OR ucast (rxBuf ! 0) :: u32
      in (p\<lparr>pwrmgmt_temp := f_real fl (L11_to_float (uint res))\<rparr>, b4))"

definition sfp_word :: "bytes \<Rightarrow> nat \<Rightarrow> u32" where
  "sfp_word rxBuf i = push_bit 8 (ucast (rxBuf ! i)) OR ucast (rxBuf ! (i + 1))"

definition i2c_sfp_get_stats ::
  "'b i2c_send \<Rightarrow> 'b i2c_recv \<Rightarrow> float_ops \<Rightarrow> nat \<Rightarrow> SysHealthMsg \<times> 'b \<Rightarrow> SysHealthMsg \<times> 'b" where
  "i2c_sfp_get_stats send recv fl sfp_slot st =
     (let (p, b) = st;
          b1 = i2c_set_port_expander send I2C_PORTEXP0_ADDR (push_bit sfp_slot 1) b;
          b2 = i2c_set_port_expander send I2C_PORTEXP1_ADDR 0 b1;
          (_, b3) = i2c_write send [96, 0, 0] 1 0x51 b2;
          (status, rxBuf, b4) = i2c_read recv 10 0x51 b3
      in if status \<noteq> 0
         then (p\<lparr>sfp_temp := (sfp_temp p)[sfp_slot := 0], sfp_vcc := (sfp_vcc p)[sfp_slot := 0],
                 sfp_txbias := (sfp_txbias p)[sfp_slot := 0], sfp_txpwr := (sfp_txpwr p)[sfp_slot := 0],
                 sfp_rxpwr := (sfp_rxpwr p)[sfp_slot := 0]\<rparr>, b4)
         else (p\<lparr>sfp_temp := (sfp_temp p)[sfp_slot := f_quot fl (sfp_word rxBuf 0) 256],
                 sfp_vcc := (sfp_vcc p)[sfp_slot := f_quot fl (sfp_word rxBuf 2) 10000],
                 sfp_txbias := (sfp_txbias p)[sfp_slot := f_quot fl (sfp_word rxBuf 4) 2000],
                 sfp_txpwr := (sfp_txpwr p)[sfp_slot := f_quot fl (sfp_word rxBuf 6) 10000],
                 sfp_rxpwr := (sfp_rxpwr p)[sfp_slot := f_quot fl (sfp_word rxBuf 8) 10000]\<rparr>, b4))"

text \<open>The system monitor driver is the parameter \<open>sysmon\<close>: the temperature as float bits.\<close>

definition sysmon_read_stats :: "('b \<Rightarrow> u32 \<times> 'b) \<Rightarrow> SysHealthMsg \<times> 'b \<Rightarrow> SysHealthMsg \<times> 'b" where
  "sysmon_read_stats sysmon st =
     (let (p, b) = st; (t, b1) = sysmon b in (p\<lparr>fpga_dietemp := t\<rparr>, b1))"

text \<open>Consecutive readings on the bus, and the writes of the configuration.\<close>

fun readings :: "('a \<Rightarrow> 'b \<Rightarrow> 'v \<times> 'b) \<Rightarrow> 'a list \<Rightarrow> 'b \<Rightarrow> 'v list \<times> 'b" where
  "readings f [] b = ([], b)"
| "readings f (x # xs) b = (let (v, b1) = f x b; (vs, b2) = readings f xs b1 in (v # vs, b2))"

fun run_ops :: "'b i2c_send \<Rightarrow> i2c_op list \<Rightarrow> 'b \<Rightarrow> 'b" where
  "run_ops send [] b = b"
| "run_ops send (Wr a d # es) b = run_ops send es (snd (send b a d))"
| "run_ops send (Usleep n # es) b = run_ops send es b"

definition ltc_order :: "ltc2991_reading list" where
  "ltc_order =
     [vcc_vin, vcc_vin_current, vcc_3v3, vcc_3v3_current, vcc_2v5, vcc_2v5_current, vcc_1v8, vcc_1v8_current,
      vcc_1v2_ddr, vcc_1v2_ddr_current, vcc_0v85, vcc_0v85_current, vcc_mgt_2v5, vcc_mgt_2v5_current,
      vcc_mgt_1v2, vcc_mgt_1v2_current, vcc_mgt_0v9, vcc_mgt_0v9_current, reg1_temp, reg2_temp, reg3_temp]"

text \<open>The values \<open>i2c_get_ltc2991\<close> prints.\<close>

definition i2c_get_ltc2991 ::
  "'b i2c_send \<Rightarrow> 'b i2c_recv \<Rightarrow> (ltc2991_scale \<Rightarrow> int \<Rightarrow> 'v) \<Rightarrow> 'b \<Rightarrow> 'v list \<times> 'b" where
  "i2c_get_ltc2991 send recv conv b =
     readings (i2c_ltc2991 send recv conv)
       [vcc_vin, vcc_vin_current, vcc_3v3, vcc_3v3_current, vcc_2v5, vcc_2v5_current, vcc_1v8, vcc_1v8_current,
        vcc_0v85, vcc_0v85_current, vcc_mgt_2v5, vcc_mgt_2v5_current, vcc_mgt_1v2, vcc_mgt_1v2_current,
        vcc_mgt_0v9, vcc_mgt_0v9_current, vcc_1v2_ddr, vcc_1v2_ddr_current, reg1_temp, reg2_temp, reg3_temp] b"

text \<open>Everything \<open>ReadSysInfo\<close> puts into its local structure, whose other fields keep what the stack held.\<close>

definition collect_syshealth ::
  "'b i2c_send \<Rightarrow> 'b i2c_recv \<Rightarrow> float_ops \<Rightarrow> ('b \<Rightarrow> u32 \<times> 'b) \<Rightarrow> u32 \<Rightarrow> u32 \<Rightarrow> SysHealthMsg \<Rightarrow> 'b \<Rightarrow> SysHealthMsg \<times> 'b" where
  "collect_syshealth send recv fl sysmon gitreg UptimeCounter stack b =
     (let temp = read_i2c_temp recv (\<lambda>t. f_quot fl t 128);
          b1 = i2c_set_port_expander send I2C_PORTEXP1_ADDR 1 b;
          (dfe, b2) = readings temp [0x48, 0x49, 0x4A, 0x4B] b1;
          b3 = i2c_set_port_expander send I2C_PORTEXP1_ADDR 0x40 b2;
          (afe, b4) = readings temp [0x48, 0x4A] b3;
          b5 = run_ops send i2c_configure_ltc2991 (i2c_set_port_expander send I2C_PORTEXP1_ADDR 4 b4);
          (v, b6) = readings (i2c_ltc2991 send recv (f_ltc fl)) ltc_order b5;
          p1 = stack\<lparr>git_shasum := gitreg, dfe_temp := dfe, afe_temp := afe,
                     vin_v := v ! 0, vin_i := v ! 1, v3_3_v := v ! 2, v3_3_i := v ! 3, v2_5_v := v ! 4, v2_5_i := v ! 5,
                     v1_8_v := v ! 6, v1_8_i := v ! 7, v1_2ddr_v := v ! 8, v1_2ddr_i := v ! 9,
                     v0_85_v := v ! 10, v0_85_i := v ! 11, v2_5mgt_v := v ! 12, v2_5mgt_i := v ! 13,
                     v1_2mgt_v := v ! 14, v1_2mgt_i := v ! 15, v0_9mgt_v := v ! 16, v0_9mgt_i := v ! 17,
                     reg_temp := [v ! 18, v ! 19, v ! 20]\<rparr>;
          st2 = fold (i2c_sfp_get_stats send recv fl) [0, 1, 2, 3, 4, 5] (p1, b6);
          st3 = i2c_ltc2977_stats send recv fl st2;
          (p4, b7) = sysmon_read_stats sysmon st3
      in (p4\<lparr>uptime := UptimeCounter\<rparr>, b7))"

abbreviation (input) MSGID32LEN :: nat where "MSGID32LEN \<equiv> 1024"

definition ReadSysInfo ::
  "'b i2c_send \<Rightarrow> 'b i2c_recv \<Rightarrow> float_ops \<Rightarrow> ('b \<Rightarrow> u32 \<times> 'b) \<Rightarrow> u32 \<Rightarrow> u32 \<Rightarrow> SysHealthMsg \<Rightarrow> bytes \<Rightarrow> 'b \<Rightarrow>
     (bytes \<times> 'b) option" where
  "ReadSysInfo send recv fl sysmon gitreg UptimeCounter stack msg b =
     (let (syshealth, b1) = collect_syshealth send recv fl sysmon gitreg UptimeCounter stack b;
          msg1 = buf_write msg 0 [0x50, 0x53, 0, 32];
          msg2 = buf_write msg1 4 (put32 (htonl (of_nat MSGID32LEN)));
          image = concat (map put32 (sys_health_words syshealth))
      in if length msg < MSGHDRLEN + length image then None
         else Some (buf_write msg2 MSGHDRLEN image, b1))"

definition Host2NetworkConvStatus :: "bytes \<Rightarrow> nat \<Rightarrow> bytes option" where
  "Host2NetworkConvStatus inbuf len = conv_loop inbuf 8 len"

definition status_round ::
  "'b i2c_send \<Rightarrow> 'b i2c_recv \<Rightarrow> float_ops \<Rightarrow> ('b \<Rightarrow> u32 \<times> 'b) \<Rightarrow> u32 \<Rightarrow> u32 \<Rightarrow> SysHealthMsg \<Rightarrow>
     ('w \<Rightarrow> int \<Rightarrow> bytes \<Rightarrow> int \<times> 'w) \<Rightarrow> int \<Rightarrow> bytes \<Rightarrow> 'b \<Rightarrow> 'w \<Rightarrow> (bool \<times> bytes \<times> 'b \<times> 'w) option" where
  "status_round send recv fl sysmon gitreg UptimeCounter stack sock_write clientfd mem b w =
     (case ReadSysInfo send recv fl sysmon gitreg UptimeCounter stack mem b of
        None \<Rightarrow> None
      | Some (mem1, b1) \<Rightarrow>
          (case Host2NetworkConvStatus mem1 (MSGID32LEN + MSGHDRLEN) of
             None \<Rightarrow> None
           | Some mem2 \<Rightarrow>
               if length mem2 < MSGID32LEN + MSGHDRLEN then None
               else let (n, w1) = sock_write w clientfd (take (MSGID32LEN + MSGHDRLEN) mem2)
                    in Some (n < 0, mem2, b1, w1)))"

definition psc_status_setup :: "int \<Rightarrow> sock_call list" where
  "psc_status_setup sockfd = listen_on 600 sockfd"

text \<open>
  \<open>k\<close> steps of the thread, on the message buffer and the bus. \<open>env\<close> gives what a round finds elsewhere: the
  checksum register, the uptime counter and the contents of the stack.
\<close>

definition psc_status_thread ::
  "nat \<Rightarrow> 'b i2c_send \<Rightarrow> 'b i2c_recv \<Rightarrow> float_ops \<Rightarrow> ('b \<Rightarrow> u32 \<times> 'b) \<Rightarrow> ('b \<Rightarrow> u32 \<times> u32 \<times> SysHealthMsg) \<Rightarrow>
     ('w \<Rightarrow> int \<times> 'w) \<Rightarrow> ('w \<Rightarrow> int \<Rightarrow> 'w) \<Rightarrow> ('w \<Rightarrow> int \<Rightarrow> bytes \<Rightarrow> int \<times> 'w) \<Rightarrow>
     int option \<Rightarrow> bytes \<times> 'b \<Rightarrow> 'w \<Rightarrow> (int option \<times> (bytes \<times> 'b) \<times> 'w) option" where
  "psc_status_thread k send recv fl sysmon env sock_accept sock_close sock_write =
     serve k sock_accept sock_close
       (\<lambda>s (mem, b) w.
          let (gitreg, UptimeCounter, stack) = env b
          in map_option (\<lambda>(failed, mem', b', w'). (failed, (mem', b'), w'))
               (status_round send recv fl sysmon gitreg UptimeCounter stack sock_write s mem b w))"

section \<open>The power manager's numbers\<close>

lemma power_loop_eq: "power_loop n base result = result * base ^ n"
  by (induction n arbitrary: result) simp_all

lemma power_old_eq: "power_old base exponent = base powi exponent"
  by (simp add: power_old_def power_loop_eq power_int_def divide_inverse)

lemma or_above:
  fixes x :: int
  assumes "0 \<le> x" "x < 2 ^ k"
  shows "x OR push_bit k y = x + push_bit k y"
proof -
  have x: "take_bit k x = x" using assms by (simp add: take_bit_int_eq_self)
  have "take_bit k x AND push_bit k y = 0"
    by (rule bit_eqI) (auto simp: bit_simps)
  then have "x AND push_bit k y = 0" by (simp add: x)
  then show ?thesis by (simp add: disjunctive_add_eq_or)
qed

text \<open>Adding the ones above a field whose top bit is set, and subtracting their weight, extends its sign.\<close>

lemma sign_extend:
  fixes x :: int
  assumes "0 \<le> x" "x < 2 ^ Suc k"
  shows "signed_take_bit k x = (if 2 ^ k \<le> x then x - 2 ^ Suc k else x)"
proof (cases "2 ^ k \<le> x")
  case True
  then have "x div 2 ^ k = 1"
    using assms by (intro int_div_pos_eq [of _ _ _ "x - 2 ^ k"]) simp_all
  then have "bit x k" by (simp add: bit_iff_odd_drop_bit drop_bit_eq_div)
  then show ?thesis
    using True assms by (simp add: signed_take_bit_eq_take_bit_minus take_bit_int_eq_self)
next
  case False
  then show ?thesis using assms(1) by (simp add: signed_take_bit_int_eq_self)
qed

text \<open>
  C35. The power manager's readings are decoded as their format says: a 16-bit word is the signed number in
  its low 11 bits times two to the signed number in its high 5 bits.
\<close>

theorem L11_to_float_decodes:
  assumes "0 \<le> v" "v < 65536"
  shows "L11_to_float v = of_int (signed_take_bit 10 (take_bit 11 v)) * 2 powi signed_take_bit 4 (drop_bit 11 v)"
proof -
  let ?e = "drop_bit 11 v" and ?m = "v AND 0x7ff"
  have m: "?m = take_bit 11 v"
    by (simp add: take_bit_eq_mask mask_eq_exp_minus_1)
  have e_range: "0 \<le> ?e" "?e < 2 ^ Suc 4"
    using assms by (simp_all add: drop_bit_eq_div)
  have m_range: "0 \<le> ?m" "?m < 2 ^ Suc 10"
    unfolding m by (simp_all add: take_bit_eq_mod)
  have "(if 0x0F < ?e then (?e OR 0xE0) - 256 else ?e) = signed_take_bit 4 ?e"
    using or_above [of ?e 5 7] e_range sign_extend [OF e_range] by (auto simp: push_bit_eq_mult)
  moreover have "(if 0x03FF < ?m then (?m OR 0xF800) - 65536 else ?m) = signed_take_bit 10 ?m"
    using or_above [of ?m 11 31] m_range sign_extend [OF m_range] by (auto simp: push_bit_eq_mult)
  ultimately show ?thesis
    by (simp only: L11_to_float_def Let_def power_old_eq m)
qed

theorem L11_to_float_decodes_witness: "L11_to_float 0xEF20 = - 28"
proof -
  have "signed_take_bit 10 (take_bit 11 0xEF20) = (-224 :: int)" "signed_take_bit 4 (drop_bit 11 0xEF20) = (-3 :: int)"
    by code_simp+
  then show ?thesis
    using L11_to_float_decodes [of "0xEF20"] by (simp add: power_int_def power_divide)
qed

section \<open>The message\<close>

lemma length_readings [simp]: "length (fst (readings f xs b)) = length xs"
  by (induction xs arbitrary: b) (simp_all add: case_prod_beta Let_def)

text \<open>What the collecting routines keep: the sizes of the arrays, and the fields nobody fills.\<close>

definition keeps :: "SysHealthMsg \<Rightarrow> SysHealthMsg \<Rightarrow> bool" where
  "keeps p p' \<longleftrightarrow>
     (sys_health_wf p \<longrightarrow> sys_health_wf p')
     \<and> rsvd p' = rsvd p \<and> rsvd2 p' = rsvd2 p \<and> rsvd3 p' = rsvd3 p \<and> rsvd4 p' = rsvd4 p
     \<and> therm_temp p' = therm_temp p"

lemma keeps_refl [simp]: "keeps p p"
  by (simp add: keeps_def)

lemma keeps_trans [trans]: "keeps p q \<Longrightarrow> keeps q r \<Longrightarrow> keeps p r"
  by (simp add: keeps_def)

lemma keeps_ltc2977: "keeps (fst st) (fst (i2c_ltc2977_stats send recv fl st))"
  by (simp add: keeps_def i2c_ltc2977_stats_def sys_health_wf_def Let_def case_prod_beta)

lemma keeps_sysmon: "keeps (fst st) (fst (sysmon_read_stats sysmon st))"
  by (simp add: keeps_def sysmon_read_stats_def sys_health_wf_def Let_def case_prod_beta)

lemma keeps_sfp: "keeps (fst st) (fst (i2c_sfp_get_stats send recv fl slot st))"
  by (simp add: keeps_def i2c_sfp_get_stats_def sys_health_wf_def Let_def case_prod_beta)

lemma keeps_sfps: "keeps (fst st) (fst (fold (i2c_sfp_get_stats send recv fl) slots st))"
proof (induction slots arbitrary: st)
  case (Cons i slots)
  show ?case
    using keeps_trans [OF keeps_sfp [of st send recv fl i] Cons.IH] by simp
qed simp

lemma keeps_collect:
  "keeps stack (fst (collect_syshealth send recv fl sysmon gitreg UptimeCounter stack b))"
proof -
  have up: "keeps p q \<Longrightarrow> keeps p (q\<lparr>uptime := u\<rparr>)" for p q u
    by (simp add: keeps_def sys_health_wf_def)
  have all: "keeps p (fst (sysmon_read_stats sysmon (i2c_ltc2977_stats send recv fl
      (fold (i2c_sfp_get_stats send recv fl) slots (p, c)))))" for p c slots
    using keeps_trans [OF keeps_trans [OF keeps_sfps [of "(p, c)"] keeps_ltc2977] keeps_sysmon] by simp
  have fill: "keeps stack p" if "length d = 4" "length a = 2"
    "p = stack\<lparr>git_shasum := g, dfe_temp := d, afe_temp := a,
       vin_v := v0, vin_i := v1, v3_3_v := v2, v3_3_i := v3, v2_5_v := v4, v2_5_i := v5,
       v1_8_v := v6, v1_8_i := v7, v1_2ddr_v := v8, v1_2ddr_i := v9, v0_85_v := v10, v0_85_i := v11,
       v2_5mgt_v := v12, v2_5mgt_i := v13, v1_2mgt_v := v14, v1_2mgt_i := v15, v0_9mgt_v := v16,
       v0_9mgt_i := v17, reg_temp := [t1, t2, t3]\<rparr>"
    for p g d a v0 v1 v2 v3 v4 v5 v6 v7 v8 v9 v10 v11 v12 v13 v14 v15 v16 v17 t1 t2 t3
    using that by (simp add: keeps_def sys_health_wf_def)
  show ?thesis
    unfolding collect_syshealth_def Let_def case_prod_beta fst_conv
    by (intro up keeps_trans [OF fill all]) (simp_all only: length_readings, simp_all)
qed

lemma length_sys_health_words: "sys_health_wf p \<Longrightarrow> length (sys_health_words p) = 87"
  by (simp add: sys_health_wf_def sys_health_words_def)


















section \<open>A round\<close>




lemma status_round_defined:
  assumes "MSGID32LEN + MSGHDRLEN \<le> length mem" "sys_health_wf stack"
  shows "\<exists>failed mem' b' d. status_round send recv fl sysmon gitreg up stack sock_write s mem b w =
           Some (failed, mem', b', snd (sock_write w s d)) \<and> length mem' = length mem"
proof -
  have "sys_health_wf (fst (collect_syshealth send recv fl sysmon gitreg up stack b))"
    using keeps_collect [of stack send recv fl sysmon gitreg up b] assms(2) by (simp add: keeps_def)
  then have "length (concat (map put32 (sys_health_words (fst (collect_syshealth send recv fl sysmon gitreg up stack b))))) = 348"
    by (simp add: mem32.length_enc_list length_sys_health_words)
  then obtain m1 b1 where rd: "ReadSysInfo send recv fl sysmon gitreg up stack mem b = Some (m1, b1)" "length m1 = length mem"
    using assms(1) by (auto simp: ReadSysInfo_def Let_def case_prod_beta)
  then obtain m2 where "Host2NetworkConvStatus m1 (MSGID32LEN + MSGHDRLEN) = Some m2" "length m2 = length mem"
    using conv_loop_defined [of "MSGID32LEN + MSGHDRLEN" m1 8] assms by (auto simp: Host2NetworkConvStatus_def)
  with rd assms show ?thesis
    by (auto simp: status_round_def Let_def case_prod_beta)
qed

text \<open>
  With the eight bytes behind the message buffer taken as part of it, the former status thread runs for any
  number of steps and leaks no socket, as the waveform thread.
\<close>

theorem psc_status_thread_sockets:
  assumes "sock_contract sock_accept sock_close sock_write opn" "MSGID32LEN + MSGHDRLEN \<le> length mem"
    and "\<And>b. sys_health_wf (snd (snd (env b)))"
  shows "\<exists>conn mem' b' w'. psc_status_thread k send recv fl sysmon env sock_accept sock_close sock_write None (mem, b) w =
             Some (conn, (mem', b'), w')
           \<and> length mem' = length mem \<and> opn w' = opn w \<union> held_sock conn \<and> opn w \<inter> held_sock conn = {}"
proof -
  have keep: "opn (snd (sock_write w s d)) = opn w" "opn w \<subseteq> {0..}" for w s d
    using assms(1) by (auto simp: sock_contract_def)
  let ?round = "\<lambda>s (mem, b) w. let (gitreg, UptimeCounter, stack) = env b
      in map_option (\<lambda>(failed, mem', b', w'). (failed, (mem', b'), w'))
           (status_round send recv fl sysmon gitreg UptimeCounter stack sock_write s mem b w)"
  have "\<exists>conn st w'. serve k sock_accept sock_close ?round None (mem, b) w = Some (conn, st, w')
      \<and> length (fst st) = length mem \<and> opn w' = opn w \<union> held_sock conn \<and> opn w \<inter> held_sock conn = {}"
  proof (rule serve_sockets [OF assms(1), where P = "\<lambda>st. length (fst st) = length mem"])
    show "\<exists>failed st' w'. ?round s st w = Some (failed, st', w') \<and> length (fst st') = length mem \<and> opn w' = opn w"
      if "length (fst st) = length mem" for s st w
      using status_round_defined [of "fst st" "snd (snd (env (snd st)))" send recv fl sysmon "fst (env (snd st))"
          "fst (snd (env (snd st)))" sock_write s "snd st" w] that assms(2,3) keep(1)
      by (auto simp: case_prod_beta Let_def)
  qed (simp_all add: keep(2))
  then show ?thesis unfolding psc_status_thread_def by auto
qed




end
