(* ===== verification/Old_Menu.thy ===== *)
theory Old_Menu
  imports Console Old_Control Old_I2c Old_Wvfm
begin

text \<open>
  The console menu and the start-up of the former firmware, \<open>src/sw_old/src/menu_thread.c\<close> and
  \<open>src/sw_old/src/main.c\<close>: the menu actions, programming the network settings into the board EEPROM and
  reading them back at boot, the register accesses of \<open>main\<close> and the order in which the threads start.

  An action gets the characters typed so far and returns the state and the characters left, in the result
  type of \<open>Console\<close>. \<open>sscanf\<close> on the address line is the parameter \<open>scan4\<close>, \<open>scanf("%d")\<close> the parameter \<open>scand\<close>,
  which gets the old value of the variable, as it stays when nothing is scanned. The I2C bus and \<open>usleep\<close> on it are
  parameters. \<open>fuel\<close> bounds the keys read at the prompt.
\<close>

section \<open>State\<close>

record ip_t =
  ipaddr :: bytes
  ipmask :: bytes
  ipgw :: bytes

record 'b menu_state =
  ip_settings :: ip_t
  wvfm_debug :: bool
  menu_bus :: 'b
  menu_regs :: "mmio_old list"

section \<open>Actions\<close>

definition menu_get_ipaddr_old ::
  "(bytes \<Rightarrow> bytes \<Rightarrow> bytes) \<Rightarrow> bytes \<Rightarrow> bytes \<Rightarrow> bytes \<Rightarrow> (bytes \<times> bytes) uart" where
  "menu_get_ipaddr_old scan4 stack octets inp =
     (case ipaddr_loop 0 stack inp of
        Waiting \<Rightarrow> Waiting
      | Overrun \<Rightarrow> Overrun
      | Got (ip_addr, rest) \<Rightarrow>
          (case scan_octets scan4 ip_addr octets of None \<Rightarrow> Overrun | Some octets' \<Rightarrow> Got (octets', rest)))"

definition dump_eeprom :: "'b i2c_send \<Rightarrow> 'b i2c_recv \<Rightarrow> 'b menu_state \<Rightarrow> bytes \<Rightarrow> ('b menu_state \<times> bytes) uart" where
  "dump_eeprom send recv s inp =
     (case eeprom_dump send recv (menu_bus s) of
        None \<Rightarrow> Overrun
      | Some (rdBuf, b) \<Rightarrow> Got (s\<lparr>menu_bus := b\<rparr>, inp))"

definition dump_waveform :: "'b menu_state \<Rightarrow> bytes \<Rightarrow> ('b menu_state \<times> bytes) uart" where
  "dump_waveform s inp = Got (s\<lparr>wvfm_debug := \<not> wvfm_debug s\<rparr>, inp)"

definition reset_artix_fiber :: "'b menu_state \<Rightarrow> bytes \<Rightarrow> ('b menu_state \<times> bytes) uart" where
  "reset_artix_fiber s inp =
     Got (s\<lparr>menu_regs := menu_regs s @ [Out32 OLD_EVR_RST_REG 1, Out32 OLD_EVR_RST_REG 2, Delay 1000]\<rparr>, inp)"

text \<open>The three EEPROM writes of \<open>program_ip\<close>, each followed by a pause.\<close>

definition store_ip :: "'b i2c_send \<Rightarrow> (nat \<Rightarrow> 'b \<Rightarrow> 'b) \<Rightarrow> ip_t \<Rightarrow> 'b \<Rightarrow> 'b option" where
  "store_ip send usleep ip b =
     (case i2c_eeprom_writeBytes send 0 (ipaddr ip) 4 b of
        None \<Rightarrow> None
      | Some b1 \<Rightarrow>
          (case i2c_eeprom_writeBytes send 16 (ipmask ip) 4 (usleep 100000 b1) of
             None \<Rightarrow> None
           | Some b2 \<Rightarrow>
               (case i2c_eeprom_writeBytes send 32 (ipgw ip) 4 (usleep 100000 b2) of
                  None \<Rightarrow> None
                | Some b3 \<Rightarrow> Some (usleep 100000 b3))))"

text \<open>\<open>stack n\<close> is what the array of the \<open>n\<close>th call of \<open>menu_get_ipaddr\<close> holds.\<close>

definition program_ip ::
  "'b i2c_send \<Rightarrow> (nat \<Rightarrow> 'b \<Rightarrow> 'b) \<Rightarrow> (bytes \<Rightarrow> bytes \<Rightarrow> bytes) \<Rightarrow> (nat \<Rightarrow> bytes) \<Rightarrow> 'b menu_state \<Rightarrow> bytes \<Rightarrow> ('b menu_state \<times> bytes) uart" where
  "program_ip send usleep scan4 stack s inp =
     (case menu_get_ipaddr_old scan4 (stack 0) (ipaddr (ip_settings s)) inp of
        Waiting \<Rightarrow> Waiting
      | Overrun \<Rightarrow> Overrun
      | Got (a, inp1) \<Rightarrow>
          (case menu_get_ipaddr_old scan4 (stack 1) (ipmask (ip_settings s)) inp1 of
             Waiting \<Rightarrow> Waiting
           | Overrun \<Rightarrow> Overrun
           | Got (m, inp2) \<Rightarrow>
               (case menu_get_ipaddr_old scan4 (stack 2) (ipgw (ip_settings s)) inp2 of
                  Waiting \<Rightarrow> Waiting
                | Overrun \<Rightarrow> Overrun
                | Got (g, inp3) \<Rightarrow>
                    (let ip = \<lparr>ipaddr = a, ipmask = m, ipgw = g\<rparr>
                     in case store_ip send usleep ip (menu_bus s) of
                          None \<Rightarrow> Overrun
                        | Some b \<Rightarrow> Got (s\<lparr>ip_settings := ip, menu_bus := b\<rparr>, inp3)))))"

definition set_evr_trig ::
  "(u32 \<Rightarrow> bytes \<Rightarrow> (u32 \<times> bytes) uart) \<Rightarrow> u32 \<times> u32 \<Rightarrow> 'b menu_state \<Rightarrow> bytes \<Rightarrow> ('b menu_state \<times> bytes) uart" where
  "set_evr_trig scand stack s inp =
     (case scand (fst stack) inp of
        Waiting \<Rightarrow> Waiting
      | Overrun \<Rightarrow> Overrun
      | Got (evrno, inp1) \<Rightarrow>
          (case scand (snd stack) inp1 of
             Waiting \<Rightarrow> Waiting
           | Overrun \<Rightarrow> Overrun
           | Got (evrdly, inp2) \<Rightarrow>
               Got (s\<lparr>menu_regs := menu_regs s @ [Out32 OLD_ARTIX_SPI_DATA 1, Out32 OLD_ARTIX_SPI_ADDR 0]
                                   @ set_eventno_old evrno @ set_eventdly_old evrdly\<rparr>, inp2)))"

section \<open>The menu\<close>

type_synonym 's menu_action = "'s \<Rightarrow> bytes \<Rightarrow> ('s \<times> bytes) uart"

text \<open>The first entry with the key; an entry without a function does nothing.\<close>

fun run_entry_old :: "u8 \<Rightarrow> (u8 \<times> 's menu_action option) list \<Rightarrow> 's menu_action" where
  "run_entry_old choice [] s inp = Got (s, inp)"
| "run_entry_old choice ((entryCh, entryFunc) # m) s inp =
     (if entryCh = choice then (case entryFunc of None \<Rightarrow> Got (s, inp) | Some f \<Rightarrow> f s inp)
      else run_entry_old choice m s inp)"

text \<open>\<open>exec_menu\<close>, up to \<open>fuel\<close> keys: \<open>Got\<close> when it was left with \<open>Q\<close>.\<close>

fun exec_menu_old :: "nat \<Rightarrow> (u8 \<times> 's menu_action option) list \<Rightarrow> 's menu_action" where
  "exec_menu_old 0 m s inp = Waiting"
| "exec_menu_old (Suc fuel) m s inp =
     (case inp of
        [] \<Rightarrow> Waiting
      | c # cs \<Rightarrow>
          (let choice = upcase c
           in case run_entry_old choice m s cs of
                Waiting \<Rightarrow> Waiting
              | Overrun \<Rightarrow> Overrun
              | Got (s', rest) \<Rightarrow> if choice = 0x51 then Got (s', rest) else exec_menu_old fuel m s' rest))"

definition menu_old ::
  "'b i2c_send \<Rightarrow> 'b i2c_recv \<Rightarrow> (nat \<Rightarrow> 'b \<Rightarrow> 'b) \<Rightarrow> (bytes \<Rightarrow> bytes \<Rightarrow> bytes) \<Rightarrow> (u32 \<Rightarrow> bytes \<Rightarrow> (u32 \<times> bytes) uart) \<Rightarrow>
     (nat \<Rightarrow> bytes) \<Rightarrow> u32 \<times> u32 \<Rightarrow>
     (u8 \<times> 'b menu_state menu_action option) list" where
  "menu_old send recv usleep scan4 scand stack ints =
     [(0x41, Some (dump_eeprom send recv)), (0x42, Some (program_ip send usleep scan4 stack)),
      (0x43, Some dump_waveform), (0x44, Some reset_artix_fiber), (0x45, Some (set_evr_trig scand ints))]"

section \<open>Start-up\<close>


text \<open>The values \<open>print_firmware_version\<close> shows; \<open>date\<close> is \<open>localtime\<close> and \<open>strftime\<close> on the time of compilation.\<close>

definition print_firmware_version_old :: "(pl_reg_old \<Rightarrow> u32) \<Rightarrow> (u32 \<Rightarrow> 't) \<Rightarrow> (string \<times> u32) list \<times> 't" where
  "print_firmware_version_old in32 date =
     ([(''Module ID Number'', in32 OLD_MOD_ID_NUM), (''Module Version Number'', in32 OLD_MOD_ID_VER),
       (''Project ID Number'', in32 OLD_PROJ_ID_NUM), (''Project Version Number'', in32 OLD_PROJ_ID_VER),
       (''Git Checksum'', in32 OLD_GIT_SHASUM)],
      date (in32 OLD_COMPILE_TIMESTAMP))"

definition vUptimeTimerCallback :: "u32 \<Rightarrow> u32" where
  "vUptimeTimerCallback UptimeCounter = UptimeCounter + 1"

text \<open>The three driver calls of \<open>init_sysmon\<close>; the result is \<open>XST_SUCCESS\<close> (0) or \<open>XST_FAILURE\<close> (1).\<close>

definition init_sysmon ::
  "('y \<Rightarrow> bool \<times> 'y) \<Rightarrow> ('y \<Rightarrow> int \<times> 'y) \<Rightarrow> ('y \<Rightarrow> int \<times> 'y) \<Rightarrow> 'y \<Rightarrow> int \<times> 'y" where
  "init_sysmon lookup cfg_initialize self_test y =
     (let (found, y1) = lookup y in
      if \<not> found then (1, y1)
      else let (status, y2) = cfg_initialize y1 in
           if status \<noteq> 0 then (1, y2)
           else let (status2, y3) = self_test y2 in
                if status2 \<noteq> 0 then (1, y3) else (0, y3))"

text \<open>\<open>read_artix_fifo\<close>: at most 3000 polls, then twenty words are read for printing and the FIFO reset.\<close>

function artix_poll :: "'h in32_old \<Rightarrow> nat \<Rightarrow> 'h \<Rightarrow> u32 \<times> 'h" where
  "artix_poll in32 pollcnt h =
     (let (wordcnt, h') = in32 h CHAINA_FIFO_CNT_REG
      in if wordcnt = 0 \<and> pollcnt + 1 < 3000 then artix_poll in32 (pollcnt + 1) h' else (wordcnt, h'))"
  by pat_completeness auto
termination
  by (relation "measure (\<lambda>(in32, pollcnt, h). 3000 - pollcnt)") auto

declare artix_poll.simps [simp del]

fun artix_words :: "'h in32_old \<Rightarrow> nat \<Rightarrow> 'h \<Rightarrow> u32 list \<times> 'h" where
  "artix_words in32 0 h = ([], h)"
| "artix_words in32 (Suc n) h =
     (let (regval, h1) = in32 h CHAINA_FIFO_DATA_REG; (ws, h2) = artix_words in32 n h1 in (regval # ws, h2))"

definition read_artix_fifo :: "'h in32_old \<Rightarrow> 'h out32_old \<Rightarrow> 'h \<Rightarrow> u32 list \<times> 'h" where
  "read_artix_fifo in32 out32 h =
     (let (wordcnt, h1) = artix_poll in32 0 h;
          (ws, h2) = artix_words in32 20 h1;
          h3 = out32 (out32 h2 CHAINA_FIFO_RST_REG 1) CHAINA_FIFO_RST_REG 0
      in (ws, snd (in32 h3 CHAINA_FIFO_CNT_REG)))"

definition write_artix_spi :: "mmio_old list" where
  "write_artix_spi = spi_write_old 0 1"

text \<open>The register writes and waits of \<open>main\<close>, behind the oscillator set-up.\<close>

definition main_regs_old :: "mmio_old list" where
  "main_regs_old =
     [Out32 OLD_EVR_RST_REG 1, Out32 OLD_EVR_RST_REG 2, Delay 1000,
      Out32 CHAINA_FIFO_RST_REG 1, Delay 1, Out32 CHAINA_FIFO_RST_REG 0, Delay 10,
      Out32 CHAINA_FIFO_STREAMENB_REG 0, Delay 1000000]
     @ replicate 5 (Delay 1000000) @ [Delay 1000000]"

datatype start_step =
    Get_mac | Lwip_init | Xemac_add | Netif_up | Start_input | Assign_ip | Ticks nat
  | Start_menu | Start_status | Start_wvfm | Start_control | Timer_create | Timer_start | Task_delete

text \<open>\<open>main_thread\<close>: the interface can be missing, the timer can fail to be created.\<close>

definition main_thread :: "bool \<Rightarrow> bool \<Rightarrow> start_step list" where
  "main_thread netif_added timer_created =
     [Get_mac, Lwip_init, Xemac_add]
     @ (if \<not> netif_added then []
        else [Netif_up, Start_input, Assign_ip, Ticks 100, Start_menu, Ticks 100, Start_status,
              Ticks 100, Start_wvfm, Ticks 100, Start_control, Timer_create]
             @ (if timer_created then [Timer_start] else []) @ [Task_delete])"

text \<open>\<open>main\<close>: the drivers, the registers, and the thread that starts all others.\<close>

datatype boot_step_old =
    Show_firmware_version | Clear_wvfm_debug | Setup_i2c | Setup_sysmon | Setup_lmk61e2 | Setup_si5347
  | Setup_regs "mmio_old list" | Start_main_thread | Start_scheduler

definition main_old :: "boot_step_old list" where
  "main_old =
     [Show_firmware_version, Clear_wvfm_debug, Setup_i2c, Setup_sysmon, Setup_lmk61e2, Setup_si5347,
      Setup_regs main_regs_old, Start_main_thread, Start_scheduler]"

section \<open>Network settings survive a reboot\<close>


















end
