(* ===== verification/Spec2Isabelle.thy ===== *)
theory Spec2Isabelle
  imports Outbound Sockets Tftp_Session Tftp_Events Boot Discover I2c Old_Status Old_Menu
begin

text \<open>
  The control software of the ACMI back end (\<^verbatim>\<open>acmi-pzed-backend\<close>): a verification of the C firmware that
  runs on the processor of a Zynq, between the programmable logic of the instrument and its clients on the
  network. Names of source files below are relative to \<open>src/\<close>.

  \<^bold>\<open>The program.\<close> The current firmware is \<open>sw/src\<close>. \<open>main.c\<close> initialises the I2C buses, the oscillator and the
  event receiver and starts the scheduler; \<open>realmain\<close> reads the network configuration from the SD card
  (\<open>sdcard.c\<close>), brings up lwIP (\<open>net_setup.c\<close>), starts discovery (\<open>discover.c\<close>), and runs the PSC server
  (\<open>listener.c\<close> on top of the message layer \<open>pscmsg.c\<close>). The server accepts up to four clients and has a thread for
  each, which hands every received message to \<open>client_msg\<close> in \<open>main.c\<close> and by it to the handlers in
  \<open>control.c\<close>; these write registers of the logic (\<open>pl_regs.h\<close>) and, through an SPI port there, registers and the
  EEPROM of the front end. Once the server runs, three more threads start: waveforms (\<open>wvfmdata.c\<close>) and
  statistics (\<open>lstats.c\<close>), which broadcast to all clients with \<open>psc_send\<close>, and a serial console (\<open>console.c\<close>). A TFTP
  server (\<open>tftp_server.c\<close>) gives access to the files of the SD card (\<open>tftp_handler.c\<close>); the call that starts it is
  commented out in \<open>realmain\<close>. The former firmware,
  \<open>sw_old\<close>, has a thread and a port each for control, status and waveforms, a menu, and drives a clock chip,
  power monitors and SFP modules over I2C.

  \<^bold>\<open>The theories.\<close>
  \<^item> \<open>Prelude\<close>: machine integers, memory as bytes, byte orders; the locale \<open>codec\<close> of a fixed-width encoding, interpreted
    for 16 and 32 bits in both byte orders, with the lemmas on arrays of such fields that every message layout uses.
  \<^item> \<open>Pscmsg\<close> (\<open>pscmsg.c\<close>): \<open>psc_sendall\<close>, \<open>psc_recvall\<close>, \<open>psc_recvskip\<close>, headers and whole messages over a stream
    socket. A sent message is one frame; a received frame is delivered whatever the pieces it arrives in; sending and
    receiving are inverse; nothing is stored outside the caller's buffer, except after the time-out that
    \<open>psc_recvskip_overruns_after_timeout\<close> describes.
  \<^item> \<open>Listener\<close> (\<open>listener.c\<close>): the records \<open>psc_key\<close> and \<open>psc_client\<close>, slots, accepting, the receive thread, broadcasting.
    The locale \<open>slot_table\<close> is the contract of the slots. The relation \<open>server_step\<close> interleaves the threads at the
    mutex; its reachable states are well formed. A receive thread delivers exactly the messages of its
    connection, a broadcast reaches every live client and isolates failing ones.
  \<^item> \<open>Sockets\<close>: the same server with lwIP's descriptors, which \<open>accept\<close> gives out and \<open>close\<close> takes back, as steps labelled with the
    thread that takes them. In every reachable state a broadcast gives each client that accepts it the frame once for each slot that
    holds its socket, and no thread disturbs the slot of another, which is why \<open>Listener\<close> can describe a receive thread
    alone. As long as no number is reused that a thread still holds, moreover, every socket has one owner;
    with the reuse lwIP does, two clients can share a socket.
  \<^item> \<open>Mmio\<close> (\<open>pl_regs.h\<close>): the register map, register accesses as lists of \<open>Out32\<close> and \<open>Delay\<close>, the SPI frames they cause; the
    locale \<open>reg_op\<close> is the contract of a routine that touches only its registers and leaves the strobes at rest,
    interpreted for every handler.
  \<^item> \<open>Control\<close> (\<open>control.c\<close>): the handlers of messages 1 to 3. Storing an EEPROM setting refines the abstract
    \<open>eeprom_store32\<close>; the ADC table is sent entry by entry.
  \<^item> \<open>App\<close> (\<open>main.c\<close>): callbacks, dispatch, start order. Any message leaves the strobes at rest and reads no
    byte outside the receive buffer; a setting does what the table of settings says; and a message
    takes a bounded time.
  \<^item> \<open>Concurrent\<close>: the register accesses of the clients' threads and the console, which take no lock, in any
    interleaving: what is at rest stays so, while the frames of the SPI port can be torn.
  \<^item> \<open>Wvfmdata\<close> (\<open>wvfmdata.c\<close>): waiting for a record, unpacking and sending it. \<open>Outbound\<close>: the messages of all sending
    threads as one stream to a client, each of the length its number stands for.
  \<^item> \<open>Tftp\<close> and \<open>Tftp_Handler\<close> (\<open>tftp_server.c\<close>, \<open>tftp_handler.c\<close>): the transfer as a state machine with its reachable
    states, complete read and write transfers, a silent and a foreign peer; the callbacks on FatFs fulfil the
    contracts the server relies on. \<open>Tftp_Events\<close>: transfers while strangers send and the timer runs, as long as the client
    answers within ten timer calls. \<open>Tftp_Session\<close>: server and card together, from the request to the contents of the card and
    back to a reading client, on a card whose calls may fail.
  \<^item> \<open>Boot\<close>: the network part of \<open>realmain\<close>; a configuration written to \<open>NET.CNF\<close> is what the interface is added with.
  \<^item> \<open>Sdcard\<close> (\<open>sdcard.c\<close>): where handling the card is defined, and where not (\<open>hwaddr\<close> without argument, no memory).
  \<^item> \<open>Net_Setup\<close>, \<open>Discover\<close>, \<open>Lstats\<close>, \<open>Console\<close>, \<open>I2c\<close>: the files of the same names.
  \<^item> \<open>Old_Server\<close>, \<open>Old_Control\<close>, \<open>Old_Wvfm\<close>, \<open>Old_Status\<close> (\<open>psc_*_thread.c\<close>), \<open>Old_Si5347\<close>, \<open>Old_I2c\<close> (\<open>i2c_devices.c\<close> and the
    register table), \<open>Old_Menu\<close> (\<open>menu_thread.c\<close>, \<open>main.c\<close>): the former firmware. Its control messages have the effect
    of those of the current one where both have them; the waveform and status messages, built in
    buffers that are too short for them, are described offset by offset up to the write behind the buffer; programming the clock chip refines storing every table entry at its address; network settings
    entered in the menu are what the next start reads.
  \<^item> This theory: properties that span components, from the bytes on a connection to the registers, from
    the FIFO of the front end to the bytes on every connection, and from a setting stored by one firmware to the
    same setting stored by the other.

  \<^bold>\<open>How the model reads.\<close> A struct is a record with the source's field names, an enumeration a datatype, an
  integer a word of its width. A C buffer is the list of its bytes up to the end of its object, and the result
  \<open>None\<close> stands for undefined behaviour: an access outside an object or through a null pointer. Functions that only
  write registers are lists of accesses; functions that also read hardware or the network pass the state of
  the outside world explicitly. Code that is not in the repository (lwIP, FreeRTOS, FatFs, the Xilinx drivers) and
  \<open>sscanf\<close>, \<open>strtof\<close> and the like are arguments of the definitions that use them, and what is relied on is a
  named predicate, such as \<open>send_contract\<close>, \<open>recv_contract\<close>, \<open>opens_contract\<close>, \<open>fifo_contract\<close>, \<open>fwrite_contract\<close>, \<open>disk_contract\<close>,
  \<open>memfind_finds\<close>, \<open>inet_contract\<close>, \<open>malloc_succeeds\<close>, \<open>ina226_device\<close>, \<open>eeprom_device\<close> or \<open>sock_contract\<close>, with a concrete instance for which it is proved. Floating-point scaling and the encoding of a
  float are arguments too, except for the exact conversion \<open>L11_to_float\<close>, which is on real numbers.

  \<^bold>\<open>Loops and fuel.\<close> Loops with a bound in the code are total functions with a measure. Loops that wait for
  the outside world have an argument \<open>fuel\<close>: the rounds of a receive thread (one more than the messages of the
  connection is enough), the polls of the waveform thread (\<open>wvfm_poll_returns\<close> gives the bound), the lines of \<open>NET.CNF\<close>
  (more than the file has), the polls of an I2C bus (as many as it stays busy), the keys at a prompt. Running out of fuel
  is a result of its own, and the theorems show that the bounds named give a result. Threads that never end
  are run for any number of rounds.

  \<^bold>\<open>Not modelled.\<close> Console output, except the values in it that come from the hardware or from FreeRTOS; the
  alignment and padding of structs beyond what a message shows; the timing of delays beyond their sum; overflow of the second counter of the TFTP server; what the connection
  callback sends, within \<open>handle_client\<close> (it is \<open>client_event\<close> in \<open>App\<close>); \<open>sw/src/psc_msg.h\<close>, which no
  source file includes, and the declarations in \<open>local.h\<close> and \<open>sw_old/inc/zubpm_defs.h\<close> that have no definition; code
  in comments; the VHDL and the register description under \<open>hw\<close>, of which \<open>Mmio\<close> takes the register addresses and the
  format of the SPI frames.
\<close>

section \<open>Properties of the whole program\<close>

text \<open>
  C1. A client session of settings, from the bytes on the connection to the registers: when a client sends
  any number of register messages, however the bytes arrive, its receive thread executes them all without
  reading outside a buffer, and the registers end as the settings, applied one after the other, say; the
  slot is then free again and the socket closed, while a cut-off message at the end of the stream changes
  nothing.
\<close>

theorem session_applies_settings:
  assumes "recv_contract recv pend" "recv_delivers recv pend (sock (clients key ! c))"
    and "pend w (sock (clients key ! c)) =
           concat (map (\<lambda>(a, d). psc_frame 1 (be32 a @ be32 d)) ads) @ tail" "no_header tail"
    and "key_wf key" "c < PSC_MAX_CLIENTS" "quiescent s" "length ads < fuel"
  shows "\<exists>es w'. handle_client fuel recv close (\<lambda>_ app. app) client_cb c (key, [], w) =
             Done (psc_client_free c key, es, close w' (sock (clients key ! c)))
           \<and> reg_run es s = fold (\<lambda>(a, d). setting_effect a d) ads s"
proof -
  let ?ms = "map (\<lambda>(a, d). (1, be32 a @ be32 d)) ads :: (u16 \<times> bytes) list"
  let ?es = "concat (map (\<lambda>(a, d). reg_switch a d) ads)"
  have frames: "concat (map (\<lambda>(mid, body). psc_frame mid body) ?ms) =
      concat (map (\<lambda>(a, d). psc_frame 1 (be32 a @ be32 d)) ads)"
    by (induction ads) auto
  have short: "list_all (\<lambda>(mid, body). length body < 2 ^ 32) ?ms"
    by (simp add: list_all_iff case_prod_beta)
  have buf: "length (rxbuf (clients key ! c)) = RXBUF_SIZE" "c < length (clients key)"
    using length_rxbuf key_wfD(1) assms(5,6) by auto
  obtain buf' where "deliver client_cb ?ms (rxbuf (clients key ! c)) [] = Some (buf', [] @ ?es)"
    using deliver_settings [OF buf(1)] by blast
  then obtain w' where "handle_client_loop fuel recv client_cb (sock (clients key ! c)) (rxbuf (clients key ! c)) [] w =
      Done (buf', ?es, w')"
    using handle_client_loop_delivers [OF assms(1,2) _ assms(4) short buf(1), of w client_cb "[]" buf' ?es fuel]
      assms(3,8) frames by auto
  then have "handle_client fuel recv close (\<lambda>_ app. app) client_cb c (key, [], w) =
      Done (psc_client_free c key, ?es, close w' (sock (clients key ! c)))"
    using buf(2) by (auto simp: handle_client_def Let_def handle_client_exit_def psc_client_free_def)
  with settings_effect [OF assms(7), of ads] show ?thesis by blast
qed

theorem session_applies_settings_witness:
  "\<exists>es w'. handle_client 3 demo_recv (\<lambda>w s. w) (\<lambda>_ app. app) client_cb 0
       (demo_key2, [], \<lambda>_. concat (map (\<lambda>(a, d). psc_frame 1 (be32 a @ be32 d)) [(0, 7), (12, 5)]) @ [0x50]) =
     Done (psc_client_free 0 demo_key2, es, w')
     \<and> reg_run es (\<lambda>r. if r \<in> {LATCH_RESET, ACIS_FORCE_TRIP} then 1 else 0) EVR_FE_TRIGNUM_REG = 7"
proof -
  have "quiescent (\<lambda>r. if r \<in> {LATCH_RESET, ACIS_FORCE_TRIP} then 1 else 0)"
    by (simp add: quiescent_def)
  then show ?thesis
    using session_applies_settings [OF demo_recv_contract demo_recv_delivers, where key = demo_key2 and c = 0
        and w = "\<lambda>_. concat (map (\<lambda>(a, d). psc_frame 1 (be32 a @ be32 d)) [(0, 7), (12, 5)]) @ [0x50]"
        and ads = "[(0, 7), (12, 5)]" and tail = "[0x50]" and fuel = 3 and close = "\<lambda>w s. w"
        and s = "\<lambda>r. if r \<in> {LATCH_RESET, ACIS_FORCE_TRIP} then 1 else 0"]
      demo_key2_wf(1)
    by (auto simp: no_header_def setting_effect_def)
qed

text \<open>
  C2. A waveform record, from the FIFO to the clients: when the poll ends with more than 8000 words and the FIFO
  holds a record, one round of the waveform thread ends, and every connected client whose socket keeps
  accepting stays connected and has been sent exactly the five frames of the record, with the FIFO words in
  network byte order; this holds whatever the other clients do, and nothing is sent on any other socket.
\<close>

theorem waveform_reaches_clients:
  assumes "fifo_contract in32 fifo stamp" "bufs_wf b"
    and "wvfm_poll fuel in32 h = Some (cnt, h1)" "8000 < cnt"
    and "fifo h1 = ps @ ee @ bo @ wv @ rest"
    and "length ps = 64" "length ee = 64" "length bo = 64" "length wv = 8000"
    and "send_contract send sent" "close_contract close sent" "key_wf key" "distinct_socks key"
  shows "\<exists>b' h' key' w'. wvfmdata_push fuel in32 out32 send close b h (Some key, w) = Some (b', h', Some key', w')
           \<and> (\<forall>i. live key i \<longrightarrow> send_accepts send (sock (clients key ! i)) \<longrightarrow>
                clients key' ! i = clients key ! i
                \<and> sent w' (sock (clients key ! i)) = sent w (sock (clients key ! i))
                    @ psc_frame 52 (concat (map be32 ee)) @ psc_frame 53 (concat (map be32 bo))
                    @ psc_frame 54 (concat (map be32 wv)) @ psc_frame 51 (concat (map be32 ps))
                    @ psc_frame 55 (be32 (fst (stamp h1)) @ be32 (snd (stamp h1))))
           \<and> (\<forall>s. s \<notin> live_socks key \<longrightarrow> sent w' s = sent w s)"
proof -
  let ?ms = "[(52, 256, concat (map be32 ee)), (53, 256, concat (map be32 bo)),
              (54, 32000, concat (map be32 wv)), (51, 256, concat (map be32 ps)),
              (55, 8, be32 (fst (stamp h1)) @ be32 (snd (stamp h1)))]"
  obtain b' h' where round: "wvfm_round fuel in32 out32 b h = Some (b', h', ?ms)"
    using wvfm_round_record [OF assms(1-9)] by blast
  have len: "length (concat (map be32 ee)) = 256" "length (concat (map be32 bo)) = 256"
    "length (concat (map be32 wv)) = 32000" "length (concat (map be32 ps)) = 256"
    using assms(6-9) by (simp_all add: wire32.length_enc_list)
  have "list_all (\<lambda>(msgid, msglen, msg). unat msglen \<le> length msg) ?ms"
    using len by simp
  from psc_send_all_accepted [OF assms(10,11) this assms(12,13), of w] round len show ?thesis
    by (fastforce simp: wvfmdata_push_def message_frames_def)
qed

theorem waveform_reaches_clients_witness:
  "\<exists>b' h' key' w'. wvfmdata_push 1 demo_in32 demo_out32 demo_send (\<lambda>w s. w) wvfm_init
       (replicate 64 1 @ replicate 64 2 @ replicate 64 3 @ replicate 8000 4, 11, 12) (Some demo_key2, \<lambda>_. []) =
     Some (b', h', Some key', w')
     \<and> w' 5 = psc_frame 52 (concat (map be32 (replicate 64 2))) @ psc_frame 53 (concat (map be32 (replicate 64 3)))
           @ psc_frame 54 (concat (map be32 (replicate 8000 4))) @ psc_frame 51 (concat (map be32 (replicate 64 1)))
           @ psc_frame 55 (be32 11 @ be32 12)"
proof -
  let ?h = "(replicate 64 1 @ replicate 64 2 @ replicate 64 3 @ replicate 8000 4, 11, 12) :: u32 list \<times> u32 \<times> u32"
  have "length (fst ?h) = 8192" by (simp only: fst_conv length_append length_replicate arith_simps)
  then have "demo_in32 ?h FIFO_CNT_REG = (8192, ?h)"
    by (simp only: demo_in32_def Let_def split_beta fst_conv if_True simp_thms of_nat_numeral)
  then have poll: "wvfm_poll 1 demo_in32 ?h = Some (8192, ?h)"
    by (simp only: One_nat_def wvfm_poll.simps Let_def split_beta fst_conv snd_conv) simp
  have fifo: "fst ?h = replicate 64 1 @ replicate 64 2 @ replicate 64 3 @ replicate 8000 4 @ []"
    by (simp only: fst_conv append_Nil2)
  have live: "live demo_key2 0" "sock (clients demo_key2 ! 0) = 5"
    using demo_key2_live by (auto simp: demo_key2_eq)
  have acc: "send_accepts demo_send 5"
    by (simp add: send_accepts_def demo_send_def)
  have socks: "distinct_socks demo_key2"
    using demo_key2_wf(2) by (simp add: distinct_socks_def)
  have lens: "length (replicate 64 (1::u32)) = 64" "length (replicate 64 (2::u32)) = 64"
    "length (replicate 64 (3::u32)) = 64" "length (replicate 8000 (4::u32)) = 8000"
    by (simp_all only: length_replicate)
  have big: "(8000::u32) < 8192" by simp
  obtain b' h' key' w' where "wvfmdata_push 1 demo_in32 demo_out32 demo_send (\<lambda>w s. w) wvfm_init ?h (Some demo_key2, \<lambda>_. []) =
      Some (b', h', Some key', w')"
    "\<forall>i. live demo_key2 i \<longrightarrow> send_accepts demo_send (sock (clients demo_key2 ! i)) \<longrightarrow>
       clients key' ! i = clients demo_key2 ! i
       \<and> w' (sock (clients demo_key2 ! i)) = []
           @ psc_frame 52 (concat (map be32 (replicate 64 2))) @ psc_frame 53 (concat (map be32 (replicate 64 3)))
           @ psc_frame 54 (concat (map be32 (replicate 8000 4))) @ psc_frame 51 (concat (map be32 (replicate 64 1)))
           @ psc_frame 55 (be32 (fst (snd ?h)) @ be32 (snd (snd ?h)))"
    using waveform_reaches_clients [OF demo_fifo_contract bufs_wf_init poll big fifo lens demo_send_contract
        demo_close_contract demo_key2_wf(1) socks, of demo_out32 "\<lambda>_. []"] by blast
  moreover from this(2) [THEN spec, of 0] have "w' 5 = psc_frame 52 (concat (map be32 (replicate 64 2)))
           @ psc_frame 53 (concat (map be32 (replicate 64 3)))
           @ psc_frame 54 (concat (map be32 (replicate 8000 4))) @ psc_frame 51 (concat (map be32 (replicate 64 1)))
           @ psc_frame 55 (be32 11 @ be32 12)"
    using live(1) acc unfolding live(2) append_Nil fst_conv snd_conv by blast
  ultimately show ?thesis by blast
qed

text \<open>
  C32. The two firmwares store settings alike: for an address up to 196, a message 2 of the current firmware and
  the packet of the former one for the same setting cause the same frames on the SPI port, and so the same
  EEPROM commands. Beyond, the former firmware gives the EEPROM no command, while the current one stores at any
  address that leaves room for four bytes.
\<close>

theorem firmwares_store_alike:
  assumes "length hdr = 8"
  shows "\<exists>es. client_msg 2 n (be32 a @ be32 d @ r) = Some es
     \<and> (a \<le> 196 \<longrightarrow>
          spi_frames x y (current_view (control_packet (hdr @ be32 (a + 256) @ be32 d @ rest))) = spi_frames x y es)
     \<and> (196 < a \<longrightarrow>
          eeprom_cmds w (spi_frames x y (current_view (control_packet (hdr @ be32 (a + 256) @ be32 d @ rest)))) = [])
     \<and> (unat a + 3 < 2 ^ 16 \<longrightarrow> eeprom_cmds w (spi_frames x y es) = eeprom_store32 (ucast a) d)"
proof (intro exI conjI impI, rule client_msg_eeprom)
  have range: "256 \<le> a + 256 \<and> a + 256 \<le> 452 \<longleftrightarrow> a \<le> 196" by unat_arith simp
  show "spi_frames x y (current_view (control_packet (hdr @ be32 (a + 256) @ be32 d @ rest))) = spi_frames x y (eeprom_store a d)"
    if "a \<le> 196"
    using control_packet_frames [OF assms, of "a + 256" x y d rest] range that by simp
  show "eeprom_cmds w (spi_frames x y (current_view (control_packet (hdr @ be32 (a + 256) @ be32 d @ rest)))) = []"
    if "196 < a"
    using control_packet_cmds [OF assms refl, of w x y "a + 256" d rest] range that by (simp add: not_le [symmetric] del: not_le)
qed (rule eeprom_store_refines_store32)

theorem firmwares_store_alike_witness:
  "\<exists>es. client_msg 2 8 (be32 4 @ be32 5 @ []) = Some es
     \<and> spi_frames 0 0 (current_view (control_packet (replicate 8 0 @ be32 260 @ be32 5 @ []))) = spi_frames 0 0 es"
  using firmwares_store_alike [of "replicate 8 0" 8 4 5 "[]" 0 0 "[]" 0] by auto

end
